(* ===== verification/Prelude.thy ===== *)
theory Prelude
  imports Main "HOL-Library.Word" "HOL-Library.Signed_Division"
begin

unbundle bit_operations_syntax

text \<open>
  Shared vocabulary of the development: the outcome of a C++ call (a value, a reported
  diagnostic with a false return, or no defined result at all), the limits of the machine
  types of an LP64 target, the number of significant bits of a natural number, and the
  positional value of a list of digits or bytes.  The component theories import this one
  and rest on its lemma collections:
  \<^item> \<open>limits\<close>: the numeric limits of the machine types, unfolded;
  \<^item> \<open>outcome_simps\<close>: the simplification of composed outcomes.
\<close>

named_theorems limits "numeric limits of the machine integer types"
named_theorems outcome_simps "rules for composed outcomes"

section \<open>Outcomes\<close>

text \<open>
  The diagnostics the modelled code reports (the \<^verbatim>\<open>diag::\<close> identifiers of the sources,
  with the arguments that are streamed into them where the code streams any).
\<close>

datatype diag =
    err_divide_by_zero
  | err_invalid_op_use string
  | err_int_invalid_op
  | err_float_invalid_op
  | err_equ_circular_reference
  | err_org_overlap
  | err_align_code_not_found
  | err_align_invalid_code_size nat
  | err_align_boundary_not_const
  | err_align_fill_not_const
  | err_align_skip_not_const
  | err_org_start_not_const
  | err_org_fill_not_const
  | err_leb128_too_complex
  | err_multiple_too_complex
  | err_multiple_not_absolute
  | err_multiple_negative
  | err_multiple_unknown
  | err_expr_contains_float
  | err_addr16_override_64mode
  | err_data32_override_64mode
  | err_invalid_disp_size
  | err_optimizer_circular_reference
  | err_optimizer_secondary_expansion
  | exc_out_of_range
  | err_reloc_contains_float
  | err_reloc_too_complex
  | err_too_complex_expression
  | err_too_complex_jump
  | err_invalid_jump_target
  | warn_uninit_zero
  | warn_nobits_data
  | warn_negative_uleb128
  | warn_signed_overflow nat
  | warn_unsigned_overflow nat
  | warn_truncated nat
  | warn_float_underflow
  | warn_float_overflow
  | warn_float_inexact
  | warn_multiple_acq_rel
  | warn_multiple_lock_rep
  | warn_ignore_rex_on_jump
  | warn_illegal_rex_insn
  | warn_rex_overrides_internal
  | warn_multiple_rex
  | warn_fixed_invalid_disp_size

text \<open>
  \<open>Ret\<close> is a normal return, \<open>Fail\<close> a reported error together with a false return, and
  \<open>Undefined\<close> stands for every execution for which C++ promises nothing: a failed
  assertion, signed overflow, a shift count out of range, an access outside an object or
  to a deleted one.
\<close>

datatype 'a outcome = Ret 'a | Fail diag | Undefined

fun bind_out :: "'a outcome \<Rightarrow> ('a \<Rightarrow> 'b outcome) \<Rightarrow> 'b outcome" where
  "bind_out (Ret x) f = f x"
| "bind_out (Fail d) f = Fail d"
| "bind_out Undefined f = Undefined"

lemma bind_out_Ret_iff [outcome_simps]:
  "bind_out m f = Ret y \<longleftrightarrow> (\<exists>x. m = Ret x \<and> f x = Ret y)"
  by (cases m) auto

lemma bind_out_assoc [outcome_simps]:
  "bind_out (bind_out m f) g = bind_out m (\<lambda>x. bind_out (f x) g)"
  by (cases m) auto

section \<open>Machine integers of an LP64 target\<close>

text \<open>
  \<^verbatim>\<open>long\<close> and \<^verbatim>\<open>long long\<close> have 64 bits, \<^verbatim>\<open>int\<close> and \<^verbatim>\<open>unsigned int\<close> have 32.
  Signed values are integers with their range stated, and arithmetic that leaves it is
  \<open>Undefined\<close>; unsigned values are integers reduced modulo the width.
\<close>

definition LONG_MAX :: int where [limits]: "LONG_MAX = 9223372036854775807"
definition LONG_MIN :: int where [limits]: "LONG_MIN = - 9223372036854775808"
definition ULONG_MAX :: int where [limits]: "ULONG_MAX = 18446744073709551615"

abbreviation to_u64 :: "int \<Rightarrow> int" where "to_u64 \<equiv> take_bit 64"
abbreviation to_u32 :: "int \<Rightarrow> int" where "to_u32 \<equiv> take_bit 32"
abbreviation to_u8 :: "int \<Rightarrow> int" where "to_u8 \<equiv> take_bit 8"

text \<open>Conversion of an unsigned value to \<^verbatim>\<open>int\<close> or \<^verbatim>\<open>long\<close> keeps the low bits.\<close>

abbreviation to_s32 :: "int \<Rightarrow> int" where "to_s32 \<equiv> signed_take_bit 31"
abbreviation to_s64 :: "int \<Rightarrow> int" where "to_s64 \<equiv> signed_take_bit 63"

definition long_range :: "int \<Rightarrow> bool" where
  "long_range v \<longleftrightarrow> LONG_MIN \<le> v \<and> v \<le> LONG_MAX"

lemma to_s64_id: "long_range v \<Longrightarrow> to_s64 v = v"
  by (simp add: long_range_def limits signed_take_bit_int_eq_self)

lemma to_u64_id: "0 \<le> v \<Longrightarrow> v \<le> ULONG_MAX \<Longrightarrow> to_u64 v = v"
  by (simp add: limits take_bit_int_eq_self)

section \<open>Significant bits\<close>

fun nbits :: "nat \<Rightarrow> nat" where
  "nbits n = (if n = 0 then 0 else Suc (nbits (n div 2)))"

declare nbits.simps [simp del]

lemma nbits_0 [simp]: "nbits 0 = 0"
  by (simp add: nbits.simps)

lemma nbits_pos: "0 < n \<Longrightarrow> nbits n = Suc (nbits (n div 2))"
  by (simp add: nbits.simps)

lemma nbits_le_iff: "nbits n \<le> k \<longleftrightarrow> n < 2 ^ k"
proof (induction k arbitrary: n)
  case 0
  then show ?case by (cases "n = 0") (simp_all add: nbits_pos)
next
  case (Suc k)
  show ?case
  proof (cases "n = 0")
    case False
    then have "nbits n \<le> Suc k \<longleftrightarrow> n div 2 < 2 ^ k"
      using Suc.IH by (simp add: nbits_pos)
    also have "\<dots> \<longleftrightarrow> n < 2 ^ Suc k" by auto
    finally show ?thesis .
  qed simp
qed

lemma nbits_less_iff: "k < nbits n \<longleftrightarrow> 2 ^ k \<le> n"
  by (meson nbits_le_iff not_less)

lemma nbits_bounds: "0 < n \<Longrightarrow> 2 ^ (nbits n - 1) \<le> n \<and> n < 2 ^ nbits n"
  using nbits_le_iff [of n "nbits n"] nbits_less_iff [of "nbits n - 1" n]
  by (simp add: nbits_pos)

section \<open>Positional values\<close>

text \<open>
  \<open>le_val b ds\<close> is the value of the digits \<open>ds\<close> in base \<open>b\<close>, least significant digit
  first; \<open>be_val\<close> reads them most significant digit first.
\<close>

primrec le_val :: "int \<Rightarrow> int list \<Rightarrow> int" where
  "le_val b [] = 0"
| "le_val b (d # ds) = d + b * le_val b ds"

definition be_val :: "int \<Rightarrow> int list \<Rightarrow> int" where
  "be_val b ds = foldl (\<lambda>v d. v * b + d) 0 ds"

lemma le_val_append: "le_val b (xs @ ys) = le_val b xs + b ^ length xs * le_val b ys"
  by (induction xs) (simp_all add: algebra_simps)

lemma be_val_snoc: "be_val b (xs @ [d]) = be_val b xs * b + d"
  by (simp add: be_val_def)

lemma be_val_rev: "be_val b ds = le_val b (rev ds)"
  by (induction ds rule: rev_induct) (simp_all add: be_val_snoc be_val_def algebra_simps)

lemma le_val_bounds:
  "2 \<le> b \<Longrightarrow> \<forall>d\<in>set ds. 0 \<le> d \<and> d < b \<Longrightarrow> 0 \<le> le_val b ds \<and> le_val b ds < b ^ length ds"
proof (induction ds)
  case (Cons d ds)
  then have IH: "0 \<le> le_val b ds" "le_val b ds < b ^ length ds" and d: "0 \<le> d" "d < b"
    by auto
  from IH(2) have "le_val b ds + 1 \<le> b ^ length ds" by simp
  then have "b * (le_val b ds + 1) \<le> b * b ^ length ds"
    using Cons.prems(1) by (intro mult_left_mono) auto
  then show ?case using IH d Cons.prems(1) by (auto simp: algebra_simps)
qed simp

lemma be_val_bounds:
  "2 \<le> b \<Longrightarrow> \<forall>d\<in>set ds. 0 \<le> d \<and> d < b \<Longrightarrow> 0 \<le> be_val b ds \<and> be_val b ds < b ^ length ds"
  using le_val_bounds [of b "rev ds"] by (simp add: be_val_rev)

end
