(* ===== verification/Operator.thy ===== *)
theory Operator
  imports Prelude
begin

text \<open>
  The expression operators of \<^verbatim>\<open>include/yasmx/Op.h\<close> and their classification in
  \<^verbatim>\<open>lib/yasmx/Op.cpp\<close>.  Constructors carry the enumeration's names behind \<open>Op_\<close>, in
  the enumeration's order: the code compares operators by that order
  (\<^verbatim>\<open>op < Op::NEG\<close>, \<^verbatim>\<open>op >= Op::NONNUM\<close>), which is the linear order instantiated
  below.
\<close>

datatype Op =
    Op_IDENT | Op_ADD | Op_SUB | Op_MUL | Op_DIV | Op_SIGNDIV | Op_MOD | Op_SIGNMOD
  | Op_NEG | Op_NOT | Op_OR | Op_AND | Op_XOR | Op_XNOR | Op_NOR | Op_SHL | Op_SHR
  | Op_LOR | Op_LAND | Op_LNOT | Op_LXOR | Op_LXNOR | Op_LNOR
  | Op_LT | Op_GT | Op_EQ | Op_LE | Op_GE | Op_NE
  | Op_NONNUM | Op_COND | Op_SEG | Op_WRT | Op_SEGOFF

fun op_index :: "Op \<Rightarrow> nat" where
  "op_index Op_IDENT = 0" | "op_index Op_ADD = 1" | "op_index Op_SUB = 2"
| "op_index Op_MUL = 3" | "op_index Op_DIV = 4" | "op_index Op_SIGNDIV = 5"
| "op_index Op_MOD = 6" | "op_index Op_SIGNMOD = 7" | "op_index Op_NEG = 8"
| "op_index Op_NOT = 9" | "op_index Op_OR = 10" | "op_index Op_AND = 11"
| "op_index Op_XOR = 12" | "op_index Op_XNOR = 13" | "op_index Op_NOR = 14"
| "op_index Op_SHL = 15" | "op_index Op_SHR = 16" | "op_index Op_LOR = 17"
| "op_index Op_LAND = 18" | "op_index Op_LNOT = 19" | "op_index Op_LXOR = 20"
| "op_index Op_LXNOR = 21" | "op_index Op_LNOR = 22" | "op_index Op_LT = 23"
| "op_index Op_GT = 24" | "op_index Op_EQ = 25" | "op_index Op_LE = 26"
| "op_index Op_GE = 27" | "op_index Op_NE = 28" | "op_index Op_NONNUM = 29"
| "op_index Op_COND = 30" | "op_index Op_SEG = 31" | "op_index Op_WRT = 32"
| "op_index Op_SEGOFF = 33"

lemma op_index_inject: "op_index a = op_index b \<Longrightarrow> a = b"
  by (cases a; cases b) simp_all

instantiation Op :: linorder
begin

definition less_eq_Op :: "Op \<Rightarrow> Op \<Rightarrow> bool" where
  "less_eq_Op a b \<longleftrightarrow> op_index a \<le> op_index b"

definition less_Op :: "Op \<Rightarrow> Op \<Rightarrow> bool" where
  "less_Op a b \<longleftrightarrow> op_index a < op_index b"

instance
  by standard (auto simp: less_eq_Op_def less_Op_def intro: op_index_inject)

end

definition isUnary :: "Op \<Rightarrow> bool" where
  "isUnary oper =
     (case oper of
        Op_IDENT \<Rightarrow> True
      | Op_NEG \<Rightarrow> True
      | Op_NOT \<Rightarrow> True
      | Op_LNOT \<Rightarrow> True
      | Op_SEG \<Rightarrow> True
      | _ \<Rightarrow> False)"

definition isCommutative :: "Op \<Rightarrow> bool" where
  "isCommutative oper =
     (case oper of
        Op_ADD \<Rightarrow> True
      | Op_MUL \<Rightarrow> True
      | Op_OR \<Rightarrow> True
      | Op_AND \<Rightarrow> True
      | Op_XOR \<Rightarrow> True
      | Op_XNOR \<Rightarrow> True
      | Op_NOR \<Rightarrow> True
      | Op_LOR \<Rightarrow> True
      | Op_LAND \<Rightarrow> True
      | Op_LXOR \<Rightarrow> True
      | Op_LXNOR \<Rightarrow> True
      | Op_LNOR \<Rightarrow> True
      | _ \<Rightarrow> False)"

definition isAssociative :: "Op \<Rightarrow> bool" where
  "isAssociative oper =
     (case oper of
        Op_ADD \<Rightarrow> True
      | Op_MUL \<Rightarrow> True
      | Op_OR \<Rightarrow> True
      | Op_AND \<Rightarrow> True
      | Op_XOR \<Rightarrow> True
      | Op_XNOR \<Rightarrow> True
      | Op_LOR \<Rightarrow> True
      | Op_LAND \<Rightarrow> True
      | Op_LXOR \<Rightarrow> True
      | Op_LXNOR \<Rightarrow> True
      | Op_COND \<Rightarrow> True
      | _ \<Rightarrow> False)"

lemma numeric_op_cases:
  "oper < Op_NONNUM \<longleftrightarrow> oper \<notin> {Op_NONNUM, Op_COND, Op_SEG, Op_WRT, Op_SEGOFF}"
  by (cases oper) (simp_all add: less_Op_def)

end
