(* ===== verification/IntNum.thy ===== *)
theory IntNum
  imports Operator
begin

text \<open>
  \<^verbatim>\<open>lib/yasmx/IntNum.cpp\<close>: the assembler's integers.  An \<open>IntNum\<close> is a small value (a
  64-bit \<^verbatim>\<open>long long\<close>) or a 256-bit \<^verbatim>\<open>llvm::APInt\<close>; the bit vector is a \<^typ>\<open>256 word\<close>,
  and an \<^verbatim>\<open>APInt\<close> of another width enters \<open>setBV\<close> through its signed value.
  \<open>intnum_val\<close> is the integer a representation stands for and \<open>wf_IntNum\<close> its range
  invariant.
\<close>

type_synonym bitvect = "256 word"

datatype IntNum = SV int | BV bitvect

definition SV_BITS :: nat where [limits]: "SV_BITS = 63"
definition SV_MAX :: int where [limits]: "SV_MAX = 9223372036854775807"
definition SV_MIN :: int where [limits]: "SV_MIN = - 9223372036854775808"
definition BITVECT_NATIVE_SIZE :: nat where [limits]: "BITVECT_NATIVE_SIZE = 256"
definition ULONG_BITS :: nat where [limits]: "ULONG_BITS = 64"

definition sv_range :: "int \<Rightarrow> bool" where
  "sv_range v \<longleftrightarrow> SV_MIN \<le> v \<and> v \<le> SV_MAX"

fun wf_IntNum :: "IntNum \<Rightarrow> bool" where
  "wf_IntNum (SV v) = sv_range v"
| "wf_IntNum (BV w) = True"

fun intnum_val :: "IntNum \<Rightarrow> int" where
  "intnum_val (SV v) = v"
| "intnum_val (BV w) = sint w"

section \<open>Bit vectors\<close>

text \<open>
  The operations of \<^verbatim>\<open>llvm::APInt\<close> the file uses that are not word operations of the
  library: the active bits, the minimal signed width, and the truncating signed quotient
  and remainder, which \<^verbatim>\<open>APInt.h\<close> reduces to unsigned division.  Shifts assert that the
  count does not exceed the width.
\<close>

definition getActiveBits :: "bitvect \<Rightarrow> nat" where
  "getActiveBits w = nbits (unat w)"

definition min_signed_bits :: "int \<Rightarrow> nat" where
  "min_signed_bits x = (if x < 0 then nbits (nat (NOT x)) + 1 else nbits (nat x) + 1)"

definition getMinSignedBits :: "bitvect \<Rightarrow> nat" where
  "getMinSignedBits w = min_signed_bits (sint w)"

definition isNegative :: "bitvect \<Rightarrow> bool" where
  "isNegative w \<longleftrightarrow> sint w < 0"

definition apint_sdiv :: "bitvect \<Rightarrow> bitvect \<Rightarrow> bitvect" where
  "apint_sdiv a b =
     (if isNegative a then (if isNegative b then (- a) div (- b) else - ((- a) div b))
      else if isNegative b then - (a div (- b))
      else a div b)"

definition apint_srem :: "bitvect \<Rightarrow> bitvect \<Rightarrow> bitvect" where
  "apint_srem a b =
     (if isNegative a then (if isNegative b then - ((- a) mod (- b)) else - ((- a) mod b))
      else if isNegative b then a mod (- b)
      else a mod b)"

text \<open>The shift count is an \<^verbatim>\<open>unsigned int\<close>; a larger argument is truncated on the way in.\<close>

definition apint_shl :: "bitvect \<Rightarrow> int \<Rightarrow> bitvect outcome" where
  "apint_shl w amt =
     (let n = nat (to_u32 amt) in if n \<le> 256 then Ret (push_bit n w) else Undefined)"

definition apint_ashr :: "bitvect \<Rightarrow> int \<Rightarrow> bitvect outcome" where
  "apint_ashr w amt =
     (let n = nat (to_u32 amt) in if n \<le> 256 then Ret (signed_drop_bit n w) else Undefined)"

section \<open>Representation\<close>

fun getBV :: "IntNum \<Rightarrow> bitvect" where
  "getBV (BV w) = w"
| "getBV (SV v) = (if v \<ge> 0 then word_of_int v else NOT (word_of_int (NOT v)))"

definition setBV :: "int \<Rightarrow> IntNum" where
  "setBV x = (if min_signed_bits x \<le> SV_BITS then SV x else BV (word_of_int x))"

definition set_s :: "int \<Rightarrow> IntNum" where
  "set_s v = SV v"

definition set_u :: "int \<Rightarrow> IntNum" where
  "set_u v = (if v > SV_MAX then BV (word_of_int v) else SV v)"

section \<open>Calculation\<close>

text \<open>
  \<open>CalcSmallValue\<close> returns whether it handled the operation together with the new left
  operand; \<open>b2i\<close> is C++'s conversion of a truth value.
\<close>

definition b2i :: "bool \<Rightarrow> int" where
  "b2i b = (if b then 1 else 0)"

definition CalcSmallValue :: "Op \<Rightarrow> int \<Rightarrow> int \<Rightarrow> (bool \<times> int) outcome" where
  "CalcSmallValue oper lhs rhs =
     (let handled = (\<lambda>v. Ret (True, v)); fall_back = Ret (False, lhs) in
      case oper of
        Op_ADD \<Rightarrow>
          if lhs \<ge> SV_MAX sdiv 2 \<or> lhs \<le> SV_MIN sdiv 2 \<or>
             rhs \<ge> SV_MAX sdiv 2 \<or> rhs \<le> SV_MIN sdiv 2
          then fall_back else handled (lhs + rhs)
      | Op_SUB \<Rightarrow>
          if lhs \<ge> SV_MAX sdiv 2 \<or> lhs \<le> SV_MIN sdiv 2 \<or>
             rhs \<ge> SV_MAX sdiv 2 \<or> rhs \<le> SV_MIN sdiv 2
          then fall_back else handled (lhs - rhs)
      | Op_MUL \<Rightarrow>
          (let minmax = push_bit (SV_BITS div 2) 1 in
           if lhs > - minmax \<and> lhs < minmax
           then if rhs \<le> - minmax \<or> rhs \<ge> minmax then fall_back else handled (lhs * rhs)
           else fall_back)
      | Op_DIV \<Rightarrow>
          if rhs = 0 then Fail err_divide_by_zero
          else if lhs = SV_MIN \<and> rhs = -1 then Undefined else handled (lhs sdiv rhs)
      | Op_SIGNDIV \<Rightarrow>
          if rhs = 0 then Fail err_divide_by_zero
          else if lhs = SV_MIN \<and> rhs = -1 then Undefined else handled (lhs sdiv rhs)
      | Op_MOD \<Rightarrow>
          if rhs = 0 then Fail err_divide_by_zero
          else if lhs = SV_MIN \<and> rhs = -1 then Undefined else handled (lhs smod rhs)
      | Op_SIGNMOD \<Rightarrow>
          if rhs = 0 then Fail err_divide_by_zero
          else if lhs = SV_MIN \<and> rhs = -1 then Undefined else handled (lhs smod rhs)
      | Op_NEG \<Rightarrow> if lhs = SV_MIN then Undefined else handled (- lhs)
      | Op_NOT \<Rightarrow> handled (NOT lhs)
      | Op_OR \<Rightarrow> handled (lhs OR rhs)
      | Op_AND \<Rightarrow> handled (lhs AND rhs)
      | Op_XOR \<Rightarrow> handled (lhs XOR rhs)
      | Op_XNOR \<Rightarrow> handled (NOT (lhs XOR rhs))
      | Op_NOR \<Rightarrow> handled (NOT (lhs OR rhs))
      | Op_SHL \<Rightarrow> fall_back
      | Op_SHR \<Rightarrow>
          if 0 \<le> rhs \<and> rhs < 64 then handled (drop_bit (nat rhs) lhs) else Undefined
      | Op_LOR \<Rightarrow> handled (b2i (lhs \<noteq> 0 \<or> rhs \<noteq> 0))
      | Op_LAND \<Rightarrow> handled (b2i (lhs \<noteq> 0 \<and> rhs \<noteq> 0))
      | Op_LNOT \<Rightarrow> handled (b2i (lhs = 0))
      | Op_LXOR \<Rightarrow> handled (b2i ((lhs \<noteq> 0) \<noteq> (rhs \<noteq> 0)))
      | Op_LXNOR \<Rightarrow> handled (b2i (\<not> ((lhs \<noteq> 0) \<noteq> (rhs \<noteq> 0))))
      | Op_LNOR \<Rightarrow> handled (b2i (\<not> (lhs \<noteq> 0 \<or> rhs \<noteq> 0)))
      | Op_EQ \<Rightarrow> handled (b2i (lhs = rhs))
      | Op_LT \<Rightarrow> handled (b2i (lhs < rhs))
      | Op_GT \<Rightarrow> handled (b2i (lhs > rhs))
      | Op_LE \<Rightarrow> handled (b2i (lhs \<le> rhs))
      | Op_GE \<Rightarrow> handled (b2i (lhs \<ge> rhs))
      | Op_NE \<Rightarrow> handled (b2i (lhs \<noteq> rhs))
      | Op_IDENT \<Rightarrow> handled lhs
      | _ \<Rightarrow> fall_back)"

text \<open>
  The bit-vector part of \<open>CalcImpl\<close>.  \<open>operand\<close> is the right operand's representation
  (a null pointer for the unary operators, \<open>None\<close>), \<open>op2\<close> its bit vector.
\<close>

definition CalcBV :: "Op \<Rightarrow> bitvect \<Rightarrow> bitvect \<Rightarrow> IntNum option \<Rightarrow> IntNum outcome" where
  "CalcBV oper op1 op2 operand =
     (let result = (\<lambda>w. Ret (setBV (sint w)));
          truth = (\<lambda>b. Ret (set_s (b2i b))) in
      case oper of
        Op_ADD \<Rightarrow> result (op1 + op2)
      | Op_SUB \<Rightarrow> result (op1 - op2)
      | Op_MUL \<Rightarrow> result (op1 * op2)
      | Op_DIV \<Rightarrow> if op2 = 0 then Fail err_divide_by_zero else result (op1 div op2)
      | Op_SIGNDIV \<Rightarrow> if op2 = 0 then Fail err_divide_by_zero else result (apint_sdiv op1 op2)
      | Op_MOD \<Rightarrow> if op2 = 0 then Fail err_divide_by_zero else result (op1 mod op2)
      | Op_SIGNMOD \<Rightarrow> if op2 = 0 then Fail err_divide_by_zero else result (apint_srem op1 op2)
      | Op_NEG \<Rightarrow> result (- op1)
      | Op_NOT \<Rightarrow> result (NOT op1)
      | Op_OR \<Rightarrow> result (op1 OR op2)
      | Op_AND \<Rightarrow> result (op1 AND op2)
      | Op_XOR \<Rightarrow> result (op1 XOR op2)
      | Op_XNOR \<Rightarrow> result (NOT (op1 XOR op2))
      | Op_NOR \<Rightarrow> result (NOT (op1 OR op2))
      | Op_SHL \<Rightarrow>
          (case operand of
             Some (SV s) \<Rightarrow>
               if s \<ge> 0 then bind_out (apint_shl op1 s) result
               else if s = SV_MIN then Undefined else bind_out (apint_ashr op1 (- s)) result
           | _ \<Rightarrow> result 0)
      | Op_SHR \<Rightarrow>
          (case operand of
             Some (SV s) \<Rightarrow>
               if s \<ge> 0 then bind_out (apint_ashr op1 s) result
               else if s = SV_MIN then Undefined else bind_out (apint_shl op1 (- s)) result
           | _ \<Rightarrow> result 0)
      | Op_LOR \<Rightarrow> truth (op1 \<noteq> 0 \<or> op2 \<noteq> 0)
      | Op_LAND \<Rightarrow> truth (op1 \<noteq> 0 \<and> op2 \<noteq> 0)
      | Op_LNOT \<Rightarrow> truth (op1 = 0)
      | Op_LXOR \<Rightarrow> truth ((op1 \<noteq> 0) \<noteq> (op2 \<noteq> 0))
      | Op_LXNOR \<Rightarrow> truth (\<not> ((op1 \<noteq> 0) \<noteq> (op2 \<noteq> 0)))
      | Op_LNOR \<Rightarrow> truth (\<not> (op1 \<noteq> 0 \<or> op2 \<noteq> 0))
      | Op_EQ \<Rightarrow> truth (op1 = op2)
      | Op_LT \<Rightarrow> truth (sint op1 < sint op2)
      | Op_GT \<Rightarrow> truth (sint op1 > sint op2)
      | Op_LE \<Rightarrow> truth (sint op1 \<le> sint op2)
      | Op_GE \<Rightarrow> truth (sint op1 \<ge> sint op2)
      | Op_NE \<Rightarrow> truth (op1 \<noteq> op2)
      | Op_SEG \<Rightarrow> Fail (err_invalid_op_use ''SEG'')
      | Op_WRT \<Rightarrow> Fail (err_invalid_op_use ''WRT'')
      | Op_SEGOFF \<Rightarrow> Fail (err_invalid_op_use '':'')
      | Op_IDENT \<Rightarrow> result op1
      | Op_NONNUM \<Rightarrow> Fail err_int_invalid_op
      | Op_COND \<Rightarrow> Fail err_int_invalid_op)"

definition CalcImpl :: "Op \<Rightarrow> IntNum \<Rightarrow> IntNum option \<Rightarrow> IntNum outcome" where
  "CalcImpl oper acc operand =
     (if operand = None \<and> oper \<notin> {Op_NEG, Op_NOT, Op_LNOT} then Undefined
      else
        let bv = CalcBV oper (getBV acc)
                   (case operand of None \<Rightarrow> 0 | Some y \<Rightarrow> getBV y) operand;
            small = (\<lambda>lhs rhs. bind_out (CalcSmallValue oper lhs rhs)
                       (\<lambda>(handled, v). if handled then Ret (SV v) else bv)) in
        case (acc, operand) of
          (SV lhs, None) \<Rightarrow> small lhs 0
        | (SV lhs, Some (SV rhs)) \<Rightarrow> small lhs rhs
        | _ \<Rightarrow> bv)"

text \<open>The public entry points: \<open>Calc\<close> reports to an engine, \<open>CalcAssert\<close> has none.\<close>

definition Calc :: "Op \<Rightarrow> IntNum \<Rightarrow> IntNum \<Rightarrow> IntNum outcome" where
  "Calc oper acc operand = CalcImpl oper acc (Some operand)"

definition Calc1 :: "Op \<Rightarrow> IntNum \<Rightarrow> IntNum outcome" where
  "Calc1 oper acc = CalcImpl oper acc None"

definition CalcAssert :: "Op \<Rightarrow> IntNum \<Rightarrow> IntNum option \<Rightarrow> IntNum outcome" where
  "CalcAssert oper acc operand =
     (case CalcImpl oper acc operand of Ret r \<Rightarrow> Ret r | _ \<Rightarrow> Undefined)"

section \<open>Queries and conversions\<close>

text \<open>
  \<open>SignExtend\<close> works in place: on a bit vector it truncates and extends the very vector
  the number owns and hands a reference to it to \<open>setBV\<close>, which deletes the vector
  before reading it when the value turns out to fit a small value.
\<close>

definition SignExtend :: "IntNum \<Rightarrow> nat \<Rightarrow> IntNum outcome" where
  "SignExtend x sz =
     (if 0 < sz \<and> sz < BITVECT_NATIVE_SIZE then
        let ext = signed_take_bit (sz - 1) (uint (getBV x)) in
        case x of
          SV v \<Rightarrow> Ret (setBV ext)
        | BV w \<Rightarrow> if min_signed_bits ext \<le> SV_BITS then Undefined else Ret (setBV ext)
      else Undefined)"

definition isZero :: "IntNum \<Rightarrow> bool" where
  "isZero x = (x = SV 0)"

definition isPos1 :: "IntNum \<Rightarrow> bool" where
  "isPos1 x = (x = SV 1)"

definition isNeg1 :: "IntNum \<Rightarrow> bool" where
  "isNeg1 x = (x = SV (-1))"

fun getSign :: "IntNum \<Rightarrow> int" where
  "getSign (SV v) = (if v = 0 then 0 else if v < 0 then -1 else 1)"
| "getSign (BV w) = (if isNegative w then -1 else 1)"

fun getUInt :: "IntNum \<Rightarrow> int" where
  "getUInt (SV v) = (if v < 0 then 0 else v)"
| "getUInt (BV w) =
     (if isNegative w then 0
      else if getActiveBits w > ULONG_BITS then ULONG_MAX
      else uint w)"

fun getInt :: "IntNum \<Rightarrow> int" where
  "getInt (SV v) = (if v < LONG_MIN then LONG_MIN else if v > LONG_MAX then LONG_MAX else v)"
| "getInt (BV w) = (if isNegative w then LONG_MIN else LONG_MAX)"

fun isInt :: "IntNum \<Rightarrow> bool" where
  "isInt (SV v) = (v \<ge> LONG_MIN \<and> v \<le> LONG_MAX)"
| "isInt (BV w) = False"

text \<open>
  The free function on a bit vector compares its width with \<^verbatim>\<open>size-rshift\<close>, an unsigned
  32-bit difference; the member function shifts a small value first.  Any range type but
  0, 1 and 2 fails an assertion, and so does C++ for a shift count out of range.
\<close>

definition isOkSize_bv :: "bitvect \<Rightarrow> nat \<Rightarrow> nat \<Rightarrow> int \<Rightarrow> bool outcome" where
  "isOkSize_bv w sz rshift rangetype =
     (let room = nat (to_u32 (int sz - int rshift));
          fits = (\<lambda>intn_size. Ret (intn_size \<le> room)) in
      if rangetype = 0 then fits (getActiveBits w)
      else if rangetype = 1 then fits (getMinSignedBits w)
      else if rangetype = 2
      then fits (if isNegative w then getMinSignedBits w else getActiveBits w)
      else Undefined)"

definition okSize_negative :: "int \<Rightarrow> nat \<Rightarrow> bool outcome" where
  "okSize_negative v sz =
     (if sz \<ge> SV_BITS + 1 then Ret True
      else if v = SV_MIN then Ret (sz \<ge> SV_BITS)
      else if sz = 0 then Undefined
      else Ret (0 - v \<le> push_bit (sz - 1) 1))"

fun isOkSize :: "IntNum \<Rightarrow> nat \<Rightarrow> nat \<Rightarrow> int \<Rightarrow> bool outcome" where
  "isOkSize (SV sv) sz rshift rangetype =
     (if rshift \<ge> 64 then Undefined
      else
        let v = drop_bit rshift sv in
        if rangetype = 0 then
          if v < 0 then Ret False
          else if sz \<ge> SV_BITS then Ret True
          else Ret (v < push_bit sz 1)
        else if rangetype = 1 then
          if v < 0 then okSize_negative v sz
          else if sz \<ge> SV_BITS + 1 then Ret True
          else if sz = 0 then Undefined
          else Ret (v < push_bit (sz - 1) 1)
        else if rangetype = 2 then
          if v < 0 then okSize_negative v sz
          else if sz \<ge> SV_BITS then Ret True
          else Ret (v < push_bit sz 1)
        else Undefined)"
| "isOkSize (BV w) sz rshift rangetype = isOkSize_bv w sz rshift rangetype"

fun isInRange :: "IntNum \<Rightarrow> int \<Rightarrow> int \<Rightarrow> bool" where
  "isInRange (SV v) low high = (v \<ge> low \<and> v \<le> high)"
| "isInRange (BV w) low high = False"

fun increment :: "IntNum \<Rightarrow> IntNum" where
  "increment (SV v) = (if v < SV_MAX then SV (v + 1) else BV (getBV (SV v) + 1))"
| "increment (BV w) = BV (w + 1)"

fun decrement :: "IntNum \<Rightarrow> IntNum" where
  "decrement (SV v) = (if v > SV_MIN then SV (v - 1) else BV (getBV (SV v) - 1))"
| "decrement (BV w) = BV (w - 1)"

definition Compare :: "IntNum \<Rightarrow> IntNum \<Rightarrow> int" where
  "Compare lhs rhs =
     (case (lhs, rhs) of
        (SV a, SV b) \<Rightarrow> if a < b then -1 else if a > b then 1 else 0
      | _ \<Rightarrow>
          let op1 = getBV lhs; op2 = getBV rhs in
          if sint op1 < sint op2 then -1 else if sint op1 > sint op2 then 1 else 0)"

definition intnum_eq :: "IntNum \<Rightarrow> IntNum \<Rightarrow> bool" where
  "intnum_eq lhs rhs =
     (case (lhs, rhs) of (SV a, SV b) \<Rightarrow> a = b | _ \<Rightarrow> getBV lhs = getBV rhs)"

definition intnum_less :: "IntNum \<Rightarrow> IntNum \<Rightarrow> bool" where
  "intnum_less lhs rhs =
     (case (lhs, rhs) of (SV a, SV b) \<Rightarrow> a < b | _ \<Rightarrow> sint (getBV lhs) < sint (getBV rhs))"

definition intnum_greater :: "IntNum \<Rightarrow> IntNum \<Rightarrow> bool" where
  "intnum_greater lhs rhs =
     (case (lhs, rhs) of (SV a, SV b) \<Rightarrow> a > b | _ \<Rightarrow> sint (getBV lhs) > sint (getBV rhs))"

text \<open>
  \<open>Extract\<close> of a bit vector is \<^verbatim>\<open>APInt::tcExtract\<close> into one 64-bit part: it reads the part
  that holds bit \<open>lsb\<close> and, when the field crosses a part boundary, the next one; the
  vector has four parts.
\<close>

definition tcExtract :: "bitvect \<Rightarrow> nat \<Rightarrow> nat \<Rightarrow> int outcome" where
  "tcExtract w width lsb =
     (if width > 64 then Undefined
      else if width = 0 then Ret 0
      else
        let firstSrcPart = lsb div 64; n = 64 - lsb mod 64 in
        if firstSrcPart \<ge> 4 \<or> (n < width \<and> firstSrcPart + 1 \<ge> 4) then Undefined
        else Ret (take_bit width (drop_bit lsb (uint w))))"

fun Extract :: "IntNum \<Rightarrow> nat \<Rightarrow> nat \<Rightarrow> int outcome" where
  "Extract (SV v) width lsb =
     (if width > ULONG_BITS \<or> lsb \<ge> 64 then Undefined
      else Ret (let rv = to_u64 (drop_bit lsb v) in
                if width < ULONG_BITS then take_bit width rv else rv))"
| "Extract (BV w) width lsb =
     (if width > ULONG_BITS then Undefined else tcExtract w width lsb)"

end
