(* ===== verification/IntNum_Calc.thy ===== *)
theory IntNum_Calc
  imports IntNum
begin

text \<open>
  What \<^verbatim>\<open>IntNum::Calc\<close> computes.  \<open>calc_spec\<close> is the reference semantics of the operators
  on unbounded integers, reduced to the signed 256-bit range where the operation can leave
  it; the two code paths of \<open>CalcImpl\<close> (the shortcut on small values and the bit-vector
  path) are shown to agree with it, and with each other, whatever representation the
  operands happen to have.  The second half treats comparison, the size tests, increment
  and decrement, the conversions to machine integers and bit-field extraction.
\<close>

unbundle bit_operations_syntax

section \<open>Reference semantics\<close>

text \<open>\<open>wrap256\<close> reads the low 256 bits of an integer as a signed number.\<close>

definition wrap256 :: "int \<Rightarrow> int" where
  "wrap256 x = signed_take_bit 255 x"

definition bv_range :: "int \<Rightarrow> bool" where
  "bv_range x \<longleftrightarrow> - (2 ^ 255) \<le> x \<and> x < 2 ^ 255"

text \<open>
  The shift to the right is documented as logical: it shifts the 256 bits of the operand and fills
  with zeros.
\<close>

definition lsr256 :: "nat \<Rightarrow> int \<Rightarrow> int" where
  "lsr256 n a = wrap256 (drop_bit n (take_bit 256 a))"

definition calc_spec :: "Op \<Rightarrow> int \<Rightarrow> int \<Rightarrow> int" where
  "calc_spec oper a b =
     (case oper of
        Op_IDENT \<Rightarrow> a
      | Op_ADD \<Rightarrow> wrap256 (a + b)
      | Op_SUB \<Rightarrow> wrap256 (a - b)
      | Op_MUL \<Rightarrow> wrap256 (a * b)
      | Op_DIV \<Rightarrow> wrap256 (take_bit 256 a div take_bit 256 b)
      | Op_SIGNDIV \<Rightarrow> wrap256 (a sdiv b)
      | Op_MOD \<Rightarrow> wrap256 (take_bit 256 a mod take_bit 256 b)
      | Op_SIGNMOD \<Rightarrow> a smod b
      | Op_NEG \<Rightarrow> wrap256 (- a)
      | Op_NOT \<Rightarrow> NOT a
      | Op_OR \<Rightarrow> a OR b
      | Op_AND \<Rightarrow> a AND b
      | Op_XOR \<Rightarrow> a XOR b
      | Op_XNOR \<Rightarrow> NOT (a XOR b)
      | Op_NOR \<Rightarrow> NOT (a OR b)
      | Op_SHL \<Rightarrow> if b \<ge> 0 then wrap256 (push_bit (nat b) a) else lsr256 (nat (- b)) a
      | Op_SHR \<Rightarrow> if b \<ge> 0 then lsr256 (nat b) a else wrap256 (push_bit (nat (- b)) a)
      | Op_LOR \<Rightarrow> b2i (a \<noteq> 0 \<or> b \<noteq> 0)
      | Op_LAND \<Rightarrow> b2i (a \<noteq> 0 \<and> b \<noteq> 0)
      | Op_LNOT \<Rightarrow> b2i (a = 0)
      | Op_LXOR \<Rightarrow> b2i ((a \<noteq> 0) \<noteq> (b \<noteq> 0))
      | Op_LXNOR \<Rightarrow> b2i ((a \<noteq> 0) = (b \<noteq> 0))
      | Op_LNOR \<Rightarrow> b2i (a = 0 \<and> b = 0)
      | Op_LT \<Rightarrow> b2i (a < b)
      | Op_GT \<Rightarrow> b2i (a > b)
      | Op_EQ \<Rightarrow> b2i (a = b)
      | Op_LE \<Rightarrow> b2i (a \<le> b)
      | Op_GE \<Rightarrow> b2i (a \<ge> b)
      | Op_NE \<Rightarrow> b2i (a \<noteq> b)
      | _ \<Rightarrow> a)"

text \<open>
  The operands on which \<open>Calc\<close> is meant to be used: a numeric operator; no zero divisor and
  none of the quotients and negations that overflow a \<^verbatim>\<open>long long\<close>; non-negative operands
  for the unsigned \<open>DIV\<close> and \<open>MOD\<close>; a shift count that is a small value within the vector's
  width and, for a right shift of a small value, within the width of a \<^verbatim>\<open>long long\<close>; a
  non-negative operand for a shift to the right, which a negative count makes of \<open>SHL\<close>.  On negative
  operands the code departs from the documented operators (\<open>Calc_SHR_negative\<close>).
\<close>

definition calc_domain :: "Op \<Rightarrow> IntNum \<Rightarrow> IntNum \<Rightarrow> bool" where
  "calc_domain oper x y \<longleftrightarrow>
     (let a = intnum_val x; b = intnum_val y in
      oper < Op_NONNUM \<and>
      (oper \<in> {Op_DIV, Op_SIGNDIV, Op_MOD, Op_SIGNMOD} \<longrightarrow> b \<noteq> 0 \<and> \<not> (a = SV_MIN \<and> b = -1)) \<and>
      (oper \<in> {Op_DIV, Op_MOD} \<longrightarrow> 0 \<le> a \<and> 0 \<le> b) \<and>
      (oper = Op_NEG \<longrightarrow> a \<noteq> SV_MIN) \<and>
      (oper \<in> {Op_SHL, Op_SHR} \<longrightarrow> y = SV b \<and> \<bar>b\<bar> \<le> 256) \<and>
      (oper = Op_SHR \<and> x = SV a \<longrightarrow> 0 \<le> b \<and> b < 64) \<and>
      (oper = Op_SHR \<and> 0 \<le> b \<or> oper = Op_SHL \<and> b < 0 \<longrightarrow> 0 \<le> a))"

text \<open>
  Canonical numbers hold a bit vector only when the value needs one.  \<open>int_fits\<close> is what
  the range types of \<open>isOkSize\<close> mean: 0 unsigned, 1 signed, 2 either.
\<close>

definition canonical :: "IntNum \<Rightarrow> bool" where
  "canonical x \<longleftrightarrow> wf_IntNum x \<and> (case x of SV _ \<Rightarrow> True | BV w \<Rightarrow> getMinSignedBits w > SV_BITS)"

definition int_fits :: "int \<Rightarrow> nat \<Rightarrow> int \<Rightarrow> bool" where
  "int_fits rangetype sz v =
     (if rangetype = 0 then 0 \<le> v \<and> v < 2 ^ sz
      else if rangetype = 1 then - (2 ^ (sz - 1)) \<le> v \<and> v < 2 ^ (sz - 1)
      else - (2 ^ (sz - 1)) \<le> v \<and> v < 2 ^ sz)"

section \<open>Values and representations\<close>


lemma wrap256_id [simp]: "bv_range x \<Longrightarrow> wrap256 x = x"
  by (simp add: wrap256_def bv_range_def signed_take_bit_int_eq_self)

lemma bv_range_sint [simp]: "bv_range (sint (w :: bitvect))"
  using sint_ge [of w] sint_lt [of w] by (simp add: bv_range_def)

lemma bv_range_wrap256 [simp]: "bv_range (wrap256 x)"
  using signed_take_bit_int_greater_eq_minus_exp [of 255 x] signed_take_bit_int_less_exp [of 255 x]
  by (simp add: wrap256_def bv_range_def)

lemma sint_bitvect [simp]: "sint (word_of_int x :: bitvect) = wrap256 x"
  by (simp add: wrap256_def sint_sbintrunc')

lemma sv_range_bv_range: "sv_range v \<Longrightarrow> bv_range v"
  by (simp add: sv_range_def bv_range_def limits)

lemma getBV_eq: "getBV x = word_of_int (intnum_val x)"
proof (cases x)
  case (SV v)
  have "NOT (word_of_int (NOT v)) = (word_of_int v :: bitvect)"
    by (metis bit.double_compl of_int_not_eq)
  then show ?thesis by (simp add: SV)
qed simp

lemma bv_range_val: "wf_IntNum x \<Longrightarrow> bv_range (intnum_val x)"
  by (cases x) (simp_all add: sv_range_bv_range)

lemma sint_getBV [simp]: "wf_IntNum x \<Longrightarrow> sint (getBV x) = intnum_val x"
  by (simp add: getBV_eq bv_range_val)

lemma min_signed_bits_le_iff:
  "min_signed_bits x \<le> Suc k \<longleftrightarrow> - (2 ^ k) \<le> x \<and> x < 2 ^ k"
proof (cases "x < 0")
  case True
  then have "min_signed_bits x \<le> Suc k \<longleftrightarrow> nat (- x - 1) < 2 ^ k"
    by (simp add: min_signed_bits_def nbits_le_iff not_int_def)
  also have "\<dots> \<longleftrightarrow> - x - 1 < 2 ^ k"
    using True by (simp add: nat_less_iff)
  also have "\<dots> \<longleftrightarrow> - (2 ^ k) \<le> x \<and> x < 2 ^ k"
    using True by (smt (verit) zero_less_power)
  finally show ?thesis .
next
  case False
  then have "min_signed_bits x \<le> Suc k \<longleftrightarrow> nat x < 2 ^ k"
    by (simp add: min_signed_bits_def nbits_le_iff)
  also have "\<dots> \<longleftrightarrow> x < 2 ^ k" using False by (simp add: nat_less_iff)
  also have "\<dots> \<longleftrightarrow> - (2 ^ k) \<le> x \<and> x < 2 ^ k"
    using False by (smt (verit) zero_less_power)
  finally show ?thesis .
qed

lemma small_bits_iff: "min_signed_bits x \<le> SV_BITS \<longleftrightarrow> - (2 ^ 62) \<le> x \<and> x < 2 ^ 62"
  using min_signed_bits_le_iff [of x 62] by (simp add: SV_BITS_def)

lemma intnum_val_setBV [simp]: "bv_range x \<Longrightarrow> intnum_val (setBV x) = x"
  by (simp add: setBV_def)

lemma wf_setBV [simp]: "wf_IntNum (setBV x)"
  using small_bits_iff [of x] by (simp add: setBV_def sv_range_def limits)

lemma bv_cases:
  "bv_range a \<Longrightarrow> a < 0 \<Longrightarrow> uint (- (word_of_int a :: bitvect)) = - a"
  "bv_range a \<Longrightarrow> \<not> a < 0 \<Longrightarrow> uint (word_of_int a :: bitvect) = a"
proof -
  assume a: "bv_range a" "a < 0"
  have "uint (- (word_of_int a :: bitvect)) = take_bit 256 (- a)"
    unfolding of_int_minus [symmetric] by (simp add: uint_word_of_int_eq del: of_int_minus)
  then show "uint (- (word_of_int a :: bitvect)) = - a"
    using a by (simp add: take_bit_int_eq_self bv_range_def)
next
  assume "bv_range a" "\<not> a < 0"
  then show "uint (word_of_int a :: bitvect) = a"
    by (simp add: take_bit_int_eq_self bv_range_def uint_word_of_int_eq)
qed

lemma bitvect_eqI: "uint (v :: bitvect) = x \<Longrightarrow> v = word_of_int x"
  by auto

lemma apint_sdiv_eq:
  assumes "bv_range a" "bv_range b"
  shows "apint_sdiv (word_of_int a) (word_of_int b) = word_of_int (a sdiv b)"
proof -
  let ?A = "word_of_int a :: bitvect" and ?B = "word_of_int b :: bitvect"
  have *: "u div v = word_of_int (uint u div uint v)" for u v :: bitvect
    by (metis uint_div_distrib word_of_int_uint)
  show ?thesis
    using assms bv_cases [of a] bv_cases [of b]
    by (cases "a < 0"; cases "b < 0")
       (auto simp: apint_sdiv_def isNegative_def * signed_divide_int_def sgn_if)
qed

lemma apint_srem_eq:
  assumes "bv_range a" "bv_range b"
  shows "apint_srem (word_of_int a) (word_of_int b) = word_of_int (a smod b)"
proof -
  have *: "u mod v = word_of_int (uint u mod uint v)" for u v :: bitvect
    by (metis uint_mod_distrib word_of_int_uint)
  show ?thesis
    using assms bv_cases [of a] bv_cases [of b]
    by (cases "a < 0"; cases "b < 0")
       (auto simp: apint_srem_def isNegative_def * signed_modulo_int_def signed_divide_int_def sgn_if minus_mult_div_eq_mod minus_div_mult_eq_mod algebra_simps)
qed

section \<open>The two calculation paths\<close>


lemma sv_range_iff: "sv_range v \<longleftrightarrow> signed_take_bit 63 v = v"
  by (auto simp: sv_range_def limits signed_take_bit_int_eq_self_iff)

lemma sv_range_b2i [simp]: "sv_range (b2i b)"
  by (simp add: sv_range_def b2i_def limits)

lemma signed_take_bit_bitwise:
  fixes a b :: int
  shows "signed_take_bit n (NOT a) = NOT (signed_take_bit n a)"
    and "signed_take_bit n (a AND b) = signed_take_bit n a AND signed_take_bit n b"
    and "signed_take_bit n (a OR b) = signed_take_bit n a OR signed_take_bit n b"
    and "signed_take_bit n (a XOR b) = signed_take_bit n a XOR signed_take_bit n b"
  by (rule bit_eqI; auto simp: bit_signed_take_bit_iff bit_simps)+

lemma sv_range_bits:
  "sv_range a \<Longrightarrow> sv_range (NOT a)"
  "sv_range a \<Longrightarrow> sv_range b \<Longrightarrow> sv_range (a AND b)"
  "sv_range a \<Longrightarrow> sv_range b \<Longrightarrow> sv_range (a OR b)"
  "sv_range a \<Longrightarrow> sv_range b \<Longrightarrow> sv_range (a XOR b)"
  by (simp_all add: sv_range_iff signed_take_bit_bitwise)

lemma div_pow2_between:
  fixes a :: int
  shows "a < 0 \<Longrightarrow> a \<le> a div 2 ^ n \<and> a div 2 ^ n < 0"
    and "\<not> a < 0 \<Longrightarrow> 0 \<le> a div 2 ^ n \<and> a div 2 ^ n \<le> a"
proof -
  assume "a < 0"
  then show "a \<le> a div 2 ^ n \<and> a div 2 ^ n < 0"
    using zdiv_mono2_neg [of a 1 "2 ^ n"] by (simp add: div_neg_pos_less0)
next
  assume "\<not> a < 0"
  then show "0 \<le> a div 2 ^ n \<and> a div 2 ^ n \<le> a"
    using zdiv_mono2 [of a 1 "2 ^ n"] by (simp add: pos_imp_zdiv_nonneg_iff)
qed

lemma sv_range_drop_bit: "sv_range a \<Longrightarrow> sv_range (drop_bit n a)"
  using div_pow2_between [of a n] unfolding drop_bit_eq_div sv_range_def limits by linarith

lemma sv_range_sdiv:
  assumes "sv_range a" "\<not> (a = SV_MIN \<and> b = - 1)"
  shows "sv_range (a sdiv b)"
proof -
  have "a sdiv b \<noteq> - SV_MIN"
  proof (cases "a = SV_MIN")
    case True
    then show ?thesis
      using assms int_sdiv_negated_is_minus1 [of a b] by (simp add: limits)
  next
    case False
    then show ?thesis
      using assms(1) sdiv_int_range [of a b] by (auto simp: sv_range_def limits)
  qed
  then show ?thesis
    using assms(1) sdiv_int_range [of a b] by (auto simp: sv_range_def limits)
qed

lemma sv_range_smod: "sv_range b \<Longrightarrow> b \<noteq> 0 \<Longrightarrow> sv_range (a smod b)"
  using smod_int_range [of b a] by (auto simp: sv_range_def limits)

lemma wrap256_bitwise:
  "wrap256 (NOT a) = NOT (wrap256 a)"
  "wrap256 (a AND b) = wrap256 a AND wrap256 b"
  "wrap256 (a OR b) = wrap256 a OR wrap256 b"
  "wrap256 (a XOR b) = wrap256 a XOR wrap256 b"
  by (simp_all add: wrap256_def signed_take_bit_bitwise)

lemma word_of_int_bitwise:
  "NOT (word_of_int a) = (word_of_int (NOT a) :: bitvect)"
  "word_of_int a AND word_of_int b = (word_of_int (a AND b) :: bitvect)"
  "word_of_int a OR word_of_int b = (word_of_int (a OR b) :: bitvect)"
  "word_of_int a XOR word_of_int b = (word_of_int (a XOR b) :: bitvect)"
  by (simp_all add: of_int_not_eq of_int_and_eq of_int_or_eq of_int_xor_eq)

lemma word_of_int_eq_0: "bv_range a \<Longrightarrow> (word_of_int a :: bitvect) = 0 \<longleftrightarrow> a = 0"
  using sint_bitvect [of a] by (auto simp del: sint_bitvect)

lemma word_of_int_inject: "bv_range a \<Longrightarrow> bv_range b \<Longrightarrow> (word_of_int a :: bitvect) = word_of_int b \<longleftrightarrow> a = b"
  by (metis sint_bitvect wrap256_id)

lemma wrap256_small [simp]: "sv_range v \<Longrightarrow> wrap256 v = v"
  by (simp add: sv_range_bv_range)

lemma half_limits [limits]:
  "SV_MAX sdiv 2 = 4611686018427387903" "SV_MIN sdiv 2 = - 4611686018427387904"
  by (simp_all add: SV_MAX_def SV_MIN_def signed_divide_int_def)

lemma sv_range_sum:
  assumes "\<not> (a \<ge> SV_MAX sdiv 2 \<or> a \<le> SV_MIN sdiv 2 \<or> b \<ge> SV_MAX sdiv 2 \<or> b \<le> SV_MIN sdiv 2)"
  shows "sv_range (a + b)" "sv_range (a - b)"
  using assms by (auto simp: sv_range_def limits)

lemma sv_range_prod:
  assumes "- 2147483648 < a" "a < 2147483648" "- 2147483648 < b" "b < 2147483648"
  shows "sv_range (a * b)"
proof -
  have "\<bar>a\<bar> * \<bar>b\<bar> \<le> 2147483648 * 2147483648"
    using assms by (intro mult_mono) auto
  then have "\<bar>a * b\<bar> \<le> 2147483648 * 2147483648" by (simp add: abs_mult)
  then show ?thesis unfolding sv_range_def limits by linarith
qed

lemma sv_range_neg: "sv_range a \<Longrightarrow> a \<noteq> SV_MIN \<Longrightarrow> sv_range (- a)"
  by (auto simp: sv_range_def limits)

lemma nonneg_take_bit_256: "sv_range a \<Longrightarrow> 0 \<le> a \<Longrightarrow> take_bit 256 a = a"
  by (simp add: sv_range_def limits take_bit_int_eq_self)

lemma nonneg_sdiv_smod:
  fixes a b :: int
  assumes "0 \<le> a" "0 \<le> b"
  shows "a sdiv b = a div b" "a smod b = a mod b"
  using assms by (auto simp: signed_divide_int_def signed_modulo_int_def sgn_if)

lemma bv_range_drop_bit: "bv_range a \<Longrightarrow> bv_range (drop_bit n a)"
  using div_pow2_between [of a n] unfolding drop_bit_eq_div bv_range_def by linarith

lemma lsr256_nonneg: "bv_range a \<Longrightarrow> 0 \<le> a \<Longrightarrow> lsr256 n a = drop_bit n a"
  using bv_range_drop_bit [of a n] by (simp add: lsr256_def take_bit_int_eq_self bv_range_def [of a])

lemma lsr256_0 [simp]: "bv_range a \<Longrightarrow> lsr256 0 a = a"
  by (simp add: lsr256_def wrap256_def signed_take_bit_take_bit) (simp flip: wrap256_def)

lemma lsr256_of_0 [simp]: "lsr256 n 0 = 0"
  by (simp add: lsr256_def wrap256_def)

lemma sv_bv_range: "sv_range a \<Longrightarrow> bv_range a"
  by (simp add: sv_range_def bv_range_def limits)

lemma CalcSmallValue_correct:
  assumes "CalcSmallValue oper a b = Ret (True, v)" "sv_range a" "sv_range b"
    and "oper \<in> {Op_DIV, Op_MOD} \<Longrightarrow> 0 \<le> a \<and> 0 \<le> b" "oper = Op_SHR \<Longrightarrow> 0 \<le> a"
  shows "v = calc_spec oper a b \<and> sv_range v"
proof -
  note range_rules = sv_range_sdiv [of a b] sv_range_smod [of b a] sv_range_sum sv_range_neg
    sv_range_prod sv_range_bits sv_range_drop_bit
  show ?thesis
  proof (cases "oper \<in> {Op_DIV, Op_MOD}")
    case True
    then show ?thesis
      using assms range_rules(1,2)
      by (auto simp: CalcSmallValue_def calc_spec_def nonneg_take_bit_256 nonneg_sdiv_smod
          split: if_splits)
  next
    case False
    then show ?thesis
      using assms range_rules
      by (cases oper)
        (auto simp: CalcSmallValue_def calc_spec_def Let_def SV_BITS_def lsr256_nonneg sv_bv_range split: if_splits)
  qed
qed

lemma word_div_eq: "u div v = (word_of_int (uint u div uint v) :: bitvect)"
  by (metis uint_div_distrib word_of_int_uint)

lemma word_mod_eq: "u mod v = (word_of_int (uint u mod uint v) :: bitvect)"
  by (metis uint_mod_distrib word_of_int_uint)

lemma push_bit_word_of_int: "push_bit n (word_of_int a :: bitvect) = word_of_int (push_bit n a)"
  by (simp add: push_bit_eq_mult)

lemma bv_range_smod:
  assumes "bv_range a"
  shows "bv_range (a smod b)"
proof -
  have "0 \<le> \<bar>a\<bar> mod \<bar>b\<bar> \<and> \<bar>a\<bar> mod \<bar>b\<bar> \<le> \<bar>a\<bar>"
    by (cases "b = 0") (simp_all add: zmod_le_nonneg_dividend)
  then have "(0 \<le> a \<longrightarrow> 0 \<le> a smod b \<and> a smod b \<le> a) \<and> (a < 0 \<longrightarrow> a \<le> a smod b \<and> a smod b \<le> 0)"
    by (auto simp: signed_modulo_int_def sgn_if)
  then show ?thesis using assms unfolding bv_range_def by linarith
qed

lemma bv_range_iff: "bv_range a \<longleftrightarrow> wrap256 a = a"
  by (metis bv_range_wrap256 wrap256_id)

lemma bv_range_bits:
  "bv_range a \<Longrightarrow> bv_range (NOT a)"
  "bv_range a \<Longrightarrow> bv_range b \<Longrightarrow> bv_range (a AND b)"
  "bv_range a \<Longrightarrow> bv_range b \<Longrightarrow> bv_range (a OR b)"
  "bv_range a \<Longrightarrow> bv_range b \<Longrightarrow> bv_range (a XOR b)"
  by (simp_all add: bv_range_iff wrap256_bitwise)

lemma apint_shl_correct:
  assumes "0 \<le> s" "s < 2 ^ 32" "apint_shl (word_of_int a) s = Ret w"
  shows "sint w = wrap256 (push_bit (nat s) a)"
  using assms
  by (auto simp: apint_shl_def Let_def take_bit_int_eq_self push_bit_word_of_int split: if_splits)

lemma apint_ashr_correct:
  assumes "0 \<le> s" "s < 2 ^ 32" "apint_ashr (word_of_int a) s = Ret w" "bv_range a"
  shows "sint w = drop_bit (nat s) a"
  using assms
  by (auto simp: apint_ashr_def Let_def take_bit_int_eq_self sint_signed_drop_bit_eq split: if_splits)

lemma b2i_simps [simp]: "intnum_val (set_s v) = v" "wf_IntNum (set_s v) = sv_range v"
  by (simp_all add: set_s_def)

lemma CalcBV_shift_correct:
  assumes "CalcBV oper (word_of_int a) op2 (Some (SV s)) = Ret r" "bv_range a"
    and "oper \<in> {Op_SHL, Op_SHR}" "\<bar>s\<bar> < 2 ^ 32" "oper = Op_SHR \<and> 0 \<le> s \<or> oper = Op_SHL \<and> s < 0 \<Longrightarrow> 0 \<le> a"
  shows "intnum_val r = calc_spec oper a s \<and> wf_IntNum r"
  using assms
  by (auto simp: CalcBV_def calc_spec_def Let_def bind_out_Ret_iff bv_range_drop_bit lsr256_nonneg
      dest!: apint_shl_correct [rotated 2] apint_ashr_correct [rotated 2] split: if_splits)

lemma CalcBV_correct:
  assumes "CalcBV oper (word_of_int a) (word_of_int b) operand = Ret r" "bv_range a" "bv_range b"
    and "oper \<notin> {Op_SHL, Op_SHR}"
  shows "intnum_val r = calc_spec oper a b \<and> wf_IntNum r"
  using assms
  by (cases oper)
     (auto simp: CalcBV_def calc_spec_def Let_def word_of_int_bitwise wrap256_bitwise word_of_int_eq_0 word_of_int_inject
      apint_sdiv_eq apint_srem_eq word_div_eq word_mod_eq bv_range_smod bv_range_bits uint_word_of_int_eq simp flip: of_int_add of_int_diff of_int_mult of_int_minus
      split: if_splits)

lemma calc_domain_unsigned:
  "calc_domain oper x y \<Longrightarrow> oper \<in> {Op_DIV, Op_MOD} \<Longrightarrow> 0 \<le> intnum_val x \<and> 0 \<le> intnum_val y"
  unfolding calc_domain_def Let_def by blast

lemma calc_domain_shift:
  "calc_domain oper x y \<Longrightarrow> oper = Op_SHR \<and> 0 \<le> intnum_val y \<or> oper = Op_SHL \<and> intnum_val y < 0 \<Longrightarrow> 0 \<le> intnum_val x"
  "calc_domain oper (SV a) y \<Longrightarrow> oper = Op_SHR \<Longrightarrow> 0 \<le> a"
  unfolding calc_domain_def Let_def by simp_all

lemma CalcBV_getBV_correct:
  assumes "CalcBV oper (getBV x) (getBV y) (Some y) = Ret r" "wf_IntNum x" "wf_IntNum y"
    and "calc_domain oper x y"
  shows "intnum_val r = calc_spec oper (intnum_val x) (intnum_val y) \<and> wf_IntNum r"
proof (cases "oper \<in> {Op_SHL, Op_SHR}")
  case True
  then have y: "y = SV (intnum_val y)" "\<bar>intnum_val y\<bar> \<le> 256"
    using assms(4) unfolding calc_domain_def Let_def by blast+
  then obtain s where "y = SV s" "\<bar>s\<bar> < 2 ^ 32" by fastforce
  then show ?thesis
    using CalcBV_shift_correct [of oper "intnum_val x" "getBV y" s r] True assms calc_domain_shift(1) [OF assms(4)]
    by (simp add: getBV_eq bv_range_val)
next
  case False
  then show ?thesis
    using CalcBV_correct [of oper "intnum_val x" "intnum_val y" "Some y" r] assms
    by (simp add: getBV_eq bv_range_val)
qed

lemma Calc_small:
  "Calc oper (SV a) (SV b) =
     bind_out (CalcSmallValue oper a b)
       (\<lambda>(handled, v). if handled then Ret (SV v)
          else CalcBV oper (getBV (SV a)) (getBV (SV b)) (Some (SV b)))"
  by (simp add: Calc_def CalcImpl_def del: getBV.simps)

lemma Calc_big:
  "\<not> (\<exists>a b. x = SV a \<and> y = SV b) \<Longrightarrow> Calc oper x y = CalcBV oper (getBV x) (getBV y) (Some y)"
  by (cases x; cases y) (auto simp: Calc_def CalcImpl_def simp del: getBV.simps)

lemma Calc_cases:
  assumes "Calc oper x y = Ret r"
  obtains (small) a b v where "x = SV a" "y = SV b" "CalcSmallValue oper a b = Ret (True, v)" "r = SV v"
  | (big) "CalcBV oper (getBV x) (getBV y) (Some y) = Ret r"
  using assms Calc_big [of x y oper]
  by (cases "\<exists>a b. x = SV a \<and> y = SV b")
     (auto simp: Calc_small bind_out_Ret_iff split: if_splits simp del: getBV.simps)

lemma Calc_sound:
  assumes "wf_IntNum x" "wf_IntNum y" "calc_domain oper x y" "Calc oper x y = Ret r"
  shows "intnum_val r = calc_spec oper (intnum_val x) (intnum_val y) \<and> wf_IntNum r"
  using assms(4)
proof (cases rule: Calc_cases)
  case (small a b v)
  then show ?thesis
    using assms calc_domain_unsigned [OF assms(3)] calc_domain_shift(2) [of oper a y] CalcSmallValue_correct [of oper a b v] by auto
next
  case big
  then show ?thesis using CalcBV_getBV_correct assms by blast
qed

lemma shift_returns:
  assumes "0 \<le> n" "n \<le> 256"
  shows "\<exists>v. apint_shl w n = Ret v" "\<exists>v. apint_ashr w n = Ret v"
  using assms by (simp_all add: apint_shl_def apint_ashr_def Let_def take_bit_int_eq_self)

lemma CalcBV_shift_returns:
  assumes "oper \<in> {Op_SHL, Op_SHR}" "\<bar>b\<bar> \<le> 256"
  shows "\<exists>r. CalcBV oper op1 op2 (Some (SV b)) = Ret r"
proof -
  have "b \<noteq> SV_MIN" using assms(2) by (auto simp: SV_MIN_def)
  moreover obtain u v where "apint_shl op1 \<bar>b\<bar> = Ret u" "apint_ashr op1 \<bar>b\<bar> = Ret v"
    using assms(2) shift_returns [of "\<bar>b\<bar>" op1] by auto
  ultimately show ?thesis
    using assms(1) by (cases "b \<ge> 0") (auto simp: CalcBV_def)
qed

lemma CalcBV_returns:
  assumes "calc_domain oper x y" "wf_IntNum y"
  shows "\<exists>r. CalcBV oper (getBV x) (getBV y) (Some y) = Ret r"
proof (cases "oper \<in> {Op_SHL, Op_SHR}")
  case True
  then have "y = SV (intnum_val y)" "\<bar>intnum_val y\<bar> \<le> 256"
    using assms(1) unfolding calc_domain_def Let_def by blast+
  then show ?thesis using CalcBV_shift_returns [OF True] by metis
next
  case False
  have "getBV y = 0 \<longleftrightarrow> intnum_val y = 0"
    using assms(2) by (simp add: getBV_eq word_of_int_eq_0 bv_range_val)
  then show ?thesis
    using False assms(1)
    by (cases oper) (auto simp: CalcBV_def Let_def calc_domain_def less_Op_def)
qed

lemma Calc_total:
  assumes "wf_IntNum x" "wf_IntNum y" "calc_domain oper x y"
  shows "\<exists>r. Calc oper x y = Ret r"
proof (cases "\<exists>a b. x = SV a \<and> y = SV b")
  case True
  then obtain a b where xy: "x = SV a" "y = SV b" by blast
  have "\<exists>p. CalcSmallValue oper a b = Ret p"
    using assms(3)
    by (cases oper) (auto simp: xy CalcSmallValue_def Let_def calc_domain_def less_Op_def)
  then show ?thesis
    using CalcBV_returns [OF assms(3,2)] by (auto simp: xy Calc_small simp del: getBV.simps)
next
  case False
  then show ?thesis using CalcBV_returns [OF assms(3,2)] Calc_big by metis
qed

lemma canonical_setBV: "bv_range x \<Longrightarrow> canonical (setBV x)"
  using wf_setBV [of x] by (auto simp: canonical_def setBV_def getMinSignedBits_def)

lemma canonical_setBV_0: "canonical (setBV 0)"
  by (rule canonical_setBV) (simp add: bv_range_def)

lemma canonical_set_s: "sv_range v \<Longrightarrow> canonical (SV v)"
  by (simp add: canonical_def)

lemma CalcBV_canonical: "CalcBV oper u v y = Ret r \<Longrightarrow> canonical r"
  by (cases oper)
    (auto simp: CalcBV_def Let_def bind_out_Ret_iff canonical_setBV canonical_setBV_0
      set_s_def canonical_set_s
      split: if_splits option.splits IntNum.splits)

lemma Calc_canonical:
  assumes "wf_IntNum x" "wf_IntNum y" "calc_domain oper x y" "Calc oper x y = Ret r"
  shows "canonical r"
  using assms(4)
proof (cases rule: Calc_cases)
  case (small a b v)
  then show ?thesis using Calc_sound [OF assms] by (auto simp: canonical_def)
qed (rule CalcBV_canonical)

lemma canonical_tests:
  assumes "canonical r"
  shows "isZero r \<longleftrightarrow> intnum_val r = 0" "isPos1 r \<longleftrightarrow> intnum_val r = 1"
    and "isNeg1 r \<longleftrightarrow> intnum_val r = -1"
  using assms
  by (cases r; auto simp: canonical_def isZero_def isPos1_def isNeg1_def getMinSignedBits_def
      small_bits_iff not_le [symmetric])+

lemma wrap256_cong: "wrap256 a = wrap256 b \<longleftrightarrow> (word_of_int a :: bitvect) = word_of_int b"
  using signed_word_eqI [where 'a = int, of "word_of_int a :: bitvect" "word_of_int b"]
    sint_bitvect [of a] sint_bitvect [of b] by (auto simp del: sint_bitvect)

lemma word_of_int_wrap256 [simp]: "(word_of_int (wrap256 a) :: bitvect) = word_of_int a"
  by (simp flip: wrap256_cong)

lemma wrap256_ring:
  "wrap256 (wrap256 a + b) = wrap256 (a + b)" "wrap256 (a + wrap256 b) = wrap256 (a + b)"
  "wrap256 (wrap256 a * b) = wrap256 (a * b)" "wrap256 (a * wrap256 b) = wrap256 (a * b)"
  by (simp_all add: wrap256_cong)

lemma b2i_eq_0 [simp]: "b2i b = 0 \<longleftrightarrow> \<not> b"
  by (simp add: b2i_def)

lemma calc_spec_assoc:
  assumes "isAssociative oper" "oper \<noteq> Op_COND"
  shows "calc_spec oper (calc_spec oper a b) c = calc_spec oper a (calc_spec oper b c)"
proof -
  have xnor: "NOT (NOT (a XOR b) XOR c) = NOT (a XOR NOT (b XOR c))"
    by (rule bit_eqI) (auto simp: bit_simps)
  show ?thesis using assms xnor
  by (cases oper) (auto simp: isAssociative_def calc_spec_def wrap256_ring b2i_def
      mult.assoc add.assoc and.assoc or.assoc xor.assoc)
qed

section \<open>The arithmetic the expression code relies on\<close>

text \<open>
  Clients of \<open>Calc\<close> need no more than this: inside the domain it returns, and what it returns
  is well formed and has the value of the reference semantics.  Folding a list of constants
  under an associative operator may then be done in any grouping, which is what the
  simplifier does.
\<close>

locale int_arith =
  fixes calc :: "Op \<Rightarrow> 'n \<Rightarrow> 'n \<Rightarrow> 'n outcome"
    and val :: "'n \<Rightarrow> int"
    and wf :: "'n \<Rightarrow> bool"
    and domain :: "Op \<Rightarrow> 'n \<Rightarrow> 'n \<Rightarrow> bool"
  assumes total: "wf x \<Longrightarrow> wf y \<Longrightarrow> domain oper x y \<Longrightarrow> \<exists>r. calc oper x y = Ret r"
    and sound: "wf x \<Longrightarrow> wf y \<Longrightarrow> domain oper x y \<Longrightarrow> calc oper x y = Ret r \<Longrightarrow>
      val r = calc_spec oper (val x) (val y) \<and> wf r"
    and regroupable: "isAssociative oper \<Longrightarrow> oper \<noteq> Op_COND \<Longrightarrow> domain oper x y"
begin

lemma returns:
  assumes "wf x" "wf y" "domain oper x y"
  obtains r where "calc oper x y = Ret r" "wf r" "val r = calc_spec oper (val x) (val y)"
  using assms total sound by blast

lemma assoc:
  assumes "isAssociative oper" "oper \<noteq> Op_COND" "wf x" "wf y" "wf z"
  shows "\<exists>r s. bind_out (calc oper x y) (\<lambda>t. calc oper t z) = Ret r \<and>
               bind_out (calc oper y z) (\<lambda>t. calc oper x t) = Ret s \<and> val r = val s"
proof -
  note dom = regroupable [OF assms(1,2)]
  obtain p where p: "calc oper x y = Ret p" "wf p" "val p = calc_spec oper (val x) (val y)"
    using returns [OF assms(3,4) dom] .
  obtain q where q: "calc oper y z = Ret q" "wf q" "val q = calc_spec oper (val y) (val z)"
    using returns [OF assms(4,5) dom] .
  obtain r where "calc oper p z = Ret r" "val r = calc_spec oper (val p) (val z)"
    using returns [OF p(2) assms(5) dom] .
  moreover obtain s where "calc oper x q = Ret s" "val s = calc_spec oper (val x) (val q)"
    using returns [OF assms(3) q(2) dom] .
  ultimately show ?thesis
    using p q calc_spec_assoc [OF assms(1,2)] by simp
qed

end

lemma calc_domain_assoc: "isAssociative oper \<Longrightarrow> oper \<noteq> Op_COND \<Longrightarrow> calc_domain oper x y"
  by (cases oper) (simp_all add: isAssociative_def calc_domain_def less_Op_def)

interpretation intnum: int_arith Calc intnum_val wf_IntNum calc_domain
  by unfold_locales (use Calc_total Calc_sound calc_domain_assoc in blast)+


section \<open>Order, sizes and conversions\<close>

lemma getActiveBits_le_iff: "getActiveBits w \<le> k \<longleftrightarrow> uint w < 2 ^ k"
proof -
  have "getActiveBits w \<le> k \<longleftrightarrow> int (unat w) < int (2 ^ k)"
    unfolding getActiveBits_def nbits_le_iff by (rule of_nat_less_iff [symmetric])
  then show ?thesis by simp
qed

lemma bit_field_uint:
  assumes "lsb + width \<le> 256"
  shows "take_bit width (drop_bit lsb (uint (w::bitvect))) = take_bit width (drop_bit lsb (sint w))"
  using assms by (intro bit_eqI) (auto simp: bit_simps)

lemma uint_sint_negative:
  assumes "sint (w :: bitvect) < 0"
  shows "uint w = sint w + 2 ^ 256"
proof -
  have "uint w = take_bit 256 (sint w)" by (simp add: uint_sint)
  also have "\<dots> = take_bit 256 (sint w + 2 ^ 256)" by (simp add: take_bit_eq_mod)
  also have "\<dots> = sint w + 2 ^ 256"
    using assms bv_range_sint [of w] by (intro take_bit_int_eq_self) (simp_all add: bv_range_def)
  finally show ?thesis .
qed

lemma Compare_value:
  assumes "wf_IntNum x" "wf_IntNum y"
  shows "Compare x y = sgn (intnum_val x - intnum_val y) \<and>
         (intnum_eq x y \<longleftrightarrow> intnum_val x = intnum_val y) \<and>
         (intnum_less x y \<longleftrightarrow> intnum_val x < intnum_val y) \<and>
         (intnum_greater x y \<longleftrightarrow> intnum_val x > intnum_val y)"
  using assms word_of_int_inject [of "intnum_val x" "intnum_val y"] bv_range_val [of x] bv_range_val [of y]
  by (cases x; cases y)
     (simp_all add: Compare_def intnum_eq_def intnum_less_def intnum_greater_def getBV_eq sgn_if sv_range_bv_range
      del: getBV.simps)

lemma isOkSize_value:
  assumes "wf_IntNum x" "0 < sz" "sz < 256" "\<not> (x = SV SV_MIN \<and> sz = SV_BITS)" "rangetype \<in> {0, 1, 2}"
  shows "isOkSize x sz 0 rangetype = Ret (int_fits rangetype sz (intnum_val x))"
proof (cases x)
  case (SV v)
  have pw: "2 ^ (sz - 1) \<le> (2::int) ^ 62" if "sz \<le> 63" using that by (intro power_increasing) auto
  have pw2: "(2::int) ^ 63 \<le> 2 ^ (sz - 1)" if "sz \<ge> 64" using that by (intro power_increasing) auto
  have pw3: "(2::int) ^ 63 \<le> 2 ^ sz" if "sz \<ge> 63" using that by (intro power_increasing) auto
  have pos: "(0::int) < 2 ^ (sz - 1)" by simp
  have pw4: "(2::int) ^ (sz - 1) \<le> 2 ^ sz" by simp
  show ?thesis using assms pw pw2 pw3 pw4 pos
    by (auto simp: SV int_fits_def Let_def okSize_negative_def sv_range_def limits push_bit_eq_mult
        simp del: power_increasing_iff zero_less_power)
next
  case (BV w)
  have u: "uint w = (if sint w < 0 then sint w + 2 ^ 256 else sint w)"
    using uint_sint_negative [of w] bv_cases(2) [of "sint w"] by auto
  have low: "- (2 ^ 255) \<le> sint w" using bv_range_sint [of w] by (simp only: bv_range_def)
  have "(2::int) ^ sz \<le> 2 ^ 255" using assms(3) by (intro power_increasing) auto
  then have active: "getActiveBits w \<le> sz \<longleftrightarrow> 0 \<le> sint w \<and> sint w < 2 ^ sz"
    using u low by (auto simp: getActiveBits_le_iff)
  have signed: "getMinSignedBits w \<le> sz \<longleftrightarrow> - (2 ^ (sz - 1)) \<le> sint w \<and> sint w < 2 ^ (sz - 1)"
    using min_signed_bits_le_iff [of "sint w" "sz - 1"] assms(2) by (simp add: getMinSignedBits_def)
  have room: "nat (to_u32 (int sz - int 0)) = sz"
    using assms(3) by (simp add: take_bit_int_eq_self)
  have pos: "sint w < 0 \<Longrightarrow> sint w < 2 ^ n" "0 \<le> sint w \<Longrightarrow> - (2 ^ n) \<le> sint w"
      "(2::int) ^ (sz - 1) \<le> 2 ^ sz" for n
    by (simp_all add: order.strict_trans order.trans [of _ 0])
  consider "rangetype = 0" | "rangetype = 1" | "rangetype = 2" using assms(5) by auto
  then show ?thesis
    using pos by cases
      (auto simp: BV isOkSize_bv_def int_fits_def isNegative_def room [simplified] active signed)
qed

lemma increment_value:
  assumes "wf_IntNum x"
  shows "intnum_val (increment x) = wrap256 (intnum_val x + 1) \<and> wf_IntNum (increment x) \<and>
         intnum_val (decrement x) = wrap256 (intnum_val x - 1) \<and> wf_IntNum (decrement x)"
proof (cases x)
  case (SV v)
  have "bv_range (v + 1)" "bv_range (v - 1)"
    using assms by (auto simp: SV sv_range_def bv_range_def limits)
  moreover have "getBV (SV v) + 1 = word_of_int (v + 1)" "getBV (SV v) - 1 = word_of_int (v - 1)"
    by (simp_all add: getBV_eq del: getBV.simps)
  ultimately show ?thesis
    using assms by (auto simp: SV sv_range_def limits simp del: getBV.simps)
next
  case (BV w)
  have "w + 1 = word_of_int (sint w + 1)" "w - 1 = word_of_int (sint w - 1)" by simp_all
  then have "sint (w + 1) = wrap256 (sint w + 1)" "sint (w - 1) = wrap256 (sint w - 1)"
    using sint_bitvect by metis+
  then show ?thesis by (simp add: BV)
qed

lemma getUInt_value:
  assumes "wf_IntNum x"
  shows "getUInt x = max 0 (min ULONG_MAX (intnum_val x))"
proof (cases x)
  case (SV v) then show ?thesis using assms by (auto simp: sv_range_def limits)
next
  case (BV w)
  have "uint w = sint w" if "0 \<le> sint w"
    using that bv_cases(2) [of "sint w"] by simp
  moreover have "getActiveBits w > 64 \<longleftrightarrow> uint w \<ge> 2 ^ 64"
    using getActiveBits_le_iff [of w 64] by auto
  ultimately show ?thesis by (auto simp: BV isNegative_def limits)
qed

lemma Extract_value:
  assumes "wf_IntNum x" "width \<le> 64" "case x of SV _ \<Rightarrow> lsb < 64 | BV _ \<Rightarrow> lsb + width \<le> 256"
  shows "Extract x width lsb = Ret (take_bit width (drop_bit lsb (intnum_val x)))"
proof (cases x)
  case (SV v)
  then show ?thesis using assms by (auto simp: ULONG_BITS_def Let_def min_def)
next
  case (BV w)
  have "\<not> (lsb div 64 \<ge> 4 \<or> (64 - lsb mod 64 < width \<and> lsb div 64 + 1 \<ge> 4))" if "width \<noteq> 0"
  proof -
    have "lsb + width \<le> 256" using assms(3) by (simp add: BV)
    moreover obtain q r where qr: "lsb div 64 = q" "lsb mod 64 = r" by blast
    moreover have "lsb = 64 * q + r" "r < 64"
      using div_mult_mod_eq [of lsb 64] mod_less_divisor [of 64 lsb] by (simp_all only: qr)
    ultimately show ?thesis unfolding qr using that by linarith
  qed
  then show ?thesis using assms(2,3) bit_field_uint [of lsb width w]
    by (cases "width = 0") (simp_all add: BV ULONG_BITS_def tcExtract_def)
qed

section \<open>Properties\<close>

text \<open>
  C21. On its domain \<open>Calc\<close> returns a well-formed, canonical number whose value is the
  documented value of the operator on the operands' values, whichever of the two
  representations the operands have and whichever code path is taken.  The domain has no zero divisors,
  no negative operands of the unsigned divisions and of shifts to the right, and shift counts of up to 256, from 0 to 63 for
  the right shift of a small value.
\<close>

theorem Calc_correct:
  assumes "wf_IntNum x" "wf_IntNum y" "calc_domain oper x y"
  shows "\<exists>r. Calc oper x y = Ret r \<and> wf_IntNum r \<and> canonical r \<and>
             intnum_val r = calc_spec oper (intnum_val x) (intnum_val y)"
  using Calc_total [OF assms] Calc_sound [OF assms] Calc_canonical [OF assms] by blast

theorem Calc_correct_witness:
  "\<exists>r. Calc Op_MUL (SV 4294967296) (SV 4294967296) = Ret r \<and> wf_IntNum r \<and> canonical r \<and>
       intnum_val r = 18446744073709551616"
  using Calc_correct [of "SV 4294967296" "SV 4294967296" Op_MUL]
  by (simp add: sv_range_def calc_domain_def less_Op_def calc_spec_def wrap256_def
      signed_take_bit_int_eq_self limits)

text \<open>
  A negative number is shifted to the right with its sign, in both representations, although the operator is
  documented as a logical shift: -8 shifted by one is -4.
\<close>

lemma Calc_SHR_negative:
  "Calc Op_SHR (SV (-8)) (SV 1) = Ret (SV (-4))" "Calc Op_SHR (BV (-8)) (SV 1) = Ret (SV (-4))"
  "calc_spec Op_SHR (-8) 1 = 2 ^ 255 - 4"
  by code_simp+

text \<open>
  C22. The four division operators report \<open>err_divide_by_zero\<close> exactly when the divisor's
  value is zero, in every combination of representations.
\<close>

theorem Calc_divide_by_zero:
  assumes "oper \<in> {Op_DIV, Op_SIGNDIV, Op_MOD, Op_SIGNMOD}" "wf_IntNum x" "wf_IntNum y"
  shows "Calc oper x y = Fail err_divide_by_zero \<longleftrightarrow> intnum_val y = 0"
  using assms word_of_int_eq_0 [of "intnum_val y"] bv_range_val [of y]
  by (cases x; cases y; cases oper)
     (auto simp: Calc_def CalcImpl_def CalcSmallValue_def CalcBV_def getBV_eq
      simp del: getBV.simps)

theorem Calc_divide_by_zero_witness:
  "Calc Op_SIGNMOD (BV 7) (SV 0) = Fail err_divide_by_zero"
  using Calc_divide_by_zero [of Op_SIGNMOD "BV 7" "SV 0"] by (simp add: sv_range_def limits)

text \<open>
  Exchanging the operands of an operator that \<open>isCommutative\<close> accepts changes
  nothing: result, representation, diagnostics and definedness are the same.
\<close>

lemma Calc_commute:
  assumes "isCommutative oper"
  shows "Calc oper x y = Calc oper y x"
proof -
  have small: "CalcSmallValue oper a b = Ret (h, v) \<Longrightarrow> \<not> h \<Longrightarrow> \<exists>v. CalcSmallValue oper b a = Ret (False, v)"
    "CalcSmallValue oper a b = Ret (True, v) \<Longrightarrow> CalcSmallValue oper b a = Ret (True, v)"
   "\<exists>h v. CalcSmallValue oper a b = Ret (h, v)" for a b h v
    using assms by (cases oper; auto simp: isCommutative_def CalcSmallValue_def Let_def and.commute or.commute xor.commute mult.commute add.commute b2i_def split: if_splits)+
  have bv: "CalcBV oper u v y' = CalcBV oper v u x'" for u v x' y'
    using assms by (cases oper) (auto simp: isCommutative_def CalcBV_def Let_def and.commute or.commute xor.commute mult.commute add.commute b2i_def disj_commute conj_commute)
  show ?thesis
  proof (cases "\<exists>a b. x = SV a \<and> y = SV b")
    case True
    then obtain a b where "x = SV a" "y = SV b" by blast
    moreover obtain h v where "CalcSmallValue oper a b = Ret (h, v)" using small(3) by blast
    ultimately show ?thesis
      using small(1) [of a b h v] small(2) [of a b v] bv
      by (cases h) (auto simp: Calc_small simp del: getBV.simps)
  next
    case False
    then show ?thesis using Calc_big [of x y] Calc_big [of y x] bv by auto
  qed
qed

text \<open>
  C23. For the numeric operators that \<open>isAssociative\<close> accepts, both groupings of three
  operands return, with equal values: merging nested terms of such an operator is sound.
\<close>

theorem Calc_assoc:
  assumes "isAssociative oper" "oper \<noteq> Op_COND" "wf_IntNum x" "wf_IntNum y" "wf_IntNum z"
  shows "\<exists>r s. bind_out (Calc oper x y) (\<lambda>t. Calc oper t z) = Ret r \<and>
               bind_out (Calc oper y z) (\<lambda>t. Calc oper x t) = Ret s \<and>
               intnum_val r = intnum_val s"
  by (rule intnum.assoc [OF assms])

theorem Calc_assoc_witness:
  "\<exists>r s. bind_out (Calc Op_ADD (SV SV_MAX) (SV SV_MAX)) (\<lambda>t. Calc Op_ADD t (SV (-1))) = Ret r \<and>
         bind_out (Calc Op_ADD (SV SV_MAX) (SV (-1))) (\<lambda>t. Calc Op_ADD (SV SV_MAX) t) = Ret s \<and>
         intnum_val r = intnum_val s"
  by (rule Calc_assoc) (simp_all add: isAssociative_def sv_range_def limits)

text \<open>
  C24. \<open>Compare\<close> is the three-way comparison of the values, and the operators \<^verbatim>\<open>==\<close>,
  \<^verbatim>\<open><\<close> and \<^verbatim>\<open>>\<close> decide equality and order of the values across representations.
\<close>

theorem Compare_correct:
  assumes "wf_IntNum x" "wf_IntNum y"
  shows "Compare x y = sgn (intnum_val x - intnum_val y) \<and>
         (intnum_eq x y \<longleftrightarrow> intnum_val x = intnum_val y) \<and>
         (intnum_less x y \<longleftrightarrow> intnum_val x < intnum_val y) \<and>
         (intnum_greater x y \<longleftrightarrow> intnum_val x > intnum_val y)"
  by (rule Compare_value [OF assms])

theorem Compare_correct_witness:
  "Compare (SV (-3)) (BV 18446744073709551616) = -1 \<and> \<not> intnum_eq (SV 3) (BV 4) \<and>
   intnum_eq (SV 3) (BV 3)"
  using Compare_correct [of "SV (-3)" "BV 18446744073709551616"] Compare_correct [of "SV 3" "BV 4"]
    Compare_correct [of "SV 3" "BV 3"] sint_bitvect [of 18446744073709551616] sint_bitvect [of 4]
    sint_bitvect [of 3]
  by (simp add: sv_range_def limits wrap256_def signed_take_bit_int_eq_self)

text \<open>
  C25. \<open>isOkSize\<close> without a shift decides whether the value fits the given number of bits,
  for the unsigned, signed and combined range types and for both representations.  The
  excluded case is the most negative small value in 63 bits, which the code accepts.
\<close>

theorem isOkSize_correct:
  assumes "wf_IntNum x" "0 < sz" "sz < 256" "\<not> (x = SV SV_MIN \<and> sz = SV_BITS)" "rangetype \<in> {0, 1, 2}"
  shows "isOkSize x sz 0 rangetype = Ret (int_fits rangetype sz (intnum_val x))"
  by (rule isOkSize_value [OF assms])

theorem isOkSize_correct_witness:
  "isOkSize (SV (-128)) 8 0 1 = Ret True \<and> isOkSize (SV 255) 8 0 1 = Ret False"
  using isOkSize_correct [of "SV (-128)" 8 1] isOkSize_correct [of "SV 255" 8 1]
  by (simp add: sv_range_def limits int_fits_def)

text \<open>
  C26. \<open>Extract\<close> returns the requested bit field of the value's two's complement
  representation whenever the field lies inside the number.
\<close>

theorem Extract_correct:
  assumes "wf_IntNum x" "width \<le> 64" "case x of SV _ \<Rightarrow> lsb < 64 | BV _ \<Rightarrow> lsb + width \<le> 256"
  shows "Extract x width lsb = Ret (take_bit width (drop_bit lsb (intnum_val x)))"
  by (rule Extract_value [OF assms])

theorem Extract_correct_witness: "Extract (SV (-2)) 7 7 = Ret 127"
  using Extract_correct [of "SV (-2)" 7 7] by (simp add: sv_range_def limits mask_eq_exp_minus_1)

text \<open>
  A value that needs exactly 64 signed bits is kept as a bit vector by \<open>setBV\<close>, and
  \<open>getInt\<close> and \<open>isInt\<close> then treat it as out of the range of \<^verbatim>\<open>long\<close>: one shifted left by
  62 is reported as the largest \<^verbatim>\<open>long\<close>.
\<close>

theorem getInt_of_shifted_one:
  "Calc Op_SHL (SV 1) (SV 62) = Ret (BV 4611686018427387904) \<and>
   getInt (BV 4611686018427387904) = LONG_MAX \<and> \<not> isInt (BV 4611686018427387904)"
proof -
  have w: "sint (4611686018427387904 :: bitvect) = 4611686018427387904"
    using sint_bitvect [of 4611686018427387904] by (simp add: wrap256_def signed_take_bit_int_eq_self)
  have "push_bit 62 (1 :: bitvect) = 4611686018427387904"
    by (simp add: push_bit_eq_mult)
  then show ?thesis
    using small_bits_iff [of 4611686018427387904]
    by (simp add: Calc_small CalcSmallValue_def CalcBV_def apint_shl_def take_bit_int_eq_self setBV_def
        isNegative_def w)
qed

end
