(* ===== verification/IntNum_Text.thy ===== *)
theory IntNum_Text
  imports IntNum_Calc
begin

text \<open>
  Reading and printing integers: \<^verbatim>\<open>IntNum::setStr\<close>, \<^verbatim>\<open>IntNum::getStr\<close>, \<^verbatim>\<open>IntNum::Print\<close>
  of \<^verbatim>\<open>lib/yasmx/IntNum.cpp\<close> and \<^verbatim>\<open>APInt::toString\<close>, on which printing rests.  A text is a
  \<^typ>\<open>string\<close>; a digit is its numeric value.  The theorems relate both directions to the
  positional value \<open>be_val\<close> and give the round trip.
\<close>

unbundle bit_operations_syntax

section \<open>Reading\<close>

definition HexDigitValue :: "char \<Rightarrow> int" where
  "HexDigitValue ch =
     (let n = of_char ch in
      if 48 \<le> n \<and> n \<le> 57 then n - 48
      else if 97 \<le> n \<and> n \<le> 102 then n - 97 + 10
      else if 65 \<le> n \<and> n \<le> 70 then n - 65 + 10
      else if n = 95 then 0
      else 4294967295)"

text \<open>
  The estimate of the bits a text needs: \<^verbatim>\<open>len\<close> is a 64-bit \<^verbatim>\<open>size_t\<close> that no longer counts
  the sign, \<^verbatim>\<open>minbits\<close> an \<^verbatim>\<open>unsigned int\<close>.
\<close>

definition setStr_minbits :: "bool \<Rightarrow> nat \<Rightarrow> nat \<Rightarrow> int" where
  "setStr_minbits is_neg len radix =
     (let minbits = (if is_neg then 1 else 0); rest = to_u64 (int len - minbits) in
      to_u32 (minbits +
        (if radix = 2 then rest
         else if radix = 8 then to_u64 (rest * 3)
         else if radix = 16 then to_u64 (rest * 4)
         else if radix = 10 then to_u64 (rest * 64) div 22
         else to_u64 (int len * int (max 1 (nbits (radix - 1)))))))"

text \<open>The short case: a \<^verbatim>\<open>long long\<close> accumulator, whose overflow is undefined.\<close>

fun setStr_short :: "nat \<Rightarrow> string \<Rightarrow> int \<Rightarrow> int outcome" where
  "setStr_short radix [] v = Ret v"
| "setStr_short radix (ch # cs) v =
     (let c = HexDigitValue ch; v' = v * int radix + c in
      if c < int radix \<and> sv_range (v * int radix) \<and> sv_range v'
      then setStr_short radix cs v' else Undefined)"

text \<open>The long case: a 256-bit accumulator and the overflow flag.\<close>

definition setStr_shift :: "nat \<Rightarrow> nat" where
  "setStr_shift radix = (if radix = 16 then 4 else if radix = 8 then 3 else if radix = 2 then 1 else 0)"

fun setStr_long :: "nat \<Rightarrow> string \<Rightarrow> bitvect \<Rightarrow> bool \<Rightarrow> (bitvect \<times> bool) outcome" where
  "setStr_long radix [] conv overflowed = Ret (conv, overflowed)"
| "setStr_long radix (ch # cs) conv overflowed =
     (let c = HexDigitValue ch in
      if c < int radix then
        let radixval = of_nat radix; charval = word_of_int c; oldval = conv;
            scaled = (if setStr_shift radix \<noteq> 0 then push_bit (setStr_shift radix) conv
                      else conv * radixval);
            summed = scaled + charval
        in setStr_long radix cs summed
             (overflowed \<or> scaled div radixval \<noteq> oldval \<or> summed < charval)
      else Undefined)"

text \<open>
  The whole function on a number \<open>x\<close>: its return value and the number afterwards, which a
  text that needs too many bits leaves alone.  The loop that sizes a digit of another radix
  shifts out of range beyond \<open>2 ^ 31\<close>.
\<close>

definition setStr :: "IntNum \<Rightarrow> string \<Rightarrow> nat \<Rightarrow> (bool \<times> IntNum) outcome" where
  "setStr x str radix =
     (case str of
        [] \<Rightarrow> Undefined
      | first # rest \<Rightarrow>
          let is_neg = (first = CHR ''-'');
              digits = (if is_neg then rest else str);
              minbits = setStr_minbits is_neg (length digits) radix in
          if radix > 2 ^ 31 then Undefined
          else if minbits > int BITVECT_NATIVE_SIZE then Ret (False, x)
          else if minbits < int SV_BITS then
            bind_out (setStr_short radix digits 0)
              (\<lambda>v. Ret (True, set_s (if is_neg then - v else v)))
          else
            bind_out (setStr_long radix digits 0 False)
              (\<lambda>(conv, overflowed).
                 let final = (if is_neg then NOT (conv - 1) else conv) in
                 Ret (overflowed, setBV (sint final))))"

section \<open>Printing\<close>

definition digit_char :: "bool \<Rightarrow> nat \<Rightarrow> char" where
  "digit_char lowercase d =
     char_of (if d < 10 then 48 + d else if lowercase then 87 + d else 55 + d :: nat)"

text \<open>
  The digit loops of \<^verbatim>\<open>APInt::toString\<close>, least significant digit first: shifting and masking
  for the radixes 2, 8 and 16, dividing for 10 and 36.
\<close>

function shift_digits :: "nat \<Rightarrow> nat \<Rightarrow> nat list" where
  "shift_digits k n =
     (if n = 0 \<or> k = 0 then [] else (n AND mask k) # shift_digits k (drop_bit k n))"
  by auto
termination
  by (relation "measure snd") (auto simp: drop_bit_eq_div intro!: div_less_dividend one_less_power)

function div_digits :: "nat \<Rightarrow> nat \<Rightarrow> nat list" where
  "div_digits r n = (if n = 0 \<or> r < 2 then [] else (n mod r) # div_digits r (n div r))"
  by auto
termination
  by (relation "measure snd") auto

declare shift_digits.simps [simp del] div_digits.simps [simp del]

definition toString :: "bitvect \<Rightarrow> nat \<Rightarrow> bool \<Rightarrow> bool \<Rightarrow> string outcome" where
  "toString w radix is_signed lowercase =
     (if radix \<notin> {2, 8, 10, 16, 36} then Undefined
      else if w = 0 then Ret ''0''
      else
        let minus = (is_signed \<and> isNegative w);
            tmp = unat (if minus then NOT w + 1 else w);
            digits = (if radix = 16 then shift_digits 4 tmp
                      else if radix = 8 then shift_digits 3 tmp
                      else if radix = 2 then shift_digits 1 tmp
                      else div_digits radix tmp)
        in Ret ((if minus then ''-'' else []) @ rev (List.map (digit_char lowercase) digits)))"

text \<open>What \<^verbatim>\<open>sprintf\<close> prints for an unsigned long (\<^verbatim>\<open>%lo\<close>, \<^verbatim>\<open>%lx\<close>, \<^verbatim>\<open>%lX\<close>) and a long (\<^verbatim>\<open>%ld\<close>).\<close>

definition print_ulong :: "nat \<Rightarrow> bool \<Rightarrow> int \<Rightarrow> string" where
  "print_ulong radix lowercase v =
     (if v = 0 then ''0'' else rev (List.map (digit_char lowercase) (div_digits radix (nat (to_u64 v)))))"

definition print_long :: "int \<Rightarrow> string" where
  "print_long v = (if v < 0 then CHR ''-'' # print_ulong 10 True (- v) else print_ulong 10 True v)"

fun getStr :: "IntNum \<Rightarrow> int \<Rightarrow> bool \<Rightarrow> string outcome" where
  "getStr (BV w) base lowercase = toString w (nat (to_u32 base)) True lowercase"
| "getStr (SV v) base lowercase =
     (if v = SV_MIN then Undefined
      else
        let sign = (if v < 0 then ''-'' else []) in
        if base = 8 then Ret (sign @ print_ulong 8 True v)
        else if base = 10 then Ret (sign @ print_long v)
        else if base = 16 then Ret (sign @ print_ulong 16 lowercase v)
        else bind_out (toString (getBV (SV v)) (nat (to_u32 base)) True lowercase)
               (\<lambda>s. Ret (sign @ s)))"

text \<open>
  The padding of \<^verbatim>\<open>Print\<close> is computed with the unsigned 64-bit \<^verbatim>\<open>size_t\<close> of the text's length
  and converted to \<^verbatim>\<open>int\<close>.
\<close>

definition print_padding :: "int \<Rightarrow> int \<Rightarrow> nat \<Rightarrow> int" where
  "print_padding base bits len =
     (if bits \<le> 0 then 0
      else if base = 2 then to_s32 (to_u64 (bits - int len))
      else if base = 8 then to_s32 (to_u64 (bits - int len * 3 + 2) div 3)
      else if base = 16 then to_s32 (to_u64 (bits - int len * 4 + 3) div 4)
      else 0)"

definition Print :: "IntNum \<Rightarrow> int \<Rightarrow> bool \<Rightarrow> bool \<Rightarrow> int \<Rightarrow> string outcome" where
  "Print x base lowercase showbase bits =
     (let bv = getBV x; minus = isNegative bv;
          magnitude = (if minus then NOT bv + 1 else bv);
          prefix = (if \<not> showbase then []
                    else if base = 2 then (if lowercase then ''0b'' else ''0B'')
                    else if base = 8 then ''0''
                    else if base = 16 then (if lowercase then ''0x'' else ''0X'')
                    else []) in
      bind_out (toString magnitude (nat (to_u32 base)) True lowercase)
        (\<lambda>s. Ret ((if minus then ''-'' else []) @ prefix @
                  replicate (nat (print_padding base bits (length s))) (CHR ''0'') @ s)))"

section \<open>Texts and their values\<close>

text \<open>
  The value of a digit text, the sign split off in front, and the digit text of a number.
\<close>

definition digits_ok :: "nat \<Rightarrow> string \<Rightarrow> bool" where
  "digits_ok radix str \<longleftrightarrow> list_all (\<lambda>ch. HexDigitValue ch < int radix) str"

definition text_val :: "nat \<Rightarrow> string \<Rightarrow> int" where
  "text_val radix str = be_val (int radix) (List.map HexDigitValue str)"

definition text_split :: "string \<Rightarrow> bool \<times> string" where
  "text_split str = (if str \<noteq> [] \<and> hd str = CHR ''-'' then (True, tl str) else (False, str))"

definition digit_text :: "bool \<Rightarrow> nat \<Rightarrow> nat \<Rightarrow> string" where
  "digit_text lc r n = (if n = 0 then ''0'' else rev (List.map (digit_char lc) (div_digits r n)))"

section \<open>Lemmas\<close>


lemma HexDigitValue_nonneg [simp]: "0 \<le> HexDigitValue ch"
  by (simp add: HexDigitValue_def Let_def)

lemma text_val_snoc: "text_val radix (cs @ [ch]) = text_val radix cs * int radix + HexDigitValue ch"
  by (simp add: text_val_def be_val_snoc)

lemma text_val_nonneg [simp]: "0 \<le> text_val radix str"
  by (induction str rule: rev_induct) (simp_all add: text_val_snoc, simp add: text_val_def be_val_def)

lemma text_val_scale: "0 < radix \<Longrightarrow> text_val radix cs \<le> text_val radix cs * int radix"
  using mult_left_mono [of 1 "int radix" "text_val radix cs"] by simp

lemma text_val_prefix: "0 < radix \<Longrightarrow> text_val radix cs \<le> text_val radix (cs @ ds)"
proof (induction ds rule: rev_induct)
  case (snoc d ds)
  then have "text_val radix cs \<le> text_val radix (cs @ ds)" by simp
  also have "\<dots> \<le> text_val radix (cs @ ds) * int radix"
    using snoc.prems by (rule text_val_scale)
  also have "\<dots> \<le> text_val radix (cs @ ds @ [d])"
    using text_val_snoc [of radix "cs @ ds" d] by simp
  finally show ?case .
qed simp

lemma setStr_short_from:
  assumes "digits_ok radix ds" "text_val radix (cs @ ds) \<le> SV_MAX" "0 < radix"
  shows "setStr_short radix ds (text_val radix cs) = Ret (text_val radix (cs @ ds))"
  using assms
proof (induction ds arbitrary: cs)
  case (Cons d ds)
  let ?v = "text_val radix cs * int radix + HexDigitValue d"
  have v: "?v = text_val radix (cs @ [d])" by (simp add: text_val_snoc)
  have "?v \<le> SV_MAX"
    using text_val_prefix [of radix "cs @ [d]" ds] Cons.prems unfolding v by simp
  moreover have "0 \<le> text_val radix cs * int radix" by simp
  ultimately have "sv_range (text_val radix cs * int radix)" "sv_range ?v"
    using HexDigitValue_nonneg [of d] unfolding sv_range_def limits by linarith+
  then show ?case
    using Cons.IH [of "cs @ [d]"] Cons.prems v by (simp add: digits_ok_def Let_def)
qed simp

lemma uint_bitvect_id: "0 \<le> x \<Longrightarrow> x < 2 ^ 256 \<Longrightarrow> uint (word_of_int x :: bitvect) = x"
  by (simp add: uint_word_of_int_eq take_bit_int_eq_self)

lemma setStr_scale: 
  assumes "0 < radix"
  shows "(if setStr_shift radix \<noteq> 0 then push_bit (setStr_shift radix) (word_of_int x)
      else word_of_int x * of_nat radix) = (word_of_int (x * int radix) :: bitvect)"
  by (simp add: setStr_shift_def push_bit_eq_mult)

lemma setStr_long_from:
  assumes "digits_ok radix ds" "text_val radix (cs @ ds) < 2 ^ 256" "0 < radix" "radix \<le> 2 ^ 31"
  shows "setStr_long radix ds (word_of_int (text_val radix cs)) False =
           Ret (word_of_int (text_val radix (cs @ ds)), False)"
  using assms
proof (induction ds arbitrary: cs)
  case (Cons d ds)
  let ?x = "text_val radix cs" and ?r = "int radix" and ?c = "HexDigitValue d"
  let ?scaled = "word_of_int (?x * ?r) :: bitvect" and ?w = "word_of_int ?c :: bitvect"
  have v: "?x * ?r + ?c = text_val radix (cs @ [d])" by (simp add: text_val_snoc)
  have lt: "?x * ?r + ?c < 2 ^ 256"
    using text_val_prefix [of radix "cs @ [d]" ds] Cons.prems unfolding v by simp
  have nn: "0 \<le> ?x * ?r" "0 \<le> ?c" by simp_all
  have c: "?c < ?r" using Cons.prems by (simp add: digits_ok_def)
  have sum: "?scaled + ?w = word_of_int (?x * ?r + ?c)" by simp
  have x: "?x < 2 ^ 256" "?x \<le> ?x * ?r"
    using Cons.prems text_val_prefix [of radix cs "d # ds"] text_val_scale by simp_all
  have bounds: "?x * ?r < 2 ^ 256" "?c < 2 ^ 256" "?r < 2 ^ 256"
    using lt nn Cons.prems(4) by (linarith, linarith, simp)
  have u: "uint ?scaled = ?x * ?r" "uint ?w = ?c" "uint (?scaled + ?w) = ?x * ?r + ?c"
    "uint (word_of_int ?x :: bitvect) = ?x"
    unfolding sum using lt nn x(1) bounds by (simp_all only: uint_bitvect_id add_nonneg_nonneg text_val_nonneg)
  have r: "uint (of_nat radix :: bitvect) = ?r"
    using uint_bitvect_id [of ?r] bounds(3) by simp
  have "\<not> ?scaled + ?w < ?w" unfolding word_less_def u using nn by linarith
  moreover have "?scaled div of_nat radix = word_of_int ?x"
    unfolding word_uint_eq_iff uint_div_distrib u r using Cons.prems(3) by simp
  ultimately have "setStr_long radix (d # ds) (word_of_int ?x) False =
      setStr_long radix ds (?scaled + ?w) False"
    unfolding setStr_long.simps Let_def setStr_scale [OF Cons.prems(3)] using c by simp
  then show ?case
    using Cons.IH [of "cs @ [d]"] Cons.prems unfolding sum v by (simp add: digits_ok_def)
qed simp


lemma setStr_unfold:
  assumes "str \<noteq> []" "text_split str = (is_neg, ds)" "radix \<le> 2 ^ 31"
    and "setStr_minbits is_neg (length ds) radix \<le> 256"
  shows "setStr x str radix =
     (if setStr_minbits is_neg (length ds) radix < 63
      then bind_out (setStr_short radix ds 0) (\<lambda>v. Ret (True, SV (if is_neg then - v else v)))
      else bind_out (setStr_long radix ds 0 False) (\<lambda>(conv, overflowed).
             Ret (overflowed, setBV (sint (if is_neg then NOT (conv - 1) else conv)))))"
  using assms by (cases str) (auto simp: setStr_def text_split_def Let_def set_s_def limits split: if_splits)

lemma bv_range_nonneg: "0 \<le> v \<Longrightarrow> v < 2 ^ 255 \<Longrightarrow> bv_range v \<and> bv_range (- v)"
  by (simp add: bv_range_def)

lemma setStr_refuses:
  assumes "str \<noteq> []" "text_split str = (is_neg, ds)" "radix \<le> 2 ^ 31" "256 < setStr_minbits is_neg (length ds) radix"
  shows "setStr x str radix = Ret (False, x)"
  using assms by (cases str) (auto simp: setStr_def text_split_def Let_def limits BITVECT_NATIVE_SIZE_def split: if_splits)

lemma setStr_value:
  assumes "str \<noteq> []" "text_split str = (is_neg, ds)" "digits_ok radix ds" "radix \<le> 2 ^ 31" "0 < radix"
    and "setStr_minbits is_neg (length ds) radix \<le> 256"
    and "text_val radix ds < (if setStr_minbits is_neg (length ds) radix < 63 then 2 ^ 63 else 2 ^ 255)"
  shows "\<exists>r. setStr x str radix = Ret (setStr_minbits is_neg (length ds) radix < 63, r) \<and> wf_IntNum r \<and>
     intnum_val r = (if is_neg then - text_val radix ds else text_val radix ds)"
proof -
  let ?v = "text_val radix ds"
  have 0: "text_val radix [] = 0" by (simp add: text_val_def be_val_def)
  note unfold = setStr_unfold [OF assms(1,2,4,6), of x]
  show ?thesis
  proof (cases "setStr_minbits is_neg (length ds) radix < 63")
    case True
    then have "setStr_short radix ds 0 = Ret ?v" "?v \<le> SV_MAX"
      using setStr_short_from [of radix ds "[]"] assms(3,5,7) by (simp_all add: 0 limits)
    moreover have "sv_range ?v" "sv_range (- ?v)" 
      using \<open>?v \<le> SV_MAX\<close> text_val_nonneg [of radix ds] unfolding sv_range_def limits by linarith+
    ultimately show ?thesis
      using True by (auto simp: unfold)
  next
    case False
    then have v: "?v < 2 ^ 255" using assms(7) by simp
    have long: "setStr_long radix ds 0 False = Ret (word_of_int ?v, False)"
      using setStr_long_from [of radix ds "[]"] v assms(3-5) by (simp add: 0)
    have neg: "NOT (word_of_int ?v - 1) = (word_of_int (- ?v) :: bitvect)"
      by (simp add: not_eq_complement)
    then have "sint (NOT (word_of_int ?v - 1) :: bitvect) = - ?v"
      using bv_range_nonneg [OF text_val_nonneg v] by (simp only: sint_bitvect wrap256_id)
    then show ?thesis
      using False long bv_range_nonneg [OF text_val_nonneg v] by (auto simp: unfold)
  qed
qed



lemma div_digits_0 [simp]: "div_digits r 0 = []"
  by (simp add: div_digits.simps)

lemma shift_digits_eq: "shift_digits k n = (if k = 0 then [] else div_digits (2 ^ k) n)"
proof (induction k n rule: shift_digits.induct)
  case (1 k n)
  show ?case
  proof (cases "n = 0 \<or> k = 0")
    case True
    then show ?thesis by (auto simp: shift_digits.simps [of k n] div_digits.simps [of "2 ^ k" n])
  next
    case False
    moreover from False have "(2::nat) \<le> 2 ^ k" by (cases k) simp_all
    ultimately show ?thesis
      using 1 by (simp add: shift_digits.simps [of k n] div_digits.simps [of "2 ^ k" n]
          drop_bit_eq_div take_bit_eq_mod flip: take_bit_eq_mask)
  qed
qed

lemma le_val_div_digits: "2 \<le> r \<Longrightarrow> le_val (int r) (List.map int (div_digits r n)) = int n"
proof (induction r n rule: div_digits.induct)
  case (1 r n)
  show ?case
  proof (cases "n = 0")
    case False
    then show ?thesis
      using 1 by (simp add: div_digits.simps [of r n] zmod_int zdiv_int)
  qed simp
qed

lemma div_digits_less: "2 \<le> r \<Longrightarrow> d \<in> set (div_digits r n) \<Longrightarrow> d < r"
proof (induction r n rule: div_digits.induct)
  case (1 r n)
  then show ?case
    by (cases "n = 0") (auto simp: div_digits.simps [of r n])
qed

lemma of_char_of_nat: "n < 256 \<Longrightarrow> (of_char (char_of (n :: nat)) :: int) = int n"
  by (metis mod_less of_char_of of_nat_of_char)

lemma HexDigitValue_digit_char: "d < 16 \<Longrightarrow> HexDigitValue (digit_char lc d) = int d"
  by (simp add: HexDigitValue_def digit_char_def Let_def of_char_of_nat)

lemma digit_text_val:
  assumes "2 \<le> r" "r \<le> 16"
  shows "text_val r (digit_text lc r n) = int n" "digits_ok r (digit_text lc r n)"
proof -
  have zero: "HexDigitValue (CHR ''0'') = 0" by (simp add: HexDigitValue_def)
  have *: "List.map HexDigitValue (List.map (digit_char lc) (div_digits r n)) = List.map int (div_digits r n)"
    using assms div_digits_less [OF assms(1)] by (force simp: HexDigitValue_digit_char)
  show "text_val r (digit_text lc r n) = int n"
    using le_val_div_digits [OF assms(1), of n] *
    by (simp add: text_val_def digit_text_def be_val_rev rev_map zero flip: map_map)
  show "digits_ok r (digit_text lc r n)"
  proof (cases "n = 0")
    case False
    have "HexDigitValue (digit_char lc d) < int r" if "d \<in> set (div_digits r n)" for d
      using div_digits_less [OF assms(1) that] assms(2) by (simp add: HexDigitValue_digit_char)
    then show ?thesis using False by (auto simp: digits_ok_def digit_text_def list_all_iff)
  qed (use assms(1) in \<open>simp add: digits_ok_def digit_text_def zero\<close>)
qed

lemma toString_nonneg:
  assumes "0 \<le> sint w" "radix \<in> {2, 8, 10, 16}"
  shows "toString w radix True lc = Ret (digit_text lc radix (nat (sint w)))"
proof -
  have u: "unat w = nat (sint w)"
    using bv_cases(2) [of "sint w"] assms(1) by (simp add: unat_eq_nat_uint)
  have 0: "w = 0 \<longleftrightarrow> sint w = 0"
    using word_of_int_eq_0 [of "sint w"] by simp
  show ?thesis
    using assms shift_digits_eq [of 4] shift_digits_eq [of 3] shift_digits_eq [of 1]
    by (auto simp: toString_def digit_text_def isNegative_def 0 u numeral_2_eq_2 [symmetric])
qed

lemma getStr_nonneg:
  assumes "wf_IntNum x" "0 \<le> intnum_val x" "base \<in> {2, 8, 10, 16}"
  shows "\<exists>lc'. getStr x (int base) lc = Ret (digit_text lc' base (nat (intnum_val x)))"
proof (cases x)
  case (BV w)
  then show ?thesis
    using assms toString_nonneg [of w base lc] by (auto simp: take_bit_int_eq_self)
next
  case (SV v)
  have v: "0 \<le> v" "v \<noteq> SV_MIN" "to_u64 v = v" "sint (getBV (SV v)) = v"
    using assms sint_getBV [of x] by (auto simp: SV sv_range_def limits take_bit_int_eq_self simp del: getBV.simps)
  have eq: "print_ulong r l v = digit_text l r (nat v)" for r l
    using v by (auto simp: print_ulong_def digit_text_def)
  show ?thesis
    using assms(3) v toString_nonneg [of "getBV (SV v)" 2 lc]
    by (auto simp: SV eq print_long_def limits take_bit_int_eq_self simp del: getBV.simps)
qed

lemma Print_nonneg:
  assumes "wf_IntNum x" "0 \<le> intnum_val x" "base \<in> {2, 8, 10, 16}"
  shows "Print x (int base) lc False (-1) = Ret (digit_text lc base (nat (intnum_val x)))"
  using assms toString_nonneg [of "getBV x" base lc]
  by (auto simp: Print_def isNegative_def print_padding_def take_bit_int_eq_self Let_def)

lemma div_digits_length:
  "2 \<le> r \<Longrightarrow> n < r ^ length (div_digits r n) \<and> (0 < n \<longrightarrow> r ^ (length (div_digits r n) - 1) \<le> n)"
proof (induction r n rule: div_digits.induct)
  case (1 r n)
  show ?case
  proof (cases "n = 0")
    case False
    let ?l = "length (div_digits r (n div r))"
    have IH: "n div r < r ^ ?l" "0 < n div r \<Longrightarrow> r ^ (?l - 1) \<le> n div r"
      using 1 False by auto
    have len: "length (div_digits r n) = Suc ?l"
      using False 1(2) by (simp add: div_digits.simps [of r n])
    have "n < r ^ Suc ?l"
      using IH(1) 1(2) by (simp add: div_less_iff_less_mult mult.commute)
    moreover have "r ^ ?l \<le> n"
    proof (cases "n div r = 0")
      case False
      then have "?l \<noteq> 0" using 1(2) by (simp add: div_digits.simps [of r "n div r"])
      then have "r ^ ?l = r ^ (?l - 1) * r" by (cases ?l) simp_all
      also have "\<dots> \<le> n div r * r" using IH(2) False by simp
      also have "\<dots> \<le> n" by simp
      finally show ?thesis .
    qed (use False in simp)
    ultimately show ?thesis unfolding len by simp
  qed simp
qed

lemma digit_text_length:
  assumes "2 \<le> r" "l = length (digit_text lc r n)"
  shows "n < r ^ l" "0 < l" "1 < l \<Longrightarrow> r ^ (l - 1) \<le> n"
proof -
  have "0 < n \<Longrightarrow> div_digits r n \<noteq> []" using assms(1) by (simp add: div_digits.simps [of r n])
  then show "n < r ^ l" "0 < l" "1 < l \<Longrightarrow> r ^ (l - 1) \<le> n"
    using div_digits_length [OF assms(1), of n] assms
    by (cases "n = 0"; auto simp: digit_text_def)+
qed

lemma minus_not_digit: "digits_ok radix str \<Longrightarrow> radix \<le> 16 \<Longrightarrow> str \<noteq> [] \<Longrightarrow> text_split str = (False, str)"
  by (cases str) (auto simp: digits_ok_def text_split_def HexDigitValue_def)

lemma minbits_no_wrap:
  assumes "l \<le> 255"
  shows "setStr_minbits False l 2 = int l" "setStr_minbits False l 8 = int l * 3"
    "setStr_minbits False l 16 = int l * 4" "setStr_minbits False l 10 = int l * 64 div 22"
proof -
  have "int l * 64 div 22 \<le> 4294967295" using assms by linarith
  then show "setStr_minbits False l 2 = int l" "setStr_minbits False l 8 = int l * 3"
    "setStr_minbits False l 16 = int l * 4" "setStr_minbits False l 10 = int l * 64 div 22"
    using assms by (simp_all add: setStr_minbits_def take_bit_int_eq_self)
qed

lemma power_bound:
  fixes n :: nat
  assumes "(2 ^ k) ^ m \<le> n" "n < 2 ^ 255"
  shows "k * m < 255"
proof -
  have "(2::nat) ^ (k * m) < 2 ^ 255" using assms by (simp add: power_mult)
  then show ?thesis by (rule power_less_imp_less_exp [rotated]) simp
qed

lemma printed_bits:
  assumes "base \<in> {2, 8, 10, 16}" "n < 2 ^ 255" "l = length (digit_text lc base n)"
    and "base = 10 \<Longrightarrow> n < 2 ^ 63 \<or> 10 ^ 21 \<le> n"
  shows "setStr_minbits False l base \<le> 256"
    "setStr_minbits False l base < 63 \<Longrightarrow> n < 2 ^ 63"
proof -
  have lo: "l \<le> 1 \<or> base ^ (l - 1) \<le> n" and hi: "n < base ^ l"
    using digit_text_length [of base l lc n] assms by force+
  have eight: "(8::nat) ^ (l - 1) \<le> 10 ^ (l - 1)" by (rule power_mono) simp_all
  have b: "base = 2 \<Longrightarrow> l \<le> 255" "base = 8 \<Longrightarrow> l \<le> 85" "base = 16 \<Longrightarrow> l \<le> 64" "base = 10 \<Longrightarrow> l \<le> 85"
    using lo power_bound [of 1 "l - 1" n] power_bound [of 3 "l - 1" n] power_bound [of 4 "l - 1" n] assms(2) eight
    by auto
  then have l: "l \<le> 255" using assms(1) by auto
  show "setStr_minbits False l base \<le> 256"
    using assms(1) b by (auto simp: minbits_no_wrap [OF l])
  have small: "n < 2 ^ 63" if "n < (2 ^ k) ^ l" "k * l \<le> 63" for k
  proof -
    have "(2::nat) ^ (k * l) \<le> 2 ^ 63" using that(2) by (rule power_increasing) simp
    then show ?thesis using that(1) by (simp add: power_mult)
  qed
  have ten: "n < 10 ^ 21" if "l \<le> 21" "base = 10"
    using that hi power_increasing [of l 21 "10::nat"] by simp
  have l21: "l \<le> 21" if "32 * int l div 11 < 63"
    using that by linarith
  show "n < 2 ^ 63" if "setStr_minbits False l base < 63"
    using that assms(1,4) hi small [of 1] small [of 3] small [of 4] ten l21
    by (auto simp: minbits_no_wrap [OF l])
qed

section \<open>Properties\<close>

text \<open>
  C27. A digit text is read to the number it denotes, sign included, whenever that number fits the accumulator which
  the estimate of its bits selects: a \<^verbatim>\<open>long long\<close> below 63 bits, in which case \<open>setStr\<close> returns true, and
  256 bits otherwise.  A text estimated at more than 256 bits is refused: \<open>setStr\<close> returns false and leaves the
  number alone.
\<close>

theorem setStr_correct:
  assumes "str \<noteq> []" "text_split str = (is_neg, ds)" "digits_ok radix ds" "radix \<le> 2 ^ 31" "0 < radix"
  shows "(256 < setStr_minbits is_neg (length ds) radix \<longrightarrow> setStr x str radix = Ret (False, x)) \<and>
    (setStr_minbits is_neg (length ds) radix \<le> 256 \<and>
       text_val radix ds < (if setStr_minbits is_neg (length ds) radix < 63 then 2 ^ 63 else 2 ^ 255) \<longrightarrow>
     (\<exists>ok r. setStr x str radix = Ret (ok, r) \<and> (setStr_minbits is_neg (length ds) radix < 63 \<longrightarrow> ok) \<and> wf_IntNum r \<and>
        intnum_val r = (if is_neg then - text_val radix ds else text_val radix ds)))"
  using setStr_value [OF assms, of x] setStr_refuses [OF assms(1,2,4), of x] by blast

theorem setStr_correct_witness:
  "\<exists>r. setStr (SV 0) ''-1f'' 16 = Ret (True, r) \<and> wf_IntNum r \<and> intnum_val r = -31"
  using setStr_correct [of "''-1f''" True "''1f''" 16 "SV 0"]
  by (auto simp: text_split_def digits_ok_def text_val_def be_val_def HexDigitValue_def
      setStr_minbits_def take_bit_int_eq_self)

text \<open>
  A text that the 256-bit accumulator reads makes \<open>setStr\<close> return false although nothing overflowed: it returns the
  overflow flag where it is documented to return false on overflow.
\<close>

lemma setStr_long_false:
  assumes "str \<noteq> []" "text_split str = (is_neg, ds)" "digits_ok radix ds" "radix \<le> 2 ^ 31" "0 < radix"
    and "63 \<le> setStr_minbits is_neg (length ds) radix" "setStr_minbits is_neg (length ds) radix \<le> 256" "text_val radix ds < 2 ^ 255"
  shows "\<exists>r. setStr x str radix = Ret (False, r) \<and> intnum_val r = (if is_neg then - text_val radix ds else text_val radix ds)"
  using setStr_value [OF assms(1-5,7), of x] assms(6,8) by auto

text \<open>
  C28. Printing and reading back: for a non-negative number in radix 2, 8 or 16, and in radix 10 for one
  below \<open>2 ^ 63\<close> or from \<open>10 ^ 21\<close> on, \<open>setStr\<close> applied to the output of \<open>getStr\<close> gives the number's
  value again.  The decimal numbers in between have 19 to 21 digits and are read with a \<^verbatim>\<open>long long\<close> that they
  overflow.
\<close>

theorem getStr_setStr:
  assumes "wf_IntNum x" "0 \<le> intnum_val x" "base \<in> {2, 8, 10, 16}"
    and "base = 10 \<Longrightarrow> intnum_val x < 2 ^ 63 \<or> 10 ^ 21 \<le> intnum_val x"
  shows "\<exists>str ok r. getStr x (int base) lc = Ret str \<and> setStr y str base = Ret (ok, r) \<and>
           intnum_val r = intnum_val x"
proof -
  obtain lc' where str: "getStr x (int base) lc = Ret (digit_text lc' base (nat (intnum_val x)))"
    using getStr_nonneg [OF assms(1-3)] by blast
  let ?n = "nat (intnum_val x)" let ?s = "digit_text lc' base ?n"
  have b: "2 \<le> base" "base \<le> 16" using assms(3) by auto
  note val = digit_text_val [OF b, of lc' ?n]
  have n: "?n < 2 ^ 255" using bv_range_val [OF assms(1)] assms(2) by (simp add: bv_range_def nat_less_iff)
  have ne: "?s \<noteq> []" using digit_text_length(2) [OF b(1) refl, of lc' ?n] by simp
  have split: "text_split ?s = (False, ?s)" using minus_not_digit [OF val(2) b(2) ne] .
  have ten: "base = 10 \<Longrightarrow> ?n < 2 ^ 63 \<or> 10 ^ 21 \<le> ?n"
    using assms(2,4) by auto
  note bits = printed_bits [OF assms(3) n refl ten, of lc']
  have "int ?n < (if setStr_minbits False (length ?s) base < 63 then 2 ^ 63 else 2 ^ 255)"
    using bits(2) n by (auto simp: nat_less_iff)
  then have "\<exists>ok r. setStr y ?s base = Ret (ok, r) \<and> wf_IntNum r \<and> intnum_val r = text_val base ?s"
    using setStr_value [OF ne split val(2), of y] bits(1) b unfolding val(1) by auto
  then show ?thesis using str val(1) assms(2) by auto
qed

theorem getStr_setStr_witness:
  "\<exists>str ok r. getStr (SV 1000000) (int 10) True = Ret str \<and> setStr (SV 0) str 10 = Ret (ok, r) \<and>
     intnum_val r = 1000000"
  using getStr_setStr [of "SV 1000000" 10 True "SV 0"] by (simp add: sv_range_def limits)

text \<open>
  The bit estimate of 64 bits per 22 decimal digits sends the 19-digit text of
  \<open>2 ^ 63\<close> to the short case, whose accumulator overflows.
\<close>

theorem setStr_19_digits: "setStr x ''9223372036854775808'' 10 = Undefined"
  by (simp add: setStr_def setStr_minbits_def HexDigitValue_def sv_range_def limits
      take_bit_int_eq_self)

text \<open>
  \<open>getStr\<close> writes the minus sign of a negative small value twice: it negates a copy but
  formats the original.
\<close>

theorem getStr_negative: "getStr (SV (-5)) 10 True = Ret ''--5''"
  by code_simp

end
