(* ===== verification/Bytes.thy ===== *)
theory Bytes
  imports IntNum_Calc
begin

text \<open>
  Byte buffers: \<^verbatim>\<open>Support/EndianState.h\<close>, \<^verbatim>\<open>Bytes.h\<close>, \<^verbatim>\<open>Bytes.cpp\<close>, \<^verbatim>\<open>Bytes_util.h\<close>,
  \<^verbatim>\<open>Bytes_util.cpp\<close> (writing) and \<^verbatim>\<open>InputBuffer.h\<close>, \<^verbatim>\<open>InputBuffer.cpp\<close> (reading).  The
  classes derive from \<^verbatim>\<open>EndianState\<close>, so their records extend its record.  A byte is an
  \<^typ>\<open>8 word\<close>, a \<^verbatim>\<open>size_t\<close> an integer reduced modulo \<open>2 ^ 64\<close>.  The exception of a read past
  the end is the failure \<^const>\<open>exc_out_of_range\<close>.
\<close>

unbundle bit_operations_syntax

type_synonym byte = "8 word"

section \<open>Endianness\<close>

record EndianState =
  m_bigendian :: bool

definition setBigEndian :: "'a EndianState_scheme \<Rightarrow> 'a EndianState_scheme" where
  "setBigEndian s = s\<lparr>m_bigendian := True\<rparr>"

definition setLittleEndian :: "'a EndianState_scheme \<Rightarrow> 'a EndianState_scheme" where
  "setLittleEndian s = s\<lparr>m_bigendian := False\<rparr>"

section \<open>Writing\<close>

record Bytes = EndianState +
  contents :: "byte list"

definition push_back :: "Bytes \<Rightarrow> byte \<Rightarrow> Bytes" where
  "push_back b v = b\<lparr>contents := contents b @ [v]\<rparr>"

definition Write_array :: "Bytes \<Rightarrow> byte list \<Rightarrow> Bytes" where
  "Write_array b buf = b\<lparr>contents := contents b @ buf\<rparr>"

fun Write_fill :: "Bytes \<Rightarrow> nat \<Rightarrow> byte \<Rightarrow> Bytes" where
  "Write_fill b 0 v = b"
| "Write_fill b (Suc n) v = Write_fill (push_back b v) n v"

text \<open>\<^verbatim>\<open>Bytes::swap\<close> exchanges the object with itself and leaves its argument alone.\<close>

definition Bytes_swap :: "Bytes \<Rightarrow> Bytes \<Rightarrow> Bytes \<times> Bytes" where
  "Bytes_swap this oth = (this, oth)"

text \<open>\<open>byte_at val i\<close> is \<^verbatim>\<open>(unsigned char)((val >> i) & 0xFF)\<close>.\<close>

definition byte_at :: "int \<Rightarrow> nat \<Rightarrow> byte" where
  "byte_at val i = word_of_int (drop_bit i val)"

definition Write8 :: "Bytes \<Rightarrow> int \<Rightarrow> Bytes" where
  "Write8 b val = push_back b (byte_at val 0)"

definition Write16 :: "Bytes \<Rightarrow> int \<Rightarrow> Bytes" where
  "Write16 b val =
     (if m_bigendian b then push_back (push_back b (byte_at val 8)) (byte_at val 0)
      else push_back (push_back b (byte_at val 0)) (byte_at val 8))"

definition Write32 :: "Bytes \<Rightarrow> int \<Rightarrow> Bytes" where
  "Write32 b val =
     (if m_bigendian b
      then push_back (push_back (push_back (push_back b
             (byte_at val 24)) (byte_at val 16)) (byte_at val 8)) (byte_at val 0)
      else push_back (push_back (push_back (push_back b
             (byte_at val 0)) (byte_at val 8)) (byte_at val 16)) (byte_at val 24))"

definition Write8_IntNum :: "Bytes \<Rightarrow> IntNum \<Rightarrow> Bytes outcome" where
  "Write8_IntNum b intn = bind_out (Extract intn 8 0) (\<lambda>v. Ret (push_back b (byte_at v 0)))"

definition Write16_IntNum :: "Bytes \<Rightarrow> IntNum \<Rightarrow> Bytes outcome" where
  "Write16_IntNum b intn = bind_out (Extract intn 16 0) (\<lambda>v. Ret (Write16 b v))"

definition Write32_IntNum :: "Bytes \<Rightarrow> IntNum \<Rightarrow> Bytes outcome" where
  "Write32_IntNum b intn = bind_out (Extract intn 32 0) (\<lambda>v. Ret (Write32 b v))"

definition Write64_IntNum :: "Bytes \<Rightarrow> IntNum \<Rightarrow> Bytes outcome" where
  "Write64_IntNum b intn =
     bind_out (Extract intn 32 0) (\<lambda>low.
     bind_out (Extract intn 32 32) (\<lambda>high.
       Ret (if m_bigendian b then Write32 (Write32 b high) low else Write32 (Write32 b low) high)))"

definition Write64I :: "Bytes \<Rightarrow> int \<Rightarrow> Bytes" where
  "Write64I b val =
     (let low = val; high = drop_bit 32 val in
      if m_bigendian b then Write32 (Write32 b high) low else Write32 (Write32 b low) high)"

text \<open>
  The general case of \<open>WriteN\<close> reads the 64-bit words of the number's vector, or, when the
  vector is narrower than \<^verbatim>\<open>n*8\<close>, of its sign extension to that many bits; both are the words
  of the signed value.  \<open>le_loop\<close> and \<open>be_loop\<close> are the two halves of the conditional.
\<close>

definition word_at :: "bitvect \<Rightarrow> nat \<Rightarrow> int" where
  "word_at bv w = to_u64 (drop_bit (64 * w) (sint bv))"

definition WriteN_nwords :: "int \<Rightarrow> nat" where
  "WriteN_nwords n = (if 256 < to_u32 (n * 8) then nat ((to_u32 (n * 8) + 63) div 64) else 4)"

fun WriteN_bytes :: "Bytes \<Rightarrow> int \<Rightarrow> nat \<Rightarrow> Bytes" where
  "WriteN_bytes b lst 0 = b"
| "WriteN_bytes b lst (Suc k) = WriteN_bytes (push_back b (byte_at lst 0)) (drop_bit 8 lst) k"

fun WriteN_words :: "Bytes \<Rightarrow> bitvect \<Rightarrow> nat \<Rightarrow> nat \<Rightarrow> Bytes" where
  "WriteN_words b bv w 0 = b"
| "WriteN_words b bv w (Suc k) = WriteN_words (Write64I b (word_at bv w)) bv (w + 1) k"

definition WriteN_le :: "Bytes \<Rightarrow> bitvect \<Rightarrow> int \<Rightarrow> Bytes" where
  "WriteN_le b bv n =
     (let whole = nat (n div 64); rest = nat ((n mod 64) div 8) in
      if n \<le> 0 then b
      else WriteN_bytes (WriteN_words b bv 0 whole) (word_at bv whole) rest)"

fun WriteN_words_down :: "Bytes \<Rightarrow> bitvect \<Rightarrow> nat \<Rightarrow> nat \<Rightarrow> Bytes" where
  "WriteN_words_down b bv w 0 = b"
| "WriteN_words_down b bv w (Suc k) = WriteN_words_down (Write64I b (word_at bv w)) bv (w - 1) k"

definition WriteN_be :: "Bytes \<Rightarrow> bitvect \<Rightarrow> int \<Rightarrow> Bytes" where
  "WriteN_be b bv n =
     (let nwords = WriteN_nwords n; rest = nat ((n mod 64) div 8);
          lst = word_at bv (nwords - 1);
          b1 = (if n mod 64 \<noteq> 0
                then Write_array b (List.map (\<lambda>k. byte_at lst (8 * (rest - k))) [0..<rest + 1]) else b);
          i = (if n mod 64 \<noteq> 0 then n - n mod 64 - 8 else n)
      in WriteN_words_down b1 bv (nwords - 2) (nat (i div 64)))"

definition WriteN_IntNum :: "Bytes \<Rightarrow> IntNum \<Rightarrow> int \<Rightarrow> Bytes outcome" where
  "WriteN_IntNum b intn n =
     (if n mod 8 \<noteq> 0 \<or> \<bar>n\<bar> \<ge> 2 ^ 28 then Undefined
      else if n = 8 then Write8_IntNum b intn
      else if n = 16 then Write16_IntNum b intn
      else if n = 32 then Write32_IntNum b intn
      else if n = 64 then Write64_IntNum b intn
      else Ret (if m_bigendian b then WriteN_be b (getBV intn) n else WriteN_le b (getBV intn) n))"

text \<open>A shift of the 64-bit value by 64 or more is undefined.\<close>

definition WriteN :: "Bytes \<Rightarrow> int \<Rightarrow> int \<Rightarrow> Bytes outcome" where
  "WriteN b val n =
     (if n mod 8 \<noteq> 0 \<or> n > 64 then Undefined
      else
        let les = List.map (\<lambda>k. byte_at val (8 * k)) [0..<nat (n div 8)] in
        Ret (Write_array b (if m_bigendian b then rev les else les)))"

section \<open>Reading\<close>

record InputBuffer = EndianState +
  m_data :: "byte list"
  m_pos :: int

definition getReadableSize :: "InputBuffer \<Rightarrow> int" where
  "getReadableSize i =
     (if m_pos i > int (length (m_data i)) then 0 else int (length (m_data i)) - m_pos i)"

definition Read :: "InputBuffer \<Rightarrow> int \<Rightarrow> (byte list \<times> InputBuffer) outcome" where
  "Read i n =
     (let oldpos = m_pos i; newpos = to_u64 (oldpos + n) in
      if newpos > int (length (m_data i)) then Fail exc_out_of_range
      else if oldpos > int (length (m_data i)) \<or> oldpos + n > int (length (m_data i)) then Undefined
      else Ret (take (nat n) (drop (nat oldpos) (m_data i)), i\<lparr>m_pos := newpos\<rparr>))"

definition read_byte :: "byte list \<Rightarrow> nat \<Rightarrow> int" where
  "read_byte ptr k = uint (ptr ! k)"

definition ReadU8 :: "InputBuffer \<Rightarrow> (int \<times> InputBuffer) outcome" where
  "ReadU8 i = bind_out (Read i 1) (\<lambda>(ptr, i'). Ret (read_byte ptr 0, i'))"

definition ReadS8 :: "InputBuffer \<Rightarrow> (int \<times> InputBuffer) outcome" where
  "ReadS8 i = bind_out (ReadU8 i) (\<lambda>(val, i').
     Ret (if val AND 128 \<noteq> 0 then signed_take_bit 7 (- signed_take_bit 7 (NOT val + 1))
          else signed_take_bit 7 val, i'))"

definition ReadU16 :: "InputBuffer \<Rightarrow> (int \<times> InputBuffer) outcome" where
  "ReadU16 i = bind_out (Read i 2) (\<lambda>(ptr, i').
     Ret (if m_bigendian i' then push_bit 8 (read_byte ptr 0) OR read_byte ptr 1
          else push_bit 8 (read_byte ptr 1) OR read_byte ptr 0, i'))"

definition ReadS16 :: "InputBuffer \<Rightarrow> (int \<times> InputBuffer) outcome" where
  "ReadS16 i = bind_out (ReadU16 i) (\<lambda>(val, i').
     Ret (if val AND 32768 \<noteq> 0 then signed_take_bit 15 (- signed_take_bit 15 (NOT val + 1))
          else signed_take_bit 15 val, i'))"

definition ReadU32 :: "InputBuffer \<Rightarrow> (int \<times> InputBuffer) outcome" where
  "ReadU32 i = bind_out (Read i 4) (\<lambda>(ptr, i').
     Ret (if m_bigendian i'
          then push_bit 8 (push_bit 8 (push_bit 8 (read_byte ptr 0) OR read_byte ptr 1)
                 OR read_byte ptr 2) OR read_byte ptr 3
          else push_bit 8 (push_bit 8 (push_bit 8 (read_byte ptr 3) OR read_byte ptr 2)
                 OR read_byte ptr 1) OR read_byte ptr 0, i'))"

text \<open>\<^verbatim>\<open>ReadS32\<close> complements and negates in the 64-bit \<^verbatim>\<open>unsigned long\<close> and \<^verbatim>\<open>long\<close>.\<close>

definition ReadS32 :: "InputBuffer \<Rightarrow> (int \<times> InputBuffer) outcome" where
  "ReadS32 i = bind_out (ReadU32 i) (\<lambda>(val, i').
     Ret (if val AND 2147483648 \<noteq> 0 then - to_s64 (to_u64 (to_u64 (NOT val) + 1))
          else to_s64 val, i'))"

definition ReadU64I :: "InputBuffer \<Rightarrow> (int \<times> InputBuffer) outcome" where
  "ReadU64I i =
     bind_out (ReadU32 i) (\<lambda>(first, i1).
     bind_out (ReadU32 i1) (\<lambda>(second, i2).
       Ret (if m_bigendian i then push_bit 32 first OR second else push_bit 32 second OR first, i2)))"

text \<open>
  The loops of \<open>ReadN\<close>.  In the little-endian half the rest bytes are shifted by their bit
  position in the whole number, which is out of range from the second word on; in the
  big-endian half the bytes of the most significant word are read and dropped, and the word
  index starts at \<^verbatim>\<open>nwords-2\<close>, outside the array when there is one word only.
\<close>

fun ReadN_words :: "InputBuffer \<Rightarrow> nat \<Rightarrow> (int list \<times> InputBuffer) outcome" where
  "ReadN_words i 0 = Ret ([], i)"
| "ReadN_words i (Suc k) =
     bind_out (ReadU64I i) (\<lambda>(v, i1).
     bind_out (ReadN_words i1 k) (\<lambda>(vs, i2). Ret (v # vs, i2)))"

fun ReadN_bytes :: "InputBuffer \<Rightarrow> nat \<Rightarrow> nat \<Rightarrow> int \<Rightarrow> (int \<times> InputBuffer) outcome" where
  "ReadN_bytes i bitpos 0 lst = Ret (lst, i)"
| "ReadN_bytes i bitpos (Suc k) lst =
     bind_out (ReadU8 i) (\<lambda>(v, i1).
       if bitpos \<ge> 64 then Undefined
       else ReadN_bytes i1 (bitpos + 8) k (lst OR to_u64 (push_bit bitpos v)))"

definition ReadN_le :: "InputBuffer \<Rightarrow> nat \<Rightarrow> (int list \<times> InputBuffer) outcome" where
  "ReadN_le i n =
     bind_out (ReadN_words i (n div 64)) (\<lambda>(ws, i1).
       if n mod 64 = 0 then Ret (ws, i1)
       else bind_out (ReadN_bytes i1 (64 * (n div 64)) (n mod 64 div 8) 0) (\<lambda>(lst, i2).
         Ret (ws @ [lst], i2)))"

fun ReadN_drop :: "InputBuffer \<Rightarrow> nat \<Rightarrow> InputBuffer outcome" where
  "ReadN_drop i 0 = Ret i"
| "ReadN_drop i (Suc k) = bind_out (ReadU8 i) (\<lambda>(v, i1). ReadN_drop i1 k)"

definition ReadN_be :: "InputBuffer \<Rightarrow> nat \<Rightarrow> (int list \<times> InputBuffer) outcome" where
  "ReadN_be i n =
     (let nwords = (n + 63) div 64; rest = n mod 64;
          count = (if rest \<noteq> 0 then (n - rest - 8) div 64 else n div 64) in
      bind_out (if rest \<noteq> 0 then ReadN_drop i (rest div 8 + 1) else Ret i) (\<lambda>i1.
        if count > nwords - 1 then bind_out (ReadN_words i1 (nwords - 1)) (\<lambda>_. Undefined)
        else bind_out (ReadN_words i1 count) (\<lambda>(ws, i2).
          Ret (replicate (nwords - 1 - count) 0 @ rev ws @ [0], i2))))"

definition ReadN :: "InputBuffer \<Rightarrow> int \<Rightarrow> bool \<Rightarrow> (IntNum \<times> InputBuffer) outcome" where
  "ReadN i n is_signed =
     (let ret = (\<lambda>r. bind_out r (\<lambda>(v, i'). Ret ((if is_signed then set_s v else set_u v), i')));
          nn = nat n in
      if n mod 8 \<noteq> 0 \<or> n > int BITVECT_NATIVE_SIZE \<or> n \<le> 0 then Undefined
      else if n = 8 then ret (if is_signed then ReadS8 i else ReadU8 i)
      else if n = 16 then ret (if is_signed then ReadS16 i else ReadU16 i)
      else if n = 32 then ret (if is_signed then ReadS32 i else ReadU32 i)
      else
        bind_out (if m_bigendian i then ReadN_be i nn else ReadN_le i nn) (\<lambda>(words, i').
          let raw = take_bit nn (le_val (2 ^ 64) words) in
          Ret (setBV (if is_signed then signed_take_bit (nn - 1) raw else raw), i')))"

definition ReadUnsigned :: "InputBuffer \<Rightarrow> int \<Rightarrow> (IntNum \<times> InputBuffer) outcome" where
  "ReadUnsigned i n = ReadN i n False"

definition ReadSigned :: "InputBuffer \<Rightarrow> int \<Rightarrow> (IntNum \<times> InputBuffer) outcome" where
  "ReadSigned i n = ReadN i n True"

definition ReadU64 :: "InputBuffer \<Rightarrow> (IntNum \<times> InputBuffer) outcome" where
  "ReadU64 i = ReadN i 64 False"

definition ReadS64 :: "InputBuffer \<Rightarrow> (IntNum \<times> InputBuffer) outcome" where
  "ReadS64 i = ReadN i 64 True"

section \<open>Specification\<close>

text \<open>
  \<open>enc big n v\<close> is the \<open>n\<close>-byte two's complement encoding of a number, \<open>holds_at i bs\<close> that the
  unread part of a buffer begins with given bytes.  \<open>writeN_ok\<close> and \<open>readN_ok\<close> are the widths
  for which the general routines are meant to work and do.
\<close>

definition enc :: "bool \<Rightarrow> nat \<Rightarrow> int \<Rightarrow> byte list" where
  "enc big n v = (let les = List.map (\<lambda>k. byte_at v (8 * k)) [0..<n] in if big then rev les else les)"

definition writeN_ok :: "bool \<Rightarrow> int \<Rightarrow> bool" where
  "writeN_ok big n \<longleftrightarrow> 0 \<le> n \<and> n < 2 ^ 28 \<and> n mod 8 = 0 \<and> (big \<longrightarrow> n \<in> {8, 16, 32, 64})"

definition readN_ok :: "bool \<Rightarrow> int \<Rightarrow> bool \<Rightarrow> bool" where
  "readN_ok big n is_signed \<longleftrightarrow> 0 < n \<and> n \<le> 256 \<and> n mod 8 = 0 \<and> (n < 64 \<or> n mod 64 = 0) \<and>
     (big \<longrightarrow> n \<in> {8, 16, 32}) \<and> (\<not> is_signed \<longrightarrow> n \<noteq> 256)"

definition holds_at :: "InputBuffer \<Rightarrow> byte list \<Rightarrow> bool" where
  "holds_at i bs \<longleftrightarrow> 0 \<le> m_pos i \<and> int (length (m_data i)) \<le> ULONG_MAX \<and>
     (\<exists>post. drop (nat (m_pos i)) (m_data i) = bs @ post) \<and> nat (m_pos i) \<le> length (m_data i)"

definition advance :: "InputBuffer \<Rightarrow> nat \<Rightarrow> InputBuffer" where
  "advance i n = i\<lparr>m_pos := m_pos i + int n\<rparr>"

definition reader_of :: "Bytes \<Rightarrow> InputBuffer" where
  "reader_of b = \<lparr>m_bigendian = m_bigendian b, m_data = contents b, m_pos = 0\<rparr>"

fun read_seq :: "(InputBuffer \<Rightarrow> (int \<times> InputBuffer) outcome) \<Rightarrow> nat \<Rightarrow> InputBuffer \<Rightarrow> (int list \<times> InputBuffer) outcome" where
  "read_seq get 0 i = Ret ([], i)"
| "read_seq get (Suc n) i =
     bind_out (get i) (\<lambda>(v, i1). bind_out (read_seq get n i1) (\<lambda>(vs, i2). Ret (v # vs, i2)))"

section \<open>Lemmas\<close>

lemma length_enc [simp]: "length (enc big n v) = n"
  by (simp add: enc_def Let_def)

lemma uint_byte_at: "uint (byte_at v i) = to_u8 (drop_bit i v)"
  by (simp add: byte_at_def uint_word_of_int_eq)

lemma byte_at_drop: "byte_at (drop_bit j v) i = byte_at v (i + j)"
  by (simp add: byte_at_def ac_simps)

lemma byte_at_take: "i + 8 \<le> n \<Longrightarrow> byte_at (take_bit n v) i = byte_at v i"
  by (rule bit_word_eqI) (auto simp: byte_at_def bit_simps)

lemma enc_le_Suc: "enc False (Suc n) v = byte_at v 0 # enc False n (drop_bit 8 v)"
  by (simp add: enc_def Let_def upt_conv_Cons byte_at_drop o_def add.commute del: upt_Suc
      flip: map_Suc_upt)

lemma enc_le_add: "enc False (m + n) v = enc False m v @ enc False n (drop_bit (8 * m) v)"
  by (induction m arbitrary: v) (simp_all add: enc_le_Suc add.commute, simp add: enc_def)

lemma enc_le_take: "8 * n \<le> k \<Longrightarrow> enc False n (take_bit k v) = enc False n v"
  by (auto simp: enc_def Let_def byte_at_take)

lemma enc_big: "enc True n v = rev (enc False n v)"
  by (simp add: enc_def)

lemma enc_value: "le_val 256 (List.map uint (enc False n v)) = take_bit (8 * n) v"
proof (induction n arbitrary: v)
  case (Suc n)
  have "take_bit (8 * Suc n) v = to_u8 v + 256 * take_bit (8 * n) (drop_bit 8 v)"
    using zmod_zmult2_eq [of "2 ^ (8 * n)" v 256]
    by (simp add: take_bit_eq_mod drop_bit_eq_div power_add)
  then show ?case using Suc by (simp add: enc_le_Suc uint_byte_at)
qed (simp add: enc_def)

lemma Write_enc:
  "contents (Write8 b v) = contents b @ enc (m_bigendian b) 1 v"
  "contents (Write16 b v) = contents b @ enc (m_bigendian b) 2 v"
  "contents (Write32 b v) = contents b @ enc (m_bigendian b) 4 v"
  by (simp_all add: Write8_def Write16_def Write32_def push_back_def enc_def Let_def upt_conv_Cons)

lemma Write_endian [simp]:
  "m_bigendian (push_back b u) = m_bigendian b"
  "m_bigendian (Write8 b v) = m_bigendian b"
  "m_bigendian (Write16 b v) = m_bigendian b"
  "m_bigendian (Write32 b v) = m_bigendian b"
  by (simp_all add: Write8_def Write16_def Write32_def push_back_def)

lemma Write64I_enc:
  "contents (Write64I b v) = contents b @ enc (m_bigendian b) 8 v" "m_bigendian (Write64I b v) = m_bigendian b"
  using enc_le_add [of 4 4 v] by (simp_all add: Write64I_def Let_def Write_enc enc_big)

lemma WriteN_bytes_enc:
  "contents (WriteN_bytes b v k) = contents b @ enc False k v" "m_bigendian (WriteN_bytes b v k) = m_bigendian b"
  by (induction k arbitrary: b v) (simp_all add: enc_le_Suc push_back_def, simp add: enc_def)

lemma WriteN_words_enc:
  "\<not> m_bigendian b \<Longrightarrow> contents (WriteN_words b bv w k) = contents b @ enc False (8 * k) (drop_bit (64 * w) (sint bv))"
  "m_bigendian (WriteN_words b bv w k) = m_bigendian b"
proof (induction k arbitrary: b w)
  case (Suc k)
  { case 1
    then have b: "\<not> m_bigendian (Write64I b (word_at bv w))" by (simp add: Write64I_enc)
    have "enc False (8 * Suc k) (drop_bit (64 * w) (sint bv)) =
        enc False 8 (drop_bit (64 * w) (sint bv)) @ enc False (8 * k) (drop_bit 64 (drop_bit (64 * w) (sint bv)))"
      using enc_le_add [of 8 "8 * k"] by simp
    then show ?case
      using Suc(1) [OF b] 1 by (simp add: Write64I_enc word_at_def enc_le_take ac_simps)
  next
    case 2
    then show ?case using Suc(2) by (simp add: Write64I_enc)
  }
qed (simp_all add: enc_def)

lemma WriteN_le_enc:
  assumes "\<not> m_bigendian b" "0 \<le> n" "n mod 8 = 0"
  shows "contents (WriteN_le b bv n) = contents b @ enc False (nat (n div 8)) (sint bv)"
    "m_bigendian (WriteN_le b bv n) = m_bigendian b"
proof -
  let ?w = "nat (n div 64)" and ?r = "nat (n mod 64 div 8)"
  from assms(3) obtain m where m: "n = 8 * m" by auto
  have "n div 64 = m div 8" "n mod 64 = 8 * (m mod 8)"
    using div_mult_mult1 [of 8 m 8] mod_mult_mult1 [of 8 m 8] by (simp_all add: m)
  then have "n div 8 = 8 * (n div 64) + n mod 64 div 8" by (simp add: m)
  then have len: "nat (n div 8) = 8 * ?w + ?r" using assms(2) by (simp add: nat_add_distrib nat_mult_distrib)
  have r: "8 * ?r \<le> 64" by simp
  show "contents (WriteN_le b bv n) = contents b @ enc False (nat (n div 8)) (sint bv)"
    using assms(1,2) enc_le_take [OF r, of "drop_bit (64 * ?w) (sint bv)"]
    unfolding len enc_le_add
    by (auto simp: WriteN_le_def Let_def WriteN_bytes_enc WriteN_words_enc word_at_def enc_def) 
  show "m_bigendian (WriteN_le b bv n) = m_bigendian b"
    by (simp add: WriteN_le_def Let_def WriteN_bytes_enc WriteN_words_enc)
qed
lemma Extract_low:
  assumes "wf_IntNum x" "width \<le> 32" "lsb \<le> 32"
  shows "Extract x width lsb = Ret (take_bit width (drop_bit lsb (intnum_val x)))"
  by (rule Extract_value) (use assms in \<open>auto split: IntNum.splits\<close>)

lemma Write_cong:
  "Write16 b (take_bit 16 v) = Write16 b v" "Write32 b (take_bit 32 v) = Write32 b v"
  "byte_at (take_bit 8 v) 0 = byte_at v 0"
  by (simp_all add: Write16_def Write32_def byte_at_take)

lemma WriteN_fixed:
  assumes "wf_IntNum x"
  shows "Write8_IntNum b x = Ret (Write8 b (intnum_val x))" "Write16_IntNum b x = Ret (Write16 b (intnum_val x))"
    "Write32_IntNum b x = Ret (Write32 b (intnum_val x))" "Write64_IntNum b x = Ret (Write64I b (intnum_val x))"
  using assms
  by (simp_all add: Write8_IntNum_def Write16_IntNum_def Write32_IntNum_def Write64_IntNum_def
     Extract_low Write_cong Write8_def Write64I_def Let_def)

lemma WriteN_IntNum_value:
  assumes "wf_IntNum x" "writeN_ok (m_bigendian b) n"
  shows "\<exists>b'. WriteN_IntNum b x n = Ret b' \<and> m_bigendian b' = m_bigendian b \<and>
     contents b' = contents b @ enc (m_bigendian b) (nat (n div 8)) (intnum_val x)"
proof (cases "n \<in> {8, 16, 32, 64}")
  case True
  then show ?thesis using assms(1)
    by (auto simp: WriteN_IntNum_def WriteN_fixed Write_enc Write64I_enc)
next
  case False
  then show ?thesis
    using assms WriteN_le_enc [of b n "getBV x"] by (auto simp: WriteN_IntNum_def writeN_ok_def)
qed

lemma WriteN_value:
  assumes "n mod 8 = 0" "n \<le> 64"
  shows "WriteN b v n = Ret (b\<lparr>contents := contents b @ enc (m_bigendian b) (nat (n div 8)) v\<rparr>)"
  using assms by (auto simp: WriteN_def Write_array_def enc_def Let_def)


lemma advance_simps [simp]:
  "m_bigendian (advance i n) = m_bigendian i" "m_data (advance i n) = m_data i" "m_pos (advance i n) = m_pos i + int n"
  "advance i 0 = i" "advance (advance i m) n = advance i (m + n)"
  by (simp_all add: advance_def)

lemma holds_at_length: "holds_at i bs \<Longrightarrow> m_pos i + int (length bs) \<le> int (length (m_data i))"
  unfolding holds_at_def by (auto dest!: arg_cong [of _ _ length])

lemma holds_at_append: "holds_at i (bs @ cs) \<longleftrightarrow> holds_at i bs \<and> holds_at (advance i (length bs)) cs"
proof
  assume a: "holds_at i (bs @ cs)"
  then obtain post where "drop (nat (m_pos i)) (m_data i) = bs @ cs @ post"
    by (auto simp: holds_at_def)
  then have "drop (nat (m_pos i) + length bs) (m_data i) = cs @ post"
    by (metis append_eq_conv_conj drop_drop add.commute)
  then show "holds_at i bs \<and> holds_at (advance i (length bs)) cs"
    using a holds_at_length [OF a] by (auto simp: holds_at_def nat_add_distrib)
next
  assume a: "holds_at i bs \<and> holds_at (advance i (length bs)) cs"
  then obtain post post' where *: "drop (nat (m_pos i)) (m_data i) = bs @ post"
      "drop (nat (m_pos i) + length bs) (m_data i) = cs @ post'"
    by (auto simp: holds_at_def nat_add_distrib)
  then have "post = cs @ post'" by (metis append_eq_conv_conj drop_drop add.commute)
  then show "holds_at i (bs @ cs)" using a * by (auto simp: holds_at_def)
qed

lemma Read_value:
  assumes "holds_at i bs" "n = int (length bs)"
  shows "Read i n = Ret (bs, advance i (length bs))"
proof -
  have le: "m_pos i + int (length bs) \<le> int (length (m_data i))" using assms holds_at_length by blast
  moreover have "to_u64 (m_pos i + n) = m_pos i + n"
    using le assms by (intro to_u64_id) (auto simp: holds_at_def)
  ultimately show ?thesis using assms by (auto simp: Read_def advance_def holds_at_def)
qed

lemma push_or: "0 \<le> b \<Longrightarrow> b < 2 ^ k \<Longrightarrow> push_bit k a OR b = 2 ^ k * a + (b :: int)"
proof -
  assume "0 \<le> b" "b < 2 ^ k"
  then have "take_bit k b = b" by (simp add: take_bit_int_eq_self)
  then have "push_bit k a AND b = 0"
    by (metis (no_types, lifting) bit_and_iff bit_eq_iff bit_push_bit_iff bit_take_bit_iff bit_0_eq bot_apply
        bot_bool_def not_le)
  then show ?thesis by (simp add: disjunctive_add_eq_or [symmetric] push_bit_eq_mult)
qed

lemma uint_byte_bounds: "0 \<le> uint (u :: byte)" "uint u < 256"
  using uint_lt2p [of u] by simp_all

lemma ReadU8_value: "holds_at i [u] \<Longrightarrow> ReadU8 i = Ret (uint u, advance i 1)"
  using Read_value [of i "[u]"] by (simp add: ReadU8_def read_byte_def)

lemma ReadU16_value:
  assumes "holds_at i bs" "length bs = 2"
  shows "ReadU16 i = Ret (le_val 256 (List.map uint (if m_bigendian i then rev bs else bs)), advance i 2)"
proof -
  obtain a b where "bs = [a, b]" using assms(2) by (auto simp: length_Suc_conv numeral_2_eq_2)
  then show ?thesis using assms Read_value [of i bs] uint_byte_bounds push_or [where k = 8]
    by (simp add: ReadU16_def read_byte_def)
qed

lemma ReadU32_value:
  assumes "holds_at i bs" "length bs = 4"
  shows "ReadU32 i = Ret (le_val 256 (List.map uint (if m_bigendian i then rev bs else bs)), advance i 4)"
proof -
  obtain a b c d where "bs = [a, b, c, d]"
    using assms(2) by (auto simp: length_Suc_conv eval_nat_numeral)
  then show ?thesis using assms Read_value [of i bs] uint_byte_bounds push_or [where k = 8]
    by (simp add: ReadU32_def read_byte_def)
qed


section \<open>Fixed-width codecs\<close>

text \<open>
  A fixed-width codec appends the encoding of a value and reads it back, whatever surrounds
  it.  Any sequence of values written with it is then read back in order; the laws are
  discharged for the 8, 16, 32 and 64-bit routines.
\<close>

locale byte_codec =
  fixes put :: "Bytes \<Rightarrow> int \<Rightarrow> Bytes"
    and get :: "InputBuffer \<Rightarrow> (int \<times> InputBuffer) outcome"
    and width :: nat
  assumes write_enc: "contents (put b v) = contents b @ enc (m_bigendian b) width v"
    and write_endian: "m_bigendian (put b v) = m_bigendian b"
    and read_enc: "holds_at i (enc (m_bigendian i) width v) \<Longrightarrow>
      get i = Ret (take_bit (8 * width) v, advance i width)"
begin

lemma write_all:
  "contents (foldl put b vs) = contents b @ concat (List.map (enc (m_bigendian b) width) vs)"
  "m_bigendian (foldl put b vs) = m_bigendian b"
  by (induction vs arbitrary: b) (simp_all add: write_enc write_endian)

lemma read_all:
  "holds_at i (concat (List.map (enc (m_bigendian i) width) vs)) \<Longrightarrow>
   read_seq get (length vs) i = Ret (List.map (take_bit (8 * width)) vs, advance i (width * length vs))"
proof (induction vs arbitrary: i)
  case (Cons v vs)
  then have "holds_at i (enc (m_bigendian i) width v)"
    and rest: "holds_at (advance i width) (concat (List.map (enc (m_bigendian i) width) vs))"
    by (simp_all add: holds_at_append)
  then show ?case using Cons.IH [of "advance i width"] by (simp add: read_enc)
qed simp

lemma round_trip:
  assumes "contents b = []" "int (width * length vs) \<le> ULONG_MAX"
  shows "\<exists>i. read_seq get (length vs) (reader_of (foldl put b vs)) =
     Ret (List.map (take_bit (8 * width)) vs, i)"
proof -
  have len: "length (concat (List.map (enc e width) vs)) = width * length vs" for e
    by (induction vs) simp_all
  show ?thesis
    using read_all [of "reader_of (foldl put b vs)" vs] assms
    by (simp add: reader_of_def write_all holds_at_def len)
qed

end

lemma le_val_enc_endian: "le_val 256 (List.map uint (if e then rev (enc e n v) else enc e n v)) = take_bit (8 * n) v"
  using enc_value [of n v] by (simp add: enc_big)

interpretation codec8: byte_codec Write8 ReadU8 1
proof
  fix i v
  assume "holds_at i (enc (m_bigendian i) 1 v)"
  moreover have "enc (m_bigendian i) 1 v = [byte_at v 0]" by (simp add: enc_def Let_def)
  ultimately show "ReadU8 i = Ret (take_bit (8 * 1) v, advance i 1)"
    using ReadU8_value [of i "byte_at v 0"] by (simp add: uint_byte_at)
qed (simp_all add: Write_enc)

interpretation codec16: byte_codec Write16 ReadU16 2
proof
  fix i v
  assume "holds_at i (enc (m_bigendian i) 2 v)"
  then show "ReadU16 i = Ret (take_bit (8 * 2) v, advance i 2)"
    using ReadU16_value [of i "enc (m_bigendian i) 2 v"] le_val_enc_endian [of "m_bigendian i" 2 v] by simp
qed (simp_all add: Write_enc)

interpretation codec32: byte_codec Write32 ReadU32 4
proof
  fix i v
  assume "holds_at i (enc (m_bigendian i) 4 v)"
  then show "ReadU32 i = Ret (take_bit (8 * 4) v, advance i 4)"
    using ReadU32_value [of i "enc (m_bigendian i) 4 v"] le_val_enc_endian [of "m_bigendian i" 4 v] by simp
qed (simp_all add: Write_enc)

lemma ReadU64I_value:
  assumes "holds_at i (enc (m_bigendian i) 8 v)"
  shows "ReadU64I i = Ret (to_u64 v, advance i 8)"
proof -
  have split: "enc False 8 v = enc False 4 v @ enc False 4 (drop_bit 32 v)"
    using enc_le_add [of 4 4 v] by simp
  have sum: "push_bit 32 (take_bit 32 (drop_bit 32 v)) OR take_bit 32 v = to_u64 v"
    by (rule bit_eqI) (auto simp: bit_simps)
  show ?thesis
    using assms codec32.read_enc [of i v] codec32.read_enc [of i "drop_bit 32 v"]
      codec32.read_enc [of "advance i 4" v] codec32.read_enc [of "advance i 4" "drop_bit 32 v"] sum
    by (cases "m_bigendian i") (simp_all add: ReadU64I_def enc_big split holds_at_append)
qed

interpretation codec64: byte_codec Write64I ReadU64I 8
  by unfold_locales (simp_all add: Write64I_enc ReadU64I_value)

lemma ReadN_words_value:
  assumes "\<not> m_bigendian i" "holds_at i (enc False (8 * k) v)"
  shows "\<exists>ws. ReadN_words i k = Ret (ws, advance i (8 * k)) \<and> le_val (2 ^ 64) ws = take_bit (64 * k) v \<and> length ws = k"
  using assms
proof (induction k arbitrary: i v)
  case (Suc k)
  have "enc False (8 * Suc k) v = enc False 8 v @ enc False (8 * k) (drop_bit 64 v)"
    using enc_le_add [of 8 "8 * k" v] by simp
  then have h: "holds_at i (enc False 8 v)" "holds_at (advance i 8) (enc False (8 * k) (drop_bit 64 v))"
    using Suc.prems by (simp_all add: holds_at_append)
  obtain ws where "ReadN_words (advance i 8) k = Ret (ws, advance i (8 + 8 * k))"
      "le_val (2 ^ 64) ws = take_bit (64 * k) (drop_bit 64 v)" "length ws = k"
    using Suc.IH [OF _ h(2)] Suc.prems by auto
  moreover have "take_bit (64 * Suc k) v = to_u64 v + 2 ^ 64 * take_bit (64 * k) (drop_bit 64 v)"
    using zmod_zmult2_eq [of "2 ^ (64 * k)" v "2 ^ 64"]
    by (simp add: take_bit_eq_mod drop_bit_eq_div power_add)
  ultimately show ?case
    using ReadU64I_value [of i v] h(1) Suc.prems(1) by simp
qed simp

lemma ReadN_bytes_value:
  assumes "\<not> m_bigendian i" "holds_at i (enc False k (drop_bit pos v))" "pos + 8 * k \<le> 64" 
  shows "ReadN_bytes i pos k (take_bit pos v) = Ret (take_bit (pos + 8 * k) v, advance i k)"
  using assms
proof (induction k arbitrary: i pos)
  case (Suc k)
  have u: "take_bit pos v OR to_u64 (push_bit pos (to_u8 (drop_bit pos v))) = take_bit (pos + 8) v"
    using Suc.prems(3) by (intro bit_eqI) (auto simp: bit_simps)
  have h: "holds_at i [byte_at v pos]" "holds_at (advance i 1) (enc False k (drop_bit (pos + 8) v))"
    using Suc.prems(2) holds_at_append [of i "[byte_at v pos]" "enc False k (drop_bit (pos + 8) v)"]
    by (simp_all add: enc_le_Suc byte_at_drop add.commute)
  show ?case
    using Suc.IH [OF _ h(2)] ReadU8_value [OF h(1)] Suc.prems u
    by (simp add: uint_byte_at add.assoc)
qed simp

lemma ReadN_le_value:
  assumes "\<not> m_bigendian i" "holds_at i (enc False (n div 8) v)" "n mod 8 = 0" "n < 64 \<or> n mod 64 = 0" 
  shows "\<exists>ws. ReadN_le i n = Ret (ws, advance i (n div 8)) \<and> take_bit n (le_val (2 ^ 64) ws) = take_bit n v"
proof (cases "n mod 64 = 0")
  case True
  then obtain k where k: "n = 64 * k" by auto
  then have "holds_at i (enc False (8 * k) v)" using assms(2) by simp
  then show ?thesis
    using ReadN_words_value [OF assms(1), of k v] k by (auto simp: ReadN_le_def)
next
  case False
  then have n: "n < 64" using assms(4) by simp
  then have "n = 8 * (n div 8)" using assms(3) by auto
  moreover have "holds_at i (enc False (n div 8) (drop_bit 0 v))" using assms(2) by simp
  ultimately show ?thesis
    using ReadN_bytes_value [OF assms(1), of "n div 8" 0 v] n False by (auto simp: ReadN_le_def)
qed



lemma negated_complement: "signed_take_bit k (- signed_take_bit k (NOT v + 1)) = signed_take_bit k (v :: int)"
proof -
  have "NOT v + 1 = - v" by (simp add: not_int_def)
  then show ?thesis by (simp add: signed_take_bit_minus)
qed

lemma ReadN_fixed:
  assumes "holds_at i (enc (m_bigendian i) w v)"
  shows "w = 1 \<Longrightarrow> ReadU8 i = Ret (take_bit 8 v, advance i 1) \<and> ReadS8 i = Ret (signed_take_bit 7 v, advance i 1)"
    "w = 2 \<Longrightarrow> ReadU16 i = Ret (take_bit 16 v, advance i 2) \<and> ReadS16 i = Ret (signed_take_bit 15 v, advance i 2)"
    "w = 4 \<Longrightarrow> ReadU32 i = Ret (take_bit 32 v, advance i 4)"
  using assms codec8.read_enc [of i v] codec16.read_enc [of i v] codec32.read_enc [of i v]
  by (simp_all add: ReadS8_def ReadS16_def signed_take_bit_take_bit negated_complement)

lemma set_u_take_bit: "n \<le> 32 \<Longrightarrow> set_u (take_bit n v) = SV (take_bit n v)"
proof -
  assume "n \<le> 32"
  then have "(2::int) ^ n \<le> 2 ^ 32" by (intro power_increasing) auto
  also have "(2::int) ^ 32 = 4294967296" by simp
  finally have "take_bit n v \<le> SV_MAX" using take_bit_int_less_exp [of n v] unfolding SV_MAX_def by linarith
  then show ?thesis by (simp add: set_u_def)
qed

lemma bv_range_field:
  "k \<le> 255 \<Longrightarrow> bv_range (signed_take_bit k v)" "k \<le> 255 \<Longrightarrow> bv_range (take_bit k v)"
proof -
  assume "k \<le> 255"
  then have "(2::int) ^ k \<le> 2 ^ 255" by (intro power_increasing) auto
  moreover note signed_take_bit_int_greater_eq_minus_exp [of k v] signed_take_bit_int_less_exp [of k v]
    take_bit_int_less_exp [of k v] take_bit_nonnegative [of k v]
  ultimately show "bv_range (signed_take_bit k v)" "bv_range (take_bit k v)"
    unfolding bv_range_def by linarith+
qed

lemma ReadS32_value:
  assumes "holds_at i (enc (m_bigendian i) 4 v)" "\<not> bit v 31"
  shows "ReadS32 i = Ret (signed_take_bit 31 v, advance i 4)"
proof -
  have "take_bit 32 v AND 2147483648 = 0"
    using assms(2) and_exp_eq_0_iff_not_bit [of "take_bit 32 v" 31] by (simp add: bit_simps)
  moreover have "to_s64 (take_bit 32 v) = take_bit 32 v"
  proof (rule to_s64_id)
    have "0 \<le> take_bit 32 v" "take_bit 32 v < 4294967296" using take_bit_int_less_exp [of 32 v] by simp_all
    then show "long_range (take_bit 32 v)" unfolding long_range_def limits by linarith
  qed
  moreover have "signed_take_bit 31 v = take_bit 32 v"
    using assms(2) take_bit_Suc_from_most [of 31 v] by (simp add: signed_take_bit_eq_if_positive)
  ultimately show ?thesis using ReadN_fixed(3) [OF assms(1)] by (simp add: ReadS32_def)
qed

lemma ReadN_value:
  assumes "holds_at i (enc (m_bigendian i) (nat (n div 8)) v)" "readN_ok (m_bigendian i) n is_signed"
    "n = 32 \<and> is_signed \<Longrightarrow> \<not> bit v 31"
  shows "\<exists>r. ReadN i n is_signed = Ret (r, advance i (nat (n div 8))) \<and>
     intnum_val r = (if is_signed then signed_take_bit (nat n - 1) v else take_bit (nat n) v)"
proof (cases "n \<in> {8, 16, 32}")
  case True
  then show ?thesis
    using assms ReadN_fixed [of i "nat (n div 8)" v] ReadS32_value [of i v]
    by (auto simp: ReadN_def readN_ok_def limits set_u_take_bit)
next
  case False
  then have le: "\<not> m_bigendian i" using assms(2) by (auto simp: readN_ok_def)
  have nn: "nat (n div 8) = nat n div 8" using assms(2) by (simp add: readN_ok_def nat_div_distrib)
  have n8: "nat n mod 8 = 0" "nat n < 64 \<or> nat n mod 64 = 0"
    using assms(2) nat_mod_distrib [of n 8] nat_mod_distrib [of n 64] by (auto simp: readN_ok_def)
  obtain ws where ws: "ReadN_le i (nat n) = Ret (ws, advance i (nat n div 8))"
     "take_bit (nat n) (le_val (2 ^ 64) ws) = take_bit (nat n) v"
    using ReadN_le_value [OF le, of "nat n" v] assms(1) n8 le unfolding nn by auto
  have "\<not> (n mod 8 \<noteq> 0 \<or> n > int BITVECT_NATIVE_SIZE \<or> n \<le> 0)"
    using assms(2) unfolding readN_ok_def limits by simp
  then have eq: "ReadN i n is_signed = Ret (setBV (if is_signed then signed_take_bit (nat n - 1) (take_bit (nat n) v)
      else take_bit (nat n) v), advance i (nat (n div 8)))"
    using False le ws nn by (simp add: ReadN_def Let_def)
  have "nat n - 1 \<le> 255" "\<not> is_signed \<Longrightarrow> nat n \<le> 255" "\<not> nat n \<le> nat n - 1"
    using assms(2) unfolding readN_ok_def by linarith+
  then show ?thesis
    unfolding eq using bv_range_field(1) [of "nat n - 1" v] bv_range_field(2) [of "nat n" v]
    by (simp add: signed_take_bit_take_bit)
qed

section \<open>Properties\<close>

text \<open>
  C29. \<open>WriteN\<close> of an integer appends exactly the \<open>n / 8\<close> bytes of its two's complement
  encoding in the buffer's byte order and leaves everything else alone: in a little-endian buffer for every multiple of
  8 below \<open>2 ^ 28\<close>, in a big-endian one for 8, 16, 32 and 64 bits.  The general case of a big-endian buffer is wrong
  (\<open>WriteN_be_24\<close>).
\<close>

theorem WriteN_correct:
  assumes "wf_IntNum x" "writeN_ok (m_bigendian b) n"
  shows "\<exists>b'. WriteN_IntNum b x n = Ret b' \<and> m_bigendian b' = m_bigendian b \<and>
     contents b' = contents b @ enc (m_bigendian b) (nat (n div 8)) (intnum_val x)"
  by (rule WriteN_IntNum_value [OF assms])

theorem WriteN_correct_witness:
  "\<exists>b'. WriteN_IntNum \<lparr>m_bigendian = False, contents = [7]\<rparr> (SV (-2)) 24 = Ret b' \<and>
     contents b' = [7, 254, 255, 255]"
proof -
  have "enc False 3 (-2) = [254, 255, 255]" by code_simp
  then show ?thesis
    using WriteN_correct [of "SV (-2)" "\<lparr>m_bigendian = False, contents = [7]\<rparr>" 24]
    by (auto simp: writeN_ok_def sv_range_def limits)
qed

text \<open>
  C30. What \<open>WriteN\<close> appends to a buffer is read back by \<open>ReadN\<close> from where it begins, up to its end, as the integer reduced to
  \<open>n\<close> bits, signed or unsigned as asked.  The widths are, in a little-endian buffer, the multiples of 8 up to 64 and those
  of 64 up to 256 (unsigned: up to 192), and in a big-endian one 8, 16 and 32; a signed 32-bit number must have its sign bit
  clear.  The other reads are those of the counterexamples and findings.
\<close>

theorem WriteN_ReadN:
  assumes "wf_IntNum x" "readN_ok (m_bigendian b) n is_signed" "n = 32 \<and> is_signed \<Longrightarrow> \<not> bit (intnum_val x) 31"
    "int (length (contents b)) + 32 \<le> ULONG_MAX"
  shows "\<exists>b' r. WriteN_IntNum b x n = Ret b' \<and>
    ReadN ((reader_of b')\<lparr>m_pos := int (length (contents b))\<rparr>) n is_signed =
      Ret (r, (reader_of b')\<lparr>m_pos := int (length (contents b'))\<rparr>) \<and>
    intnum_val r = (if is_signed then signed_take_bit (nat n - 1) (intnum_val x) else take_bit (nat n) (intnum_val x))"
proof -
  let ?bs = "enc (m_bigendian b) (nat (n div 8)) (intnum_val x)"
  obtain b' where b': "WriteN_IntNum b x n = Ret b'" "m_bigendian b' = m_bigendian b" "contents b' = contents b @ ?bs"
    using WriteN_IntNum_value [OF assms(1), of b n] assms(2) by (auto simp: writeN_ok_def readN_ok_def)
  let ?i = "(reader_of b')\<lparr>m_pos := int (length (contents b))\<rparr>"
  have "n div 8 \<le> 32" "0 \<le> n div 8" using assms(2) unfolding readN_ok_def by linarith+
  then have "holds_at ?i ?bs" "advance ?i (nat (n div 8)) = (reader_of b')\<lparr>m_pos := int (length (contents b'))\<rparr>"
    using assms(4) by (simp_all add: holds_at_def reader_of_def advance_def b')
  moreover have "m_bigendian ?i = m_bigendian b" by (simp add: reader_of_def b')
  ultimately show ?thesis
    using b'(1) assms(2,3) ReadN_value [of ?i n "intnum_val x" is_signed] by auto
qed

theorem WriteN_ReadN_witness:
  "(\<exists>b' r i. WriteN_IntNum \<lparr>m_bigendian = False, contents = [7]\<rparr> (SV (-2)) 48 = Ret b' \<and>
     ReadN ((reader_of b')\<lparr>m_pos := 1\<rparr>) 48 True = Ret (r, i) \<and> intnum_val r = -2) \<and>
   (\<exists>b' r i. WriteN_IntNum \<lparr>m_bigendian = True, contents = [7]\<rparr> (SV 258) 16 = Ret b' \<and>
     ReadN ((reader_of b')\<lparr>m_pos := 1\<rparr>) 16 False = Ret (r, i) \<and> intnum_val r = 258)"
  using WriteN_ReadN [of "SV (-2)" "\<lparr>m_bigendian = False, contents = [7]\<rparr>" 48 True]
    WriteN_ReadN [of "SV 258" "\<lparr>m_bigendian = True, contents = [7]\<rparr>" 16 False]
  by (auto simp: readN_ok_def sv_range_def limits signed_take_bit_int_eq_self take_bit_int_eq_self)

text \<open>
  C31. Any list of values written with \<open>Write32\<close> in either byte order is read back, in
  order and reduced to 32 bits, by as many calls of \<open>ReadU32\<close>.
\<close>

theorem Write32_sequence:
  assumes "contents b = []" "int (4 * length vs) \<le> ULONG_MAX"
  shows "\<exists>i. read_seq ReadU32 (length vs) (reader_of (foldl Write32 b vs)) =
     Ret (List.map (take_bit (8 * 4)) vs, i)"
  by (rule codec32.round_trip [OF assms])

theorem Write32_sequence_witness:
  "\<exists>i. read_seq ReadU32 2 (reader_of (foldl Write32 \<lparr>m_bigendian = True, contents = []\<rparr> [1, 65536])) =
     Ret ([1, 65536], i)"
  using Write32_sequence [of "\<lparr>m_bigendian = True, contents = []\<rparr>" "[1, 65536]"]
  by (simp add: limits take_bit_int_eq_self numeral_2_eq_2 del: read_seq.simps)

text \<open>
  On a target with 64-bit \<^verbatim>\<open>long\<close>, \<open>ReadS32\<close> does not sign-extend: the bytes of minus one
  are read as \<open>2 ^ 32 - 1\<close>.
\<close>

theorem ReadS32_minus_one:
  "ReadS32 \<lparr>m_bigendian = False, m_data = [255, 255, 255, 255], m_pos = 0\<rparr> =
     Ret (4294967295, \<lparr>m_bigendian = False, m_data = [255, 255, 255, 255], m_pos = 4\<rparr>)"
  by code_simp

text \<open>
  The big-endian general case of \<open>WriteN\<close> takes its bytes from the vector's most
  significant word and writes one byte too many: 24 bits of \<^verbatim>\<open>0x030201\<close> come out as four
  zero bytes.
\<close>

theorem WriteN_be_24:
  "WriteN_IntNum \<lparr>m_bigendian = True, contents = []\<rparr> (SV 197121) 24 =
     Ret \<lparr>m_bigendian = True, contents = [0, 0, 0, 0]\<rparr>"
  by code_simp

end
