(* ===== verification/Leb128.thy ===== *)
theory Leb128
  imports Bytes
begin

text \<open>
  LEB128 numbers, \<^verbatim>\<open>lib/yasmx/Bytes_leb128.cpp\<close>: the writer, the size computation and the
  reader.  The reader's loop runs over the unread bytes of the buffer, which it leaves by
  the exception when no byte without continuation bit comes; its words are 64-bit integers,
  and bit positions stay below \<open>2 ^ 32\<close> for buffers of less than \<open>2 ^ 29\<close> bytes.
\<close>

unbundle bit_operations_syntax

definition leb128_bits :: "IntNum \<Rightarrow> bool \<Rightarrow> nat" where
  "leb128_bits intn is_signed =
     (if is_signed then getMinSignedBits (getBV intn) else getActiveBits (getBV intn))"

function WriteLEB128_loop :: "Bytes \<Rightarrow> bitvect \<Rightarrow> nat \<Rightarrow> nat \<Rightarrow> Bytes outcome" where
  "WriteLEB128_loop b bv sz i =
     (if int i < int sz - 7
      then bind_out (tcExtract bv 7 i) (\<lambda>v.
             WriteLEB128_loop (push_back b (word_of_int v OR 128)) bv sz (i + 7))
      else bind_out (tcExtract bv 7 i) (\<lambda>v. Ret (push_back b (word_of_int v))))"
  by auto
termination
  by (relation "measure (\<lambda>(b, bv, sz, i). sz - i)") auto

declare WriteLEB128_loop.simps [simp del]

definition WriteLEB128 :: "Bytes \<Rightarrow> IntNum \<Rightarrow> bool \<Rightarrow> (int \<times> Bytes) outcome" where
  "WriteLEB128 b intn is_signed =
     (if isZero intn then Ret (1, push_back b 0)
      else bind_out (WriteLEB128_loop b (getBV intn) (leb128_bits intn is_signed) 0) (\<lambda>b'.
             Ret (int (length (contents b')) - int (length (contents b)), b')))"

definition SizeLEB128 :: "IntNum \<Rightarrow> bool \<Rightarrow> int" where
  "SizeLEB128 intn is_signed =
     (if isZero intn then 1 else int ((leb128_bits intn is_signed + 6) div 7))"

text \<open>
  \<open>words\<close> are the complete words below the current one, \<open>cur\<close> the current one and \<open>i\<close> the
  bit position; the result has all words, the final position and the number of bytes read.  A
  shift by the width of a word, as at position 448, is undefined.
\<close>

fun ReadLEB128_loop :: "byte list \<Rightarrow> int list \<Rightarrow> int \<Rightarrow> nat \<Rightarrow> nat \<Rightarrow> (int list \<times> nat \<times> nat) outcome" where
  "ReadLEB128_loop [] words cur i nread = Fail exc_out_of_range"
| "ReadLEB128_loop (chv # rest) words cur i nread =
     (let v = uint chv AND 127;
          nwords = length words + 1;
          cur' = cur OR to_u64 (push_bit (i - 64 * (nwords - 1)) v);
          (words', cur'') =
            (if i + 7 > 64 * nwords then (words @ [cur'], drop_bit (i + 7 - 64 * nwords) v)
             else (words, cur')) in
      if i - 64 * (nwords - 1) \<ge> 64 then Undefined
      else if uint chv AND 128 \<noteq> 128 then Ret (words' @ [cur''], i + 7, nread + 1)
      else ReadLEB128_loop rest words' cur'' (i + 7) (nread + 1))"

definition ReadLEB128 :: "InputBuffer \<Rightarrow> bool \<Rightarrow> (IntNum \<times> nat \<times> InputBuffer) outcome" where
  "ReadLEB128 input is_signed =
     bind_out (ReadLEB128_loop (drop (nat (m_pos input)) (m_data input)) [] 0 0 0)
       (\<lambda>(words, i, nread).
          let raw = take_bit i (le_val (2 ^ 64) words) in
          Ret (setBV (if is_signed then signed_take_bit (i - 1) raw else raw), nread,
               input\<lparr>m_pos := m_pos input + int nread\<rparr>))"

section \<open>Specification\<close>

text \<open>
  \<open>leb_groups n v\<close> is the LEB128 text of \<open>n\<close> groups: seven bits of the two's complement
  representation per byte, least significant group first, every byte but the last with the
  continuation bit set.
\<close>

fun leb_groups :: "nat \<Rightarrow> int \<Rightarrow> byte list" where
  "leb_groups 0 v = []"
| "leb_groups (Suc 0) v = [word_of_int (take_bit 7 v)]"
| "leb_groups (Suc (Suc n)) v = (word_of_int (take_bit 7 v) OR 128) # leb_groups (Suc n) (drop_bit 7 v)"

definition leb_count :: "nat \<Rightarrow> nat" where
  "leb_count sz = (if sz = 0 then 1 else (sz + 6) div 7)"

section \<open>Lemmas\<close>

lemma length_leb_groups [simp]: "length (leb_groups n v) = n"
  by (induction n v rule: leb_groups.induct) auto

lemma tcExtract_7: "i + 7 \<le> 256 \<Longrightarrow> tcExtract bv 7 i = Ret (take_bit 7 (drop_bit i (sint bv)))"
  using Extract_value [of "BV bv" 7 i] by (simp add: limits)

lemma leb_count_step: "int i < int sz - 7 \<Longrightarrow> leb_count (sz - i) = Suc (leb_count (sz - (i + 7)))"
proof -
  assume a: "int i < int sz - 7"
  define d where "d = sz - i - 8"
  have "sz - i = d + 8" "sz - (i + 7) = d + 1" using a by (auto simp: d_def)
  then show ?thesis by (simp add: leb_count_def)
qed

lemma WriteLEB128_loop_value:
  assumes "i + 7 * leb_count (sz - i) \<le> 256"
  shows "WriteLEB128_loop b bv sz i = Ret (Write_array b (leb_groups (leb_count (sz - i)) (drop_bit i (sint bv))))"
  using assms
proof (induction b bv sz i rule: WriteLEB128_loop.induct)
  case (1 b bv sz i)
  show ?case
  proof (cases "int i < int sz - 7")
    case True
    note step = leb_count_step [OF True]
    obtain m where m: "leb_count (sz - (i + 7)) = Suc m"
      by (cases "leb_count (sz - (i + 7))") (auto simp: leb_count_def split: if_splits)
    show ?thesis using 1 True step m tcExtract_7 [of i bv]
      by (subst WriteLEB128_loop.simps) (auto simp: Write_array_def push_back_def add.commute)
  next
    case False
    then have "leb_count (sz - i) = 1" by (auto simp: leb_count_def)
    then show ?thesis using 1 False tcExtract_7 [of i bv]
      by (subst WriteLEB128_loop.simps) (simp add: Write_array_def push_back_def)
  qed
qed

lemma leb128_bits_value: "wf_IntNum x \<Longrightarrow> 
  leb128_bits x True = min_signed_bits (intnum_val x)"
  by (simp add: leb128_bits_def getMinSignedBits_def)

lemma leb128_bits_zero: "leb128_bits (SV 0) is_signed = (if is_signed then 1 else 0)"
  by (simp add: leb128_bits_def getMinSignedBits_def min_signed_bits_def getActiveBits_def)

lemma leb128_bits_pos:
  assumes "canonical x" "\<not> isZero x"
  shows "0 < leb128_bits x is_signed"
proof -
  have x: "wf_IntNum x" "intnum_val x \<noteq> 0"
    using assms canonical_tests(1) [OF assms(1)] by (auto simp: canonical_def)
  have "w = 0" if "uint w < 1" for w :: bitvect
    using that uint_ge_0 [of w] uint_0_iff [of w] by linarith
  then show ?thesis
    using x word_of_int_eq_0 [of "intnum_val x"] bv_range_val [of x] getActiveBits_le_iff [of "getBV x" 0]
    by (auto simp: leb128_bits_def getMinSignedBits_def min_signed_bits_def getBV_eq
       simp del: getBV.simps split: if_splits)
qed

lemma SizeLEB128_bounds:
  assumes "canonical x" "leb128_bits x is_signed \<le> 7 * k" "0 < k"
  shows "0 < nat (SizeLEB128 x is_signed)" "nat (SizeLEB128 x is_signed) \<le> k"
    "leb128_bits x is_signed \<le> 7 * nat (SizeLEB128 x is_signed)"
proof -
  let ?b = "leb128_bits x is_signed"
  have "(?b + 6) div 7 \<le> (7 * k + 6) div 7" using assms(2) by (intro div_le_mono) simp
  then have "(?b + 6) div 7 \<le> k" by simp
  moreover have "?b \<le> 7 * ((?b + 6) div 7)" by linarith
  moreover have "x = SV 0 \<or> 0 < ?b" using leb128_bits_pos [OF assms(1), of is_signed] unfolding isZero_def by (cases "x = SV 0") simp_all
  ultimately show "0 < nat (SizeLEB128 x is_signed)" "nat (SizeLEB128 x is_signed) \<le> k"
    "?b \<le> 7 * nat (SizeLEB128 x is_signed)"
    using assms(3) by (auto simp: SizeLEB128_def isZero_def leb128_bits_zero)
qed

lemma WriteLEB128_value:
  assumes "canonical x" "leb128_bits x is_signed \<le> 252"
  shows "WriteLEB128 b x is_signed = Ret (SizeLEB128 x is_signed,
     Write_array b (leb_groups (nat (SizeLEB128 x is_signed)) (intnum_val x)))"
proof (cases "isZero x")
  case True
  then show ?thesis by (simp add: WriteLEB128_def SizeLEB128_def Write_array_def push_back_def isZero_def)
next
  case False
  let ?sz = "leb128_bits x is_signed"
  have "leb_count ?sz = (?sz + 6) div 7" using leb128_bits_pos [OF assms(1) False] by (simp add: leb_count_def)
  moreover have "7 * ((?sz + 6) div 7) \<le> 256"
    using assms(2) div_le_mono [of "?sz + 6" 258 7] by simp
  moreover have "wf_IntNum x" using assms(1) by (simp add: canonical_def)
  ultimately show ?thesis
    using WriteLEB128_loop_value [of 0 ?sz b "getBV x"] False
    by (simp add: WriteLEB128_def SizeLEB128_def Write_array_def)
qed

lemma group_byte:
  "uint (word_of_int (take_bit 7 v) :: byte) AND 127 = take_bit 7 v"
  "uint (word_of_int (take_bit 7 v) :: byte) AND 128 \<noteq> 128"
  "uint ((word_of_int (take_bit 7 v) :: byte) OR 128) AND 127 = take_bit 7 v"
  "uint ((word_of_int (take_bit 7 v) :: byte) OR 128) AND 128 = 128"
proof -
  have m: "(127::int) = mask 7" by (simp add: mask_eq_exp_minus_1)
  have b: "bit (128::int) n \<longleftrightarrow> n = 7" "bit (128::byte) n \<longleftrightarrow> n = 7" for n
  proof -
    have "(128::int) = push_bit 7 1" "(128::byte) = push_bit 7 1" by simp_all
    moreover have "bit (push_bit 7 1 :: int) n \<longleftrightarrow> n = 7" "bit (push_bit 7 1 :: byte) n \<longleftrightarrow> n = 7"
      by (auto simp only: bit_push_bit_iff bit_1_iff) (auto simp: possible_bit_def)
    ultimately show "bit (128::int) n \<longleftrightarrow> n = 7" "bit (128::byte) n \<longleftrightarrow> n = 7" by simp_all
  qed
  show "uint (word_of_int (take_bit 7 v) :: byte) AND 127 = take_bit 7 v"
    unfolding m by (rule bit_eqI) (auto simp: bit_simps)
  show "uint ((word_of_int (take_bit 7 v) :: byte) OR 128) AND 127 = take_bit 7 v"
    unfolding m by (rule bit_eqI) (auto simp: bit_simps b)
  show "uint ((word_of_int (take_bit 7 v) :: byte) OR 128) AND 128 = 128"
    by (rule bit_eqI) (auto simp: bit_simps b)
  have "\<not> bit (uint (word_of_int (take_bit 7 v) :: byte) AND 128) 7" by (auto simp: bit_simps b)
  then show "uint (word_of_int (take_bit 7 v) :: byte) AND 128 \<noteq> 128"
    by (metis b(1))
qed

lemma cur_step: "i + 7 \<le> 64 \<Longrightarrow> take_bit i v OR to_u64 (push_bit i (take_bit 7 (drop_bit i v))) = take_bit (i + 7) (v :: int)"
  by (rule bit_eqI) (auto simp: bit_simps)

lemma ReadLEB128_loop_value:
  assumes "0 < n" "i + 7 * n \<le> 64"
  shows "ReadLEB128_loop (leb_groups n (drop_bit i v) @ rest) [] (take_bit i v) i nr =
    Ret ([take_bit (i + 7 * n) v], i + 7 * n, nr + n)"
  using assms
proof (induction n arbitrary: i nr rule: nat_induct_non_zero)
  case 1
  then show ?case by (simp add: group_byte cur_step Let_def)
next
  case (Suc n)
  then obtain m where m: "n = Suc m" by (cases n) auto
  have "i + 7 + 7 * n \<le> 64" using Suc.prems by simp
  then have IH: "ReadLEB128_loop (leb_groups n (drop_bit (i + 7) v) @ rest) [] (take_bit (i + 7) v) (i + 7) (nr + 1) =
      Ret ([take_bit (i + 7 + 7 * n) v], i + 7 + 7 * n, nr + 1 + n)"
    by (rule Suc.IH)
  have "leb_groups (Suc n) (drop_bit i v) @ rest =
      (word_of_int (take_bit 7 (drop_bit i v)) OR 128) # (leb_groups n (drop_bit (i + 7) v) @ rest)"
    by (simp add: m add.commute)
  then show ?case
    using IH Suc.prems by (simp add: group_byte cur_step Let_def add.assoc)
qed

section \<open>Properties\<close>

text \<open>
  C32. \<open>WriteLEB128\<close> appends the LEB128 groups of the number and returns how many bytes it
  wrote, which is what \<open>SizeLEB128\<close> announces, for numbers of up to 252 bits.
\<close>

theorem WriteLEB128_correct:
  assumes "canonical x" "leb128_bits x is_signed \<le> 252"
  shows "WriteLEB128 b x is_signed = Ret (SizeLEB128 x is_signed,
     Write_array b (leb_groups (nat (SizeLEB128 x is_signed)) (intnum_val x)))"
  by (rule WriteLEB128_value [OF assms])

theorem WriteLEB128_correct_witness:
  "WriteLEB128 \<lparr>m_bigendian = False, contents = []\<rparr> (SV 300) False =
     Ret (2, \<lparr>m_bigendian = False, contents = [172, 2]\<rparr>)"
proof -
  have bits: "leb128_bits (SV 300) False = 9"
    by (simp add: leb128_bits_def getActiveBits_def nbits.simps)
  have groups: "leb_groups 2 300 = [172, 2]" by code_simp
  show ?thesis
    using WriteLEB128_correct [of "SV 300" False "\<lparr>m_bigendian = False, contents = []\<rparr>"]
    by (simp add: canonical_def sv_range_def limits SizeLEB128_def isZero_def bits groups Write_array_def)
qed

text \<open>
  C33. Reading back what was written gives the number and consumes the bytes written, for
  signed and for non-negative unsigned numbers of up to 63 bits.
\<close>

theorem LEB128_roundtrip:
  assumes "canonical x" "is_signed \<or> 0 \<le> intnum_val x" "leb128_bits x is_signed \<le> 63" "contents b = []"
  shows "\<exists>b' r i. WriteLEB128 b x is_signed = Ret (SizeLEB128 x is_signed, b') \<and>
     ReadLEB128 (reader_of b') is_signed = Ret (r, nat (SizeLEB128 x is_signed), i) \<and> intnum_val r = intnum_val x"
proof -
  let ?n = "nat (SizeLEB128 x is_signed)"
  have wf: "wf_IntNum x" using assms(1) by (simp add: canonical_def)
  have n: "7 * ?n \<le> 63" "leb128_bits x is_signed \<le> 7 * ?n" "0 < ?n"
    using SizeLEB128_bounds [OF assms(1), of is_signed 9] assms(3) by simp_all
  have fits: "(if is_signed then signed_take_bit (7 * ?n - 1) (intnum_val x) else take_bit (7 * ?n) (intnum_val x)) = intnum_val x"
  proof (cases is_signed)
    case True
    then have "min_signed_bits (intnum_val x) \<le> Suc (7 * ?n - 1)" using n(2) n(3) wf by (simp add: leb128_bits_value)
    then show ?thesis using True unfolding min_signed_bits_le_iff by (simp add: signed_take_bit_int_eq_self)
  next
    case False
    then have nn: "0 \<le> intnum_val x" using assms(2) by simp
    have "getActiveBits (getBV x) \<le> 7 * ?n" using n(2) False by (simp add: leb128_bits_def)
    then have "uint (getBV x) < 2 ^ (7 * ?n)" by (simp only: getActiveBits_le_iff)
    moreover have "uint (getBV x) = intnum_val x" using bv_cases(2) [of "intnum_val x"] nn wf bv_range_val [of x] by (simp add: getBV_eq)
    ultimately show ?thesis using nn False by (simp add: take_bit_int_eq_self)
  qed
  have W: "WriteLEB128 b x is_signed = Ret (SizeLEB128 x is_signed, Write_array b (leb_groups ?n (intnum_val x)))"
    by (rule WriteLEB128_value) (use assms in simp_all)
  have "ReadLEB128_loop (leb_groups ?n (intnum_val x)) [] 0 0 0 = Ret ([take_bit (7 * ?n) (intnum_val x)], 7 * ?n, ?n)"
    using ReadLEB128_loop_value [OF n(3), of 0 "intnum_val x" "[]" 0] n(1) by simp
  then show ?thesis using W fits assms(4) n(3) bv_range_val [OF wf]
    by (auto simp: ReadLEB128_def reader_of_def Write_array_def signed_take_bit_take_bit Let_def split: if_splits)
qed

theorem LEB128_roundtrip_witness:
  "\<exists>b' r i. WriteLEB128 \<lparr>m_bigendian = False, contents = []\<rparr> (SV (-5)) True =
       Ret (SizeLEB128 (SV (-5)) True, b') \<and>
     ReadLEB128 (reader_of b') True = Ret (r, nat (SizeLEB128 (SV (-5)) True), i) \<and> intnum_val r = -5"
  using LEB128_roundtrip [of "SV (-5)" True "\<lparr>m_bigendian = False, contents = []\<rparr>"]
  by (simp add: canonical_def sv_range_def limits leb128_bits_value min_signed_bits_def nbits.simps)

text \<open>
  Beyond 63 bits the reader carries the wrong bits of a group into the next word: the
  encoding of \<open>- (2 ^ 63)\<close> is read as a positive number.
\<close>

theorem ReadLEB128_min64:
  "\<exists>i. ReadLEB128 \<lparr>m_bigendian = False,
           m_data = [128, 128, 128, 128, 128, 128, 128, 128, 128, 127], m_pos = 0\<rparr> True =
         Ret (BV 27670116110564327424, 10, i)"
proof -
  have loop: "ReadLEB128_loop [128, 128, 128, 128, 128, 128, 128, 128, 128, 127] [] 0 0 0 =
      Ret ([9223372036854775808, 1], 70, 10)"
    by code_simp
  have "signed_take_bit 69 (take_bit 70 27670116110564327424 :: int) = 27670116110564327424"
    by (simp add: take_bit_int_eq_self signed_take_bit_int_eq_self)
  then show ?thesis
    using small_bits_iff [of 27670116110564327424]
    by (simp add: ReadLEB128_def loop setBV_def)
qed

end
