(* ===== verification/NumericOutput.thy ===== *)
theory NumericOutput
  imports Bytes
begin

text \<open>
  \<^verbatim>\<open>lib/yasmx/NumericOutput.cpp\<close>: writing an integer into a bit field of a byte buffer, with
  its range and truncation warnings.  The destination is the buffer the caller sized; the
  field starts \<open>m_shift\<close> bits above its least significant bit and is \<open>m_size\<close> bits wide; the
  value is shifted right by \<open>m_rshift\<close> first.  Floating-point output converts the number
  with \<^verbatim>\<open>llvm::APFloat\<close> and is not modelled.
\<close>

unbundle bit_operations_syntax

record NumericOutput =
  m_bytes :: Bytes
  m_size :: nat
  m_shift :: nat
  m_rshift :: nat
  m_sign :: bool
  m_warns_enabled :: bool
  m_warns :: int

definition INT_OVERFLOW :: int where "INT_OVERFLOW = 1"
definition FP_UNDERFLOW :: int where "FP_UNDERFLOW = 2"
definition FP_OVERFLOW :: int where "FP_OVERFLOW = 4"
definition TRUNCATED :: int where "TRUNCATED = 8"

definition NumericOutput_init :: "Bytes \<Rightarrow> NumericOutput" where
  "NumericOutput_init bytes =
     \<lparr>m_bytes = bytes, m_size = 0, m_shift = 0, m_rshift = 0, m_sign = False,
      m_warns_enabled = False, m_warns = 0\<rparr>"

definition EmitWarnings :: "NumericOutput \<Rightarrow> diag list" where
  "EmitWarnings out =
     (if m_sign out \<and> m_warns out AND INT_OVERFLOW \<noteq> 0 then [warn_signed_overflow (m_size out)] else []) @
     (if \<not> m_sign out \<and> m_warns out AND INT_OVERFLOW \<noteq> 0 then [warn_unsigned_overflow (m_size out)] else []) @
     (if m_warns out AND FP_UNDERFLOW \<noteq> 0 then [warn_float_underflow] else []) @
     (if m_warns out AND FP_OVERFLOW \<noteq> 0 then [warn_float_overflow] else []) @
     (if m_warns out AND TRUNCATED \<noteq> 0 then [warn_truncated (m_rshift out)] else [])"

definition set_warn :: "int \<Rightarrow> NumericOutput \<Rightarrow> NumericOutput" where
  "set_warn flag out = out\<lparr>m_warns := m_warns out OR flag\<rparr>"

text \<open>
  The size warnings, common to both versions of \<open>OutputInteger\<close>; \<open>fits\<close> is the size test
  with the given range type, evaluated only when warnings are enabled.
\<close>

definition size_warnings :: "NumericOutput \<Rightarrow> (int \<Rightarrow> bool outcome) \<Rightarrow> NumericOutput outcome" where
  "size_warnings out fits =
     (if m_warns_enabled out
      then bind_out (fits (if m_sign out then 1 else 2)) (\<lambda>ok.
             Ret (if ok then out else set_warn INT_OVERFLOW out))
      else Ret out)"

definition countTrailingZeros :: "bitvect \<Rightarrow> nat" where
  "countTrailingZeros w = length (takeWhile (\<lambda>k. \<not> bit w k) [0..<256])"

text \<open>
  The version for bit vectors implements only the aligned little-endian case; the word and
  byte loops together store byte \<open>o\<close> of the shifted and resized value at position \<open>o\<close>.
\<close>

definition OutputInteger_bv :: "NumericOutput \<Rightarrow> bitvect \<Rightarrow> NumericOutput outcome" where
  "OutputInteger_bv out intn =
     bind_out (size_warnings out (isOkSize_bv intn (m_size out) (m_rshift out))) (\<lambda>out1.
       let out2 = (if m_warns_enabled out \<and> m_rshift out > 0 \<and> countTrailingZeros intn < m_rshift out
                   then set_warn TRUNCATED out1 else out1);
           buf = contents (m_bytes out);
           work = sint (signed_drop_bit (m_rshift out) intn) in
       if m_rshift out > 256 \<or> m_size out = 0 then Undefined
       else if m_shift out = 0 \<and> length buf * 8 = m_size out then
         if m_bigendian (m_bytes out) then Undefined
         else Ret (out2\<lparr>m_bytes := (m_bytes out)\<lparr>contents :=
                List.map (\<lambda>o'. byte_at work (8 * o')) [0..<length buf]\<rparr>\<rparr>)
       else Undefined)"

text \<open>
  The loop of the version for integers runs over the destination's bytes; \<open>sz\<close> is the
  number of bits still to be written and \<open>shift\<close> the member \<^verbatim>\<open>m_shift\<close>, which the loop
  decrements.
\<close>

definition put_bits :: "byte \<Rightarrow> byte \<Rightarrow> byte \<Rightarrow> byte" where
  "put_bits old chunk msk = (old AND NOT msk) OR (chunk AND msk)"

fun output_loop :: "nat \<Rightarrow> nat \<Rightarrow> int \<Rightarrow> int \<Rightarrow> byte list \<Rightarrow> byte list \<times> nat" where
  "output_loop sze shift sz v [] = ([], shift)"
| "output_loop sze shift sz v (b # bs) =
     (if sz \<le> 0 then (b # bs, shift)
      else if shift \<ge> 8 then
        (let (bs', shift') = output_loop sze (shift - 8) sz v bs in (b # bs', shift'))
      else if shift > 0 \<and> sz = int sze then
        (let chunk = push_bit shift (word_of_int v); msk = NOT (mask shift);
             (bs', shift') = output_loop sze shift (sz - int (8 - shift)) (drop_bit (8 - shift) v) bs
         in (put_bits b chunk msk # bs', shift'))
      else
        (let chunk = word_of_int v; msk = (if sz < 8 then mask (nat sz) else 255);
             (bs', shift') = output_loop sze shift (sz - 8) (drop_bit 8 v) bs
         in (put_bits b chunk msk # bs', shift')))"

definition OutputInteger :: "NumericOutput \<Rightarrow> IntNum \<Rightarrow> NumericOutput outcome" where
  "OutputInteger out intn =
     (if \<not> isInt intn then OutputInteger_bv out (getBV intn)
      else
        bind_out (size_warnings out (isOkSize intn (m_size out) (m_rshift out))) (\<lambda>out1.
          let v = getInt intn; check = (m_warns_enabled out \<and> m_rshift out > 0);
              out2 = (if check \<and> v AND mask (m_rshift out) \<noteq> 0 then set_warn TRUNCATED out1 else out1);
              (bs, shift') = output_loop (m_size out) (m_shift out) (int (m_size out))
                               (drop_bit (m_rshift out) v) (contents (m_bytes out)) in
          if (check \<and> m_rshift out \<ge> 63) \<or> m_rshift out \<ge> 64 \<or> m_bigendian (m_bytes out) then Undefined
          else Ret (out2\<lparr>m_bytes := (m_bytes out)\<lparr>contents := bs\<rparr>, m_shift := shift'\<rparr>)))"

section \<open>Specification\<close>

text \<open>
  \<open>buf_bit\<close> numbers the bits of a little-endian buffer; \<open>buf_field old lo n v new\<close> says that
  \<open>new\<close> is \<open>old\<close> with the \<open>n\<close> bits from \<open>lo\<close> on replaced by those of \<open>v\<close> and every other bit
  kept.  \<open>output_ok\<close> are the settings the code supports: a little-endian destination, a
  field that is not empty and, if it does not start at a byte boundary, reaches the end of
  its first byte.
\<close>

definition buf_bit :: "byte list \<Rightarrow> nat \<Rightarrow> bool" where
  "buf_bit bs k = bit (bs ! (k div 8)) (k mod 8)"

definition buf_field :: "byte list \<Rightarrow> nat \<Rightarrow> nat \<Rightarrow> int \<Rightarrow> byte list \<Rightarrow> bool" where
  "buf_field old lo n v new \<longleftrightarrow> length new = length old \<and>
     (\<forall>k < 8 * length old. buf_bit new k = (if lo \<le> k \<and> k < lo + n then bit v (k - lo) else buf_bit old k))"

definition output_ok :: "NumericOutput \<Rightarrow> bool" where
  "output_ok out \<longleftrightarrow> 0 < m_size out \<and> m_rshift out < 63 \<and> \<not> m_bigendian (m_bytes out) \<and>
     (m_shift out mod 8 = 0 \<or> 8 \<le> m_shift out mod 8 + m_size out)"

section \<open>Lemmas\<close>

lemma buf_bit_Cons: "buf_bit (b # bs) k = (if k < 8 then bit b k else buf_bit bs (k - 8))"
proof -
  have "k div 8 = Suc ((k - 8) div 8)" "(k - 8) mod 8 = k mod 8" if "\<not> k < 8"
    using that by (simp_all add: le_div_geq le_mod_geq)
  then show ?thesis by (simp add: buf_bit_def)
qed

lemma buf_field_Cons:
  assumes "\<And>k. k < 8 \<Longrightarrow> bit b' k = (if lo \<le> k \<and> k < lo + n then bit v (k - lo) else bit b k)"
    and "buf_field bs 0 (n - (8 - lo)) (drop_bit (8 - lo) v) bs'" "lo \<le> 8"
  shows "buf_field (b # bs) lo n v (b' # bs')"
proof -
  have "buf_bit bs' (k - 8) = (if lo \<le> k \<and> k < lo + n then bit v (k - lo) else buf_bit bs (k - 8))"
    if "8 \<le> k" "k < 8 * length (b # bs)" for k
  proof -
    have "k - 8 < 8 * length bs" using that by simp
    then have "buf_bit bs' (k - 8) =
        (if k - 8 < n - (8 - lo) then bit v (8 - lo + (k - 8)) else buf_bit bs (k - 8))"
      using assms(2) by (auto simp: buf_field_def bit_simps)
    moreover have "8 - lo + (k - 8) = k - lo" "k - 8 < n - (8 - lo) \<longleftrightarrow> k < lo + n" "lo \<le> k"
      using that assms(3) by auto
    ultimately show ?thesis by simp
  qed
  then show ?thesis using assms(1,2) by (auto simp: buf_field_def buf_bit_Cons not_less)
qed

lemma buf_field_skip:
  assumes "buf_field bs (lo - 8) n v bs'" "8 \<le> lo"
  shows "buf_field (b # bs) lo n v (b # bs')"
proof -
  have "buf_bit bs' (k - 8) = (if lo \<le> k \<and> k < lo + n then bit v (k - lo) else buf_bit bs (k - 8))"
    if "8 \<le> k" "k < 8 * length (b # bs)" for k
  proof -
    have "k - 8 < 8 * length bs" using that by simp
    moreover have "k - 8 - (lo - 8) = k - lo" "lo - 8 \<le> k - 8 \<longleftrightarrow> lo \<le> k" "k - 8 < lo - 8 + n \<longleftrightarrow> k < lo + n"
      using that assms(2) by auto
    ultimately show ?thesis using assms(1) by (auto simp: buf_field_def)
  qed
  then show ?thesis using assms by (auto simp: buf_field_def buf_bit_Cons not_less)
qed

lemma buf_field_empty: "buf_field bs lo 0 v bs"
  by (auto simp: buf_field_def)

lemma put_bits_bit: "bit (put_bits old chunk msk) k = (if bit msk k then bit chunk k else bit old k)"
  by (auto simp: put_bits_def bit_simps dest: bit_imp_le_length)

lemma output_loop_low:
  assumes "shift < 8" "shift = 0 \<or> sz < int sze"
  shows "buf_field bs 0 (nat sz) v (fst (output_loop sze shift sz v bs))"
  using assms
proof (induction bs arbitrary: sz v)
  case Nil
  then show ?case by (simp add: buf_field_empty buf_field_def)
next
  case (Cons b bs)
  show ?case
  proof (cases "sz \<le> 0")
    case True
    then show ?thesis by (simp add: buf_field_empty)
  next
    case False
    let ?m = "if sz < 8 then mask (nat sz) else 255 :: byte"
    have full: "(255 :: byte) = mask 8" by (simp add: mask_eq_exp_minus_1)
    have "bit (put_bits b (word_of_int v) ?m) k = (if k < nat sz then bit v k else bit b k)" if "k < 8" for k
      using that False unfolding full by (auto simp: put_bits_bit bit_simps)
    moreover have "buf_field bs 0 (nat sz - 8) (drop_bit 8 v) (fst (output_loop sze shift (sz - 8) (drop_bit 8 v) bs))"
      using Cons.IH [of "sz - 8" "drop_bit 8 v"] Cons.prems False by (auto simp: nat_diff_distrib') 
    ultimately have "buf_field (b # bs) 0 (nat sz) v
        (put_bits b (word_of_int v) ?m # fst (output_loop sze shift (sz - 8) (drop_bit 8 v) bs))"
      by (intro buf_field_Cons) auto
    then show ?thesis
      using False Cons.prems by (auto simp: Let_def split: prod.splits)
  qed
qed

lemma output_loop_field:
  assumes "shift mod 8 = 0 \<or> 8 \<le> shift mod 8 + sze"
  shows "buf_field bs shift sze v (fst (output_loop sze shift (int sze) v bs))"
  using assms
proof (induction bs arbitrary: shift)
  case Nil
  then show ?case by (simp add: buf_field_def)
next
  case (Cons b bs)
  consider "sze = 0" | "8 \<le> shift" "0 < sze" | "shift = 0" "0 < sze" | "0 < shift" "shift < 8" "0 < sze" by force
  then show ?case
  proof cases
    case 1
    then show ?thesis by (simp add: buf_field_empty)
  next
    case 2
    have "buf_field bs (shift - 8) sze v (fst (output_loop sze (shift - 8) (int sze) v bs))"
      using Cons.IH [of "shift - 8"] Cons.prems 2 by (simp add: le_mod_geq)
    then show ?thesis using 2 buf_field_skip [of bs shift sze v _ b] by (auto split: prod.splits)
  next
    case 3
    then show ?thesis using output_loop_low [of 0 "int sze" sze "b # bs" v] by simp
  next
    case 4
    let ?m = "NOT (mask shift) :: byte" and ?c = "push_bit shift (word_of_int v) :: byte"
    have sz: "8 \<le> shift + sze" using Cons.prems 4 by simp
    have "bit (put_bits b ?c ?m) k = (if shift \<le> k \<and> k < shift + sze then bit v (k - shift) else bit b k)"
      if "k < 8" for k
      using that sz by (auto simp: put_bits_bit bit_simps)
    moreover have "buf_field bs 0 (sze - (8 - shift)) (drop_bit (8 - shift) v)
       (fst (output_loop sze shift (int sze - int (8 - shift)) (drop_bit (8 - shift) v) bs))"
      using output_loop_low [of shift "int sze - int (8 - shift)" sze bs "drop_bit (8 - shift) v"] 4 sz
      by (simp add: nat_diff_distrib' of_nat_diff)
    ultimately have "buf_field (b # bs) shift sze v (put_bits b ?c ?m #
        fst (output_loop sze shift (int sze - int (8 - shift)) (drop_bit (8 - shift) v) bs))"
      using 4 by (intro buf_field_Cons) auto
    then show ?thesis using 4 by (auto simp: Let_def split: prod.splits)
  qed
qed

lemma isOkSize_returns:
  assumes "0 < sz" "rshift < 64" "rangetype \<in> {1, 2}"
  shows "\<exists>ok. isOkSize (SV v) sz rshift rangetype = Ret ok"
  using assms by (auto simp: Let_def okSize_negative_def)

lemma isOkSize_bv_returns: "rangetype \<in> {1, 2} \<Longrightarrow> \<exists>ok. isOkSize_bv w sz rshift rangetype = Ret ok"
  by (auto simp: isOkSize_bv_def)

lemma size_warnings_returns:
  assumes "\<exists>ok. fits (if m_sign out then 1 else 2) = Ret ok"
  shows "\<exists>out1. size_warnings out fits = Ret out1"
  using assms by (auto simp: size_warnings_def)

lemma whole_field: "buf_field bs 0 (8 * length bs) v (List.map (\<lambda>o'. byte_at v (8 * o')) [0..<length bs])"
proof -
  have "k div 8 < length bs" "8 * (k div 8) + k mod 8 = k" if "k < 8 * length bs" for k using that by auto
  then show ?thesis by (simp add: buf_field_def buf_bit_def byte_at_def bit_simps)
qed

lemma OutputInteger_small:
  assumes "isInt x" "output_ok out"
  shows "\<exists>out'. OutputInteger out x = Ret out' \<and>
     buf_field (contents (m_bytes out)) (m_shift out) (m_size out) (drop_bit (m_rshift out) (intnum_val x)) (contents (m_bytes out'))"
proof -
  obtain v where x: "x = SV v" "getInt x = v" using assms(1) by (cases x) (auto simp: limits)
  have "\<exists>ok. isOkSize x (m_size out) (m_rshift out) (if m_sign out then 1 else 2) = Ret ok"
    using isOkSize_returns [of "m_size out" "m_rshift out" 1 v] isOkSize_returns [of "m_size out" "m_rshift out" 2 v]
      assms(2)
    by (cases "m_sign out") (auto simp: x output_ok_def simp del: isOkSize.simps)
  then obtain out1 where w: "size_warnings out (isOkSize x (m_size out) (m_rshift out)) = Ret out1"
    using size_warnings_returns by blast
  let ?r = "output_loop (m_size out) (m_shift out) (int (m_size out)) (drop_bit (m_rshift out) v) (contents (m_bytes out))"
  obtain bs sh where r: "?r = (bs, sh)" by (cases ?r)
  have "buf_field (contents (m_bytes out)) (m_shift out) (m_size out) (drop_bit (m_rshift out) v) bs"
    using output_loop_field [of "m_shift out" "m_size out" "contents (m_bytes out)" "drop_bit (m_rshift out) v"]
      assms(2) r by (simp add: output_ok_def)
  then show ?thesis using assms w r x by (simp add: OutputInteger_def output_ok_def set_warn_def)
qed

lemma OutputInteger_big:
  assumes "wf_IntNum x" "\<not> isInt x" "output_ok out" "m_shift out = 0" "m_size out = 8 * length (contents (m_bytes out))"
  shows "\<exists>out'. OutputInteger out x = Ret out' \<and>
     buf_field (contents (m_bytes out)) (m_shift out) (m_size out) (drop_bit (m_rshift out) (intnum_val x)) (contents (m_bytes out'))"
proof -
  obtain out1 where w: "size_warnings out (isOkSize_bv (getBV x) (m_size out) (m_rshift out)) = Ret out1"
    using size_warnings_returns [of "isOkSize_bv (getBV x) (m_size out) (m_rshift out)" out] isOkSize_bv_returns by auto
  have "sint (signed_drop_bit (m_rshift out) (getBV x)) = drop_bit (m_rshift out) (intnum_val x)"
    using assms(1) by (simp add: sint_signed_drop_bit_eq getBV_eq bv_range_val)
  then show ?thesis
    using assms(2-5) w whole_field [of "contents (m_bytes out)" "drop_bit (m_rshift out) (intnum_val x)"]
    by (simp add: OutputInteger_def OutputInteger_bv_def output_ok_def set_warn_def)
qed

section \<open>Properties\<close>

text \<open>
  C34. In a little-endian destination \<open>OutputInteger\<close> replaces exactly the field of \<open>m_size\<close> bits at \<open>m_shift\<close> by the
  low bits of the right-shifted value and keeps all other bits: for a number that fits a \<^verbatim>\<open>long\<close> when the field begins at a
  byte boundary or reaches the end of its first byte, and for any number when the field is the whole destination.  The right
  shift is less than 63.
\<close>

theorem OutputInteger_correct:
  assumes "wf_IntNum x" "output_ok out" "isInt x \<or> m_shift out = 0 \<and> m_size out = 8 * length (contents (m_bytes out))"
  shows "\<exists>out'. OutputInteger out x = Ret out' \<and>
     buf_field (contents (m_bytes out)) (m_shift out) (m_size out) (drop_bit (m_rshift out) (intnum_val x))
       (contents (m_bytes out'))"
  using assms OutputInteger_small OutputInteger_big by blast

theorem OutputInteger_correct_witness:
  "\<exists>out'. OutputInteger \<lparr>m_bytes = \<lparr>m_bigendian = False, contents = [255, 255]\<rparr>, m_size = 10, m_shift = 3,
       m_rshift = 1, m_sign = True, m_warns_enabled = True, m_warns = 0\<rparr> (SV 6) = Ret out' \<and>
     buf_field [255, 255] 3 10 3 (contents (m_bytes out'))"
proof -
  have "drop_bit (Suc 0) (6 :: int) = 3" by code_simp
  then show ?thesis
    using OutputInteger_correct [of "SV 6" "\<lparr>m_bytes = \<lparr>m_bigendian = False, contents = [255, 255]\<rparr>, m_size = 10,
      m_shift = 3, m_rshift = 1, m_sign = True, m_warns_enabled = True, m_warns = 0\<rparr>"]
    by (simp add: output_ok_def sv_range_def limits)
qed



text \<open>
  A field that begins inside a byte and also ends inside it clears the bits above its
  end: writing seven into three bits at position two of a byte of ones leaves \<^verbatim>\<open>0x1f\<close>.
\<close>

theorem OutputInteger_short_shifted_field:
  "output_loop 3 2 3 7 [255] = ([31], 2)"
  by code_simp

end
