(* ===== verification/Expr.thy ===== *)
theory Expr
  imports IntNum_Calc
begin

text \<open>
  Expressions, \<^verbatim>\<open>include/yasmx/Expr.h\<close> and \<^verbatim>\<open>lib/yasmx/Expr.cpp\<close>: a vector of terms in reverse
  polish order, each with its depth in the tree.  Registers, symbols and bytecodes are
  identified by numbers.  Source locations only label diagnostics and are left out.  The
  type parameter \<open>'f\<close> stands for \<^verbatim>\<open>llvm::APFloat\<close> values, which these operations only move
  around.  Static helpers take a position inside the vector; the public operations accept
  a negative position, counted from the end.
\<close>

record Location =
  loc_bc :: "nat option"
  loc_off :: int

datatype 'f term_data =
    T_NONE
  | T_REG nat
  | T_INT IntNum
  | T_SUBST nat
  | T_FLOAT 'f
  | T_SYM nat
  | T_LOC Location
  | T_OP Op int

record 'f ExprTerm =
  t_data :: "'f term_data"
  m_depth :: int

type_synonym 'f Expr = "'f ExprTerm list"

text \<open>The bit mask of the term types, for \<^verbatim>\<open>isType\<close>.\<close>

fun type_mask :: "'f term_data \<Rightarrow> int" where
  "type_mask T_NONE = 0"
| "type_mask (T_REG _) = 1"
| "type_mask (T_INT _) = 2"
| "type_mask (T_SUBST _) = 4"
| "type_mask (T_FLOAT _) = 8"
| "type_mask (T_SYM _) = 16"
| "type_mask (T_LOC _) = 32"
| "type_mask (T_OP _ _) = 64"

unbundle bit_operations_syntax

definition isType :: "'f ExprTerm \<Rightarrow> int \<Rightarrow> bool" where
  "isType t typ \<longleftrightarrow> type_mask (t_data t) AND typ \<noteq> 0"

definition isEmpty :: "'f ExprTerm \<Rightarrow> bool" where
  "isEmpty t \<longleftrightarrow> (case t_data t of T_NONE \<Rightarrow> True | _ \<Rightarrow> False)"

definition isOp :: "'f ExprTerm \<Rightarrow> bool" where
  "isOp t \<longleftrightarrow> (case t_data t of T_OP _ _ \<Rightarrow> True | _ \<Rightarrow> False)"

definition isOp_of :: "'f ExprTerm \<Rightarrow> Op \<Rightarrow> bool" where
  "isOp_of t oper \<longleftrightarrow> (case t_data t of T_OP o' _ \<Rightarrow> o' = oper | _ \<Rightarrow> False)"

definition getOp :: "'f ExprTerm \<Rightarrow> Op" where
  "getOp t = (case t_data t of T_OP oper _ \<Rightarrow> oper | _ \<Rightarrow> Op_NONNUM)"

definition getNumChild :: "'f ExprTerm \<Rightarrow> int" where
  "getNumChild t = (case t_data t of T_OP _ n \<Rightarrow> n | _ \<Rightarrow> 0)"

definition getIntNum :: "'f ExprTerm \<Rightarrow> IntNum option" where
  "getIntNum t = (case t_data t of T_INT n \<Rightarrow> Some n | _ \<Rightarrow> None)"

definition Clear :: "'f ExprTerm \<Rightarrow> 'f ExprTerm" where
  "Clear t = t\<lparr>t_data := T_NONE\<rparr>"

definition Zero :: "'f ExprTerm \<Rightarrow> 'f ExprTerm" where
  "Zero t = t\<lparr>t_data := T_INT (SV 0)\<rparr>"

definition setIntNum :: "IntNum \<Rightarrow> 'f ExprTerm \<Rightarrow> 'f ExprTerm" where
  "setIntNum n t = t\<lparr>t_data := T_INT n\<rparr>"

definition AddNumChild :: "int \<Rightarrow> 'f ExprTerm \<Rightarrow> 'f ExprTerm" where
  "AddNumChild delta t =
     t\<lparr>t_data := (case t_data t of T_OP oper n \<Rightarrow> T_OP oper (n + delta) | d \<Rightarrow> d)\<rparr>"

definition add_depth :: "int \<Rightarrow> 'f ExprTerm \<Rightarrow> 'f ExprTerm" where
  "add_depth delta t = t\<lparr>m_depth := m_depth t + delta\<rparr>"

definition mk_term :: "'f term_data \<Rightarrow> int \<Rightarrow> 'f ExprTerm" where
  "mk_term d depth = \<lparr>t_data = d, m_depth = depth\<rparr>"

section \<open>Building\<close>

definition AppendOp :: "Op \<Rightarrow> int \<Rightarrow> 'f Expr \<Rightarrow> 'f Expr outcome" where
  "AppendOp oper nchild terms =
     (let push = (\<lambda>o'. List.map (add_depth 1) terms @
                        (if o' \<noteq> Op_IDENT then [mk_term (T_OP o' nchild) 0] else [])) in
      if nchild = 0 then Undefined
      else if nchild = 1 then Ret (push (if \<not> isUnary oper then Op_IDENT else oper))
      else if nchild = 2 then (if isUnary oper then Undefined else Ret (push oper))
      else (if isAssociative oper then Ret (push oper) else Undefined))"

text \<open>\<^verbatim>\<open>Expr::Calc\<close> with no, and with one, further operand.\<close>

definition Calc_unary :: "Op \<Rightarrow> 'f Expr \<Rightarrow> 'f Expr outcome" where
  "Calc_unary oper e = (if e = [] then Ret e else AppendOp oper 1 e)"

definition Calc_expr :: "Op \<Rightarrow> 'f Expr \<Rightarrow> 'f Expr \<Rightarrow> 'f Expr outcome" where
  "Calc_expr oper e rhs =
     (if rhs = [] then Ret e
      else if e = [] then Ret (e @ rhs)
      else AppendOp oper 2 (e @ rhs))"

text \<open>\<^verbatim>\<open>ExprBuilder\<close>: any number of operands at once.\<close>

definition ExprBuilder :: "Op \<Rightarrow> 'f Expr list \<Rightarrow> 'f Expr outcome" where
  "ExprBuilder oper es = AppendOp oper (int (length es)) (concat es)"

definition Cleanup :: "'f Expr \<Rightarrow> 'f Expr" where
  "Cleanup terms = filter (\<lambda>t. \<not> isEmpty t) terms"

section \<open>Identities\<close>

definition isConstantIdentity :: "Op \<Rightarrow> IntNum \<Rightarrow> bool" where
  "isConstantIdentity oper intn \<longleftrightarrow>
     (isZero intn \<and> oper = Op_MUL) \<or> (isZero intn \<and> oper = Op_AND) \<or>
     (isZero intn \<and> oper = Op_LAND) \<or> (isNeg1 intn \<and> oper = Op_OR)"

definition isLeftIdentity :: "Op \<Rightarrow> IntNum \<Rightarrow> bool" where
  "isLeftIdentity oper intn \<longleftrightarrow>
     (isPos1 intn \<and> oper = Op_MUL) \<or> (isZero intn \<and> oper = Op_ADD) \<or>
     (isNeg1 intn \<and> oper = Op_AND) \<or> (\<not> isZero intn \<and> oper = Op_LAND) \<or>
     (isZero intn \<and> oper = Op_OR) \<or> (isZero intn \<and> oper = Op_LOR)"

definition isRightIdentity :: "Op \<Rightarrow> IntNum \<Rightarrow> bool" where
  "isRightIdentity oper intn \<longleftrightarrow>
     (isPos1 intn \<and> oper = Op_MUL) \<or> (isPos1 intn \<and> oper = Op_DIV) \<or>
     (isZero intn \<and> oper = Op_ADD) \<or> (isZero intn \<and> oper = Op_SUB) \<or>
     (isNeg1 intn \<and> oper = Op_AND) \<or> (\<not> isZero intn \<and> oper = Op_LAND) \<or>
     (isZero intn \<and> oper = Op_OR) \<or> (isZero intn \<and> oper = Op_LOR) \<or>
     (isZero intn \<and> oper = Op_SHL) \<or> (isZero intn \<and> oper = Op_SHR)"

section \<open>Subtree loops\<close>

text \<open>
  The loops run \<^verbatim>\<open>n\<close> downwards; the recursion parameter is \<^verbatim>\<open>n + 1\<close>.
\<close>

fun reduce_children :: "int \<Rightarrow> int \<Rightarrow> nat \<Rightarrow> 'f Expr \<Rightarrow> 'f Expr" where
  "reduce_children pdepth delta 0 terms = terms"
| "reduce_children pdepth delta (Suc n) terms =
     (if isEmpty (terms ! n) then reduce_children pdepth delta n terms
      else if m_depth (terms ! n) \<le> pdepth then terms
      else reduce_children pdepth delta n (terms[n := add_depth (- delta) (terms ! n)]))"

definition ReduceDepth :: "'f Expr \<Rightarrow> nat \<Rightarrow> int \<Rightarrow> 'f Expr" where
  "ReduceDepth terms pos delta =
     (let parent = terms ! pos;
          terms1 = (if isOp parent then reduce_children (m_depth parent) delta pos terms else terms)
      in terms1[pos := add_depth (- delta) parent])"

fun clear_children :: "int \<Rightarrow> int \<Rightarrow> nat \<Rightarrow> 'f Expr \<Rightarrow> 'f Expr" where
  "clear_children pdepth keep 0 terms = terms"
| "clear_children pdepth keep (Suc n) terms =
     (if isEmpty (terms ! n) then clear_children pdepth keep n terms
      else if m_depth (terms ! n) \<le> pdepth then terms
      else if int n = keep then clear_children pdepth keep n terms
      else clear_children pdepth keep n (terms[n := Clear (terms ! n)]))"

definition norm_pos :: "'f Expr \<Rightarrow> int \<Rightarrow> int" where
  "norm_pos terms pos = (if pos < 0 then pos + int (length terms) else pos)"

definition valid_pos :: "'f Expr \<Rightarrow> int \<Rightarrow> bool" where
  "valid_pos terms pos \<longleftrightarrow> 0 \<le> norm_pos terms pos \<and> norm_pos terms pos < int (length terms)"

definition ClearExcept :: "'f Expr \<Rightarrow> int \<Rightarrow> int \<Rightarrow> 'f Expr outcome" where
  "ClearExcept terms pos keep =
     (if terms = [] then Ret terms
      else if keep > 0 \<and> (keep \<ge> int (length terms) \<or> isOp (terms ! nat keep)) then Undefined
      else if \<not> valid_pos terms pos then Undefined
      else let p = nat (norm_pos terms pos) in
           Ret (clear_children (m_depth (terms ! p)) keep p terms))"

text \<open>
  \<^verbatim>\<open>MakeIdent\<close> folds a unary operator over an integer; a diagnostic of the calculation is
  reported and the number left as it is.
\<close>

definition calc_report :: "IntNum outcome \<Rightarrow> IntNum \<Rightarrow> (IntNum \<times> diag list) outcome" where
  "calc_report res old =
     (case res of Ret r \<Rightarrow> Ret (r, []) | Fail d \<Rightarrow> Ret (old, [d]) | Undefined \<Rightarrow> Undefined)"

fun make_ident_child :: "Op \<Rightarrow> nat \<Rightarrow> nat \<Rightarrow> 'f Expr \<Rightarrow> ('f Expr \<times> diag list) outcome" where
  "make_ident_child oper pos 0 terms = Ret (terms, [])"
| "make_ident_child oper pos (Suc n) terms =
     (let child = terms ! n; root = terms ! pos in
      if isEmpty child then make_ident_child oper pos n terms
      else if m_depth child < m_depth root then Undefined
      else if m_depth child \<noteq> m_depth root + 1 then make_ident_child oper pos n terms
      else case getIntNum child of
             None \<Rightarrow> Ret (terms, [])
           | Some intn \<Rightarrow> bind_out (calc_report (Calc1 oper intn) intn) (\<lambda>(r, ds).
               Ret (terms[n := add_depth (-1) (setIntNum r child), pos := Clear root], ds)))"

definition MakeIdent :: "'f Expr \<Rightarrow> int \<Rightarrow> ('f Expr \<times> diag list) outcome" where
  "MakeIdent terms pos =
     (if \<not> valid_pos terms pos then Undefined
      else
        let p = nat (norm_pos terms pos); root = terms ! p; oper = getOp root;
            clean = (\<lambda>(ts, ds). Ret (Cleanup ts, ds)) in
        if \<not> isOp root then Ret (terms, [])
        else if getNumChild root = 0 then Ret (terms[p := Zero root], [])
        else if getNumChild root \<noteq> 1 then Ret (terms, [])
        else if \<not> isUnary oper then
          let ts = ReduceDepth terms p 1 in clean (ts[p := Clear (ts ! p)], [])
        else if oper < Op_NONNUM then bind_out (make_ident_child oper p p terms) clean
        else clean (terms, []))"

section \<open>Queries\<close>

fun contains_child :: "int \<Rightarrow> int \<Rightarrow> nat \<Rightarrow> 'f Expr \<Rightarrow> bool" where
  "contains_child pdepth typ 0 terms = False"
| "contains_child pdepth typ (Suc n) terms =
     (if isEmpty (terms ! n) then contains_child pdepth typ n terms
      else if m_depth (terms ! n) \<le> pdepth then False
      else if isType (terms ! n) typ then True
      else contains_child pdepth typ n terms)"

definition Contains :: "'f Expr \<Rightarrow> int \<Rightarrow> int \<Rightarrow> bool outcome" where
  "Contains terms typ pos =
     (if terms = [] then Ret False
      else if \<not> valid_pos terms pos then Undefined
      else let p = nat (norm_pos terms pos); parent = terms ! p in
           if \<not> isOp parent then Ret (isType parent typ)
           else Ret (contains_child (m_depth parent) typ p terms))"

definition isIntNum :: "'f Expr \<Rightarrow> bool" where
  "isIntNum terms \<longleftrightarrow> length terms = 1 \<and> isType (hd terms) 2"

definition isSymbol :: "'f Expr \<Rightarrow> bool" where
  "isSymbol terms \<longleftrightarrow> length terms = 1 \<and> isType (hd terms) 16"

definition isRegister :: "'f Expr \<Rightarrow> bool" where
  "isRegister terms \<longleftrightarrow> length terms = 1 \<and> isType (hd terms) 1"

text \<open>
  \<^verbatim>\<open>getChildren\<close> with a left operand pointer (\<open>two\<close>) or for a single child: the positions
  found and the position after the tree.
\<close>

fun get_children_loop :: "bool \<Rightarrow> int \<Rightarrow> nat \<Rightarrow> 'f Expr \<Rightarrow> int \<Rightarrow> int \<Rightarrow> (int \<times> int \<times> int) option" where
  "get_children_loop two rdepth 0 terms lhs rhs = Some (lhs, rhs, -1)"
| "get_children_loop two rdepth (Suc n) terms lhs rhs =
     (let child = terms ! n in
      if isEmpty child then get_children_loop two rdepth n terms lhs rhs
      else if m_depth child \<le> rdepth then Some (lhs, rhs, int n)
      else if m_depth child \<noteq> rdepth + 1 then get_children_loop two rdepth n terms lhs rhs
      else if rhs < 0 then get_children_loop two rdepth n terms lhs (int n)
      else if two \<and> lhs < 0 then get_children_loop two rdepth n terms (int n) rhs
      else None)"

definition getChildren :: "'f Expr \<Rightarrow> bool \<Rightarrow> int \<Rightarrow> (int \<times> int \<times> int) option outcome" where
  "getChildren terms two pos =
     (if \<not> valid_pos terms pos then Undefined
      else
        let p = nat (norm_pos terms pos); root = terms ! p in
        Ret (if \<not> isOp root then None
             else if getNumChild root \<noteq> (if two then 2 else 1) then None
             else case get_children_loop two (m_depth root) p terms (-1) (-1) of
                    None \<Rightarrow> None
                  | Some (lhs, rhs, n) \<Rightarrow>
                      if rhs \<ge> 0 \<and> (\<not> two \<or> lhs \<ge> 0) then Some (lhs, rhs, n) else None))"

text \<open>\<^verbatim>\<open>isNeg1Sym\<close>: symbol position, position of minus one, position after the tree.\<close>

fun neg1sym_loop :: "bool \<Rightarrow> int \<Rightarrow> nat \<Rightarrow> 'f Expr \<Rightarrow> int option \<Rightarrow> int option \<Rightarrow>
    (int option \<times> int option \<times> int) option" where
  "neg1sym_loop loc_ok rdepth 0 terms sy neg1 = Some (sy, neg1, -1)"
| "neg1sym_loop loc_ok rdepth (Suc n) terms sy neg1 =
     (let child = terms ! n in
      if isEmpty child then neg1sym_loop loc_ok rdepth n terms sy neg1
      else if m_depth child \<le> rdepth then Some (sy, neg1, int n)
      else if m_depth child \<noteq> rdepth + 1 then None
      else case getIntNum child of
             Some intn \<Rightarrow>
               if \<not> isNeg1 intn then None
               else neg1sym_loop loc_ok rdepth n terms sy (Some (int n))
           | None \<Rightarrow>
               if isType child 16 \<or> (loc_ok \<and> isType child 32)
               then neg1sym_loop loc_ok rdepth n terms (Some (int n)) neg1
               else None)"

definition isNeg1Sym :: "'f Expr \<Rightarrow> int \<Rightarrow> bool \<Rightarrow> (int \<times> int \<times> int) option outcome" where
  "isNeg1Sym terms pos loc_ok =
     (if terms = [] then Ret None
      else if \<not> valid_pos terms pos then Undefined
      else
        let p = nat (norm_pos terms pos); root = terms ! p in
        Ret (if \<not> isOp_of root Op_MUL \<or> getNumChild root \<noteq> 2 then None
             else case neg1sym_loop loc_ok (m_depth root) p terms None None of
                    Some (Some sy, Some neg1, n) \<Rightarrow> Some (sy, neg1, n)
                  | _ \<Rightarrow> None))"

section \<open>Substitution and extraction\<close>

text \<open>\<open>Substitute\<close> keeps the terms replaced before an index out of range is met.\<close>

fun Substitute :: "'f ExprTerm list \<Rightarrow> 'f Expr \<Rightarrow> bool \<times> 'f Expr" where
  "Substitute subst [] = (True, [])"
| "Substitute subst (t # ts) =
     (case t_data t of
        T_SUBST i \<Rightarrow>
          if i \<ge> length subst then (False, t # ts)
          else (let (ok, ts') = Substitute subst ts in
                (ok, (subst ! i)\<lparr>m_depth := m_depth t\<rparr> # ts'))
      | _ \<Rightarrow> (let (ok, ts') = Substitute subst ts in (ok, t # ts')))"

text \<open>
  \<open>ExtractLHS\<close>: the first loop brings the right operand up and returns where the left one
  ends, the second moves the left operand out.
\<close>

fun extract_rhs :: "int \<Rightarrow> nat \<Rightarrow> nat \<Rightarrow> 'f Expr \<Rightarrow> nat \<times> 'f Expr" where
  "extract_rhs pdepth pos 0 terms = (0, terms)"
| "extract_rhs pdepth pos (Suc n) terms =
     (let child = terms ! n in
      if isEmpty child then extract_rhs pdepth pos n terms
      else if m_depth child \<le> pdepth then (Suc n, terms)
      else if n \<noteq> pos \<and> m_depth child = pdepth + 1 then (Suc n, terms)
      else extract_rhs pdepth pos n (terms[n := add_depth (-1) child]))"

fun extract_lhs :: "int \<Rightarrow> nat \<Rightarrow> 'f Expr \<Rightarrow> 'f Expr \<Rightarrow> 'f Expr \<times> 'f Expr" where
  "extract_lhs pdepth 0 terms rv = (terms, rv)"
| "extract_lhs pdepth (Suc n) terms rv =
     (let child = terms ! n in
      if isEmpty child then extract_lhs pdepth n terms rv
      else if m_depth child \<le> pdepth then (terms, rv)
      else extract_lhs pdepth n (terms[n := mk_term T_NONE 0])
             (add_depth (- (pdepth + 1)) child # rv))"

definition ExtractLHS :: "'f Expr \<Rightarrow> int \<Rightarrow> ('f Expr \<times> 'f Expr) outcome" where
  "ExtractLHS terms pos =
     (if terms = [] then Ret (terms, [])
      else if \<not> valid_pos terms pos then Undefined
      else
        let p = nat (norm_pos terms pos) in
        if p = 0 then Ret (terms, [])
        else
          let pdepth = m_depth (terms ! p);
              (n, terms1) = extract_rhs pdepth (p - 1) p (terms[p := Clear (terms ! p)]);
              (terms2, rv) = extract_lhs pdepth n terms1 []
          in Ret (Cleanup terms2, rv))"

text \<open>The results are the expression left behind and the one returned.\<close>

fun deep_segoff :: "nat \<Rightarrow> 'f Expr \<Rightarrow> int option" where
  "deep_segoff 0 terms = None"
| "deep_segoff (Suc n) terms =
     (if isOp_of (terms ! n) Op_SEGOFF then Some (int n) else deep_segoff n terms)"

definition ExtractDeepSegOff :: "'f Expr \<Rightarrow> ('f Expr \<times> 'f Expr) outcome" where
  "ExtractDeepSegOff terms =
     (case deep_segoff (length terms) terms of
        Some i \<Rightarrow> ExtractLHS terms i | None \<Rightarrow> Ret (terms, []))"

definition ExtractSegOff :: "'f Expr \<Rightarrow> ('f Expr \<times> 'f Expr) outcome" where
  "ExtractSegOff terms =
     (if terms = [] then Undefined
      else if \<not> isOp_of (last terms) Op_SEGOFF then Ret (terms, [])
      else ExtractLHS terms (-1))"

definition ExtractWRT :: "'f Expr \<Rightarrow> ('f Expr \<times> 'f Expr) outcome" where
  "ExtractWRT terms =
     (if terms = [] then Undefined
      else if \<not> isOp_of (last terms) Op_WRT then Ret (terms, [])
      else bind_out (ExtractLHS terms (-1)) (\<lambda>(rest, lhs). Ret (lhs, rest)))"

end
