(* ===== verification/Expr_Tree.thy ===== *)
theory Expr_Tree
  imports Expr
begin

text \<open>
  Expressions as trees.  The vector of an expression is the post-order listing of a tree,
  every term with its depth; \<open>flatten\<close> is that listing and \<open>wf_tree\<close> the arities the
  builder accepts.  The theorems say what the operations on the vector do to the tree.
\<close>

unbundle bit_operations_syntax

datatype 'f tree = Leaf "'f term_data" | Node Op "'f tree list"

fun flatten :: "int \<Rightarrow> 'f tree \<Rightarrow> 'f Expr" where
  "flatten d (Leaf x) = [mk_term x d]"
| "flatten d (Node oper ts) =
     concat (List.map (flatten (d + 1)) ts) @ [mk_term (T_OP oper (int (length ts))) d]"

definition leaf_ok :: "'f term_data \<Rightarrow> bool" where
  "leaf_ok x \<longleftrightarrow> (case x of T_NONE \<Rightarrow> False | T_OP _ _ \<Rightarrow> False | _ \<Rightarrow> True)"

definition arity_ok :: "Op \<Rightarrow> nat \<Rightarrow> bool" where
  "arity_ok oper n \<longleftrightarrow>
     0 < n \<and> oper \<noteq> Op_IDENT \<and>
     (if n = 1 then isUnary oper else if n = 2 then \<not> isUnary oper else isAssociative oper)"

fun wf_tree :: "'f tree \<Rightarrow> bool" where
  "wf_tree (Leaf x) = leaf_ok x"
| "wf_tree (Node oper ts) = (arity_ok oper (length ts) \<and> list_all wf_tree ts)"

fun tree_subst :: "'f ExprTerm list \<Rightarrow> 'f tree \<Rightarrow> 'f tree" where
  "tree_subst subst (Leaf x) = Leaf (case x of T_SUBST i \<Rightarrow> t_data (subst ! i) | _ \<Rightarrow> x)"
| "tree_subst subst (Node oper ts) = Node oper (List.map (tree_subst subst) ts)"

fun tree_leaves :: "'f tree \<Rightarrow> 'f term_data list" where
  "tree_leaves (Leaf x) = [x]"
| "tree_leaves (Node oper ts) = concat (List.map tree_leaves ts)"

fun tree_ops :: "'f tree \<Rightarrow> Op list" where
  "tree_ops (Leaf x) = []"
| "tree_ops (Node oper ts) = concat (List.map tree_ops ts) @ [oper]"

definition subst_ok :: "nat \<Rightarrow> 'f tree \<Rightarrow> bool" where
  "subst_ok n t \<longleftrightarrow> list_all (\<lambda>x. case x of T_SUBST i \<Rightarrow> i < n | _ \<Rightarrow> True) (tree_leaves t)"

section \<open>Lemmas\<close>

lemma add_depth_simps [simp]:
  "m_depth (add_depth k t) = m_depth t + k" "t_data (add_depth k t) = t_data t" "isEmpty (add_depth k t) = isEmpty t"
  "m_depth (mk_term x d) = d" "t_data (mk_term x d) = x" "add_depth k (mk_term x d) = mk_term x (d + k)"
  "add_depth i (add_depth j t) = add_depth (i + j) t" "m_depth (Clear t) = m_depth t" "isEmpty (Clear t)"
  "add_depth 0 t = t"
  by (simp_all add: add_depth_def mk_term_def isEmpty_def Clear_def)

lemma flatten_shift: "List.map (add_depth k) (flatten d t) = flatten (d + k) t"
proof (induction d t rule: flatten.induct)
  case (2 d oper ts)
  then have "List.map (\<lambda>t. List.map (add_depth k) (flatten (d + 1) t)) ts = List.map (flatten (d + k + 1)) ts"
    by (simp add: ac_simps)
  note eq = arg_cong [OF this, of concat]
  show ?case by (simp add: map_concat comp_def eq)
qed simp


lemma flatten_ne [simp]: "flatten d t \<noteq> []"
  by (cases t) simp_all

lemma flatten_depth: "x \<in> set (flatten d t) \<Longrightarrow> d \<le> m_depth x"
  by (induction d t rule: flatten.induct) force+

lemma flatten_nonempty: "wf_tree t \<Longrightarrow> x \<in> set (flatten d t) \<Longrightarrow> \<not> isEmpty x"
  by (induction d t rule: flatten.induct) (auto simp: isEmpty_def leaf_ok_def list_all_iff split: term_data.splits)

lemma flatten_split:
  obtains inner root where "flatten d t = inner @ [root]" "m_depth root = d" "\<forall>x\<in>set inner. d < m_depth x"
proof (cases t)
  case (Leaf x)
  then show ?thesis using that [of "[]"] by simp
next
  case (Node oper ts)
  have "\<forall>x\<in>set (concat (List.map (flatten (d + 1)) ts)). d < m_depth x"
    using flatten_depth [of _ "d + 1"] by fastforce
  then show ?thesis using that [of "concat (List.map (flatten (d + 1)) ts)"] Node by simp
qed

lemma nth_mid: "(pre @ x # post) ! length pre = x"
  by simp

lemma extract_rhs_block:
  assumes "\<And>i. i < length xs \<Longrightarrow> \<not> isEmpty (xs ! i) \<and> pd < m_depth (xs ! i) \<and> (length pre + i = pos \<or> m_depth (xs ! i) \<noteq> pd + 1)"
  shows "extract_rhs pd pos (length pre + length xs) (pre @ xs @ post) =
    extract_rhs pd pos (length pre) (pre @ List.map (add_depth (-1)) xs @ post)"
  using assms
proof (induction xs arbitrary: post rule: rev_induct)
  case (snoc x xs)
  have x: "\<not> isEmpty x" "pd < m_depth x" "length pre + length xs = pos \<or> m_depth x \<noteq> pd + 1"
    using snoc.prems [of "length xs"] by auto
  have idx: "(pre @ xs @ x # post) ! (length pre + length xs) = x"
    by (simp add: nth_append)
  have upd: "(pre @ xs @ x # post)[length pre + length xs := y] = pre @ xs @ y # post" for y
    by (simp add: list_update_append)
  have IH: "extract_rhs pd pos (length pre + length xs) (pre @ xs @ add_depth (-1) x # post) =
     extract_rhs pd pos (length pre) (pre @ List.map (add_depth (-1)) xs @ add_depth (-1) x # post)"
    using snoc.prems by (intro snoc.IH) (metis length_append_singleton less_SucI nth_append)
  show ?case using x IH by (auto simp: idx upd Let_def)
qed simp

lemma extract_lhs_block:
  assumes "\<And>x. x \<in> set xs \<Longrightarrow> \<not> isEmpty x \<and> pd < m_depth x"
  shows "extract_lhs pd (length xs) (xs @ post) rv =
    (replicate (length xs) (mk_term T_NONE 0) @ post, List.map (add_depth (- (pd + 1))) xs @ rv)"
  using assms
proof (induction xs arbitrary: post rv rule: rev_induct)
  case (snoc x xs)
  then have IH: "extract_lhs pd (length xs) (xs @ mk_term T_NONE 0 # post) (add_depth (- (pd + 1)) x # rv) =
      (replicate (length xs) (mk_term T_NONE 0) @ mk_term T_NONE 0 # post,
       List.map (add_depth (- (pd + 1))) xs @ add_depth (- (pd + 1)) x # rv)"
    by simp
  have "extract_lhs pd (length (xs @ [x])) ((xs @ [x]) @ post) rv =
      extract_lhs pd (length xs) (xs @ mk_term T_NONE 0 # post) (add_depth (- (pd + 1)) x # rv)"
    using snoc.prems [of x] by (simp add: Let_def)
  then show ?case unfolding IH by (simp add: replicate_append_same flip: replicate_Suc)
qed simp

lemma Cleanup_append: "Cleanup (xs @ ys) = Cleanup xs @ Cleanup ys"
  by (simp add: Cleanup_def)

lemma Cleanup_nonempty: "(\<And>x. x \<in> set xs \<Longrightarrow> \<not> isEmpty x) \<Longrightarrow> Cleanup xs = xs"
  by (simp add: Cleanup_def)

lemma ExtractLHS_flatten:
  assumes "wf_tree l" "wf_tree r"
  shows "ExtractLHS (flatten 0 (Node oper [l, r])) (-1) = Ret (flatten 0 r, flatten 0 l)"
proof -
  let ?L = "flatten 1 l" and ?R = "flatten 1 r" and ?o = "mk_term (T_OP oper 2) 0"
  obtain ri rr where R: "?R = ri @ [rr]" "m_depth rr = 1" "\<forall>x\<in>set ri. 1 < m_depth x" by (rule flatten_split)
  obtain li lr where L: "?L = li @ [lr]" "m_depth lr = 1" "\<forall>x\<in>set li. 1 < m_depth x" by (rule flatten_split)
  have p: "length ?L + length ?R - 1 = length ?L + length ri" using R(1) by simp
  have ne: "\<And>x. x \<in> set ?R \<Longrightarrow> \<not> isEmpty x" "\<And>x. x \<in> set ?L \<Longrightarrow> \<not> isEmpty x"
    using flatten_nonempty assms by blast+
  have step1: "extract_rhs 0 (length ?L + length ri) (length ?L + length ?R) (?L @ ?R @ [Clear ?o]) =
      extract_rhs 0 (length ?L + length ri) (length ?L) (?L @ List.map (add_depth (-1)) ?R @ [Clear ?o])"
  proof (rule extract_rhs_block)
    fix i assume i: "i < length ?R"
    have "0 < m_depth (?R ! i)" using flatten_depth [of "?R ! i" 1 r] i by simp
    moreover have "length ?L + i = length ?L + length ri \<or> m_depth (?R ! i) \<noteq> 0 + 1"
      using i R nth_mem [of i ri] by (fastforce simp: nth_append less_Suc_eq)
    ultimately show "\<not> isEmpty (?R ! i) \<and> 0 < m_depth (?R ! i) \<and> (length ?L + i = length ?L + length ri \<or> m_depth (?R ! i) \<noteq> 0 + 1)"
      using ne(1) i by auto
  qed
  have step2: "extract_rhs 0 (length ?L + length ri) (length ?L) (?L @ List.map (add_depth (-1)) ?R @ [Clear ?o]) =
     (length ?L, ?L @ List.map (add_depth (-1)) ?R @ [Clear ?o])"
    using L ne(2) by (simp add: nth_append)
  have step3: "extract_lhs 0 (length ?L) (?L @ List.map (add_depth (-1)) ?R @ [Clear ?o]) [] =
     (replicate (length ?L) (mk_term T_NONE 0) @ List.map (add_depth (-1)) ?R @ [Clear ?o], List.map (add_depth (-1)) ?L)"
    using extract_lhs_block [of ?L 0 "List.map (add_depth (-1)) ?R @ [Clear ?o]" "[]"] ne(2) flatten_depth [of _ 1 l] by fastforce
  have clean: "Cleanup (replicate (length ?L) (mk_term T_NONE 0) @ List.map (add_depth (-1)) ?R @ [Clear ?o]) = flatten 0 r"
    using flatten_shift [of "-1" 1 r] ne(1) flatten_nonempty [OF assms(2), of _ 0]
    by (simp add: Cleanup_append Cleanup_nonempty) (simp add: Cleanup_def isEmpty_def Clear_def)
  define t where "t = ?L @ ?R @ [?o]"
  have t: "t \<noteq> []" "valid_pos t (-1)" "nat (norm_pos t (-1)) = length ?L + length ?R"
      "t ! (length ?L + length ?R) = ?o" "t[length ?L + length ?R := Clear ?o] = ?L @ ?R @ [Clear ?o]"
    by (simp_all add: t_def valid_pos_def norm_pos_def nth_append list_update_append)
  have "length ?L + length ?R \<noteq> 0" by simp
  then have "ExtractLHS t (-1) = Ret (flatten 0 r, flatten 0 l)"
    unfolding ExtractLHS_def Let_def t(3-5) p
    using t(1,2) step1 step2 step3 clean flatten_shift [of "-1" 1 l] by simp
  then show ?thesis by (simp add: t_def)
qed

lemma Substitute_append:
  "fst (Substitute subst xs) \<Longrightarrow> Substitute subst (xs @ ys) =
     (fst (Substitute subst ys), snd (Substitute subst xs) @ snd (Substitute subst ys))"
  by (induction xs) (auto simp: Let_def split: prod.splits term_data.splits if_splits)

lemma Substitute_concat:
  "(\<And>x. x \<in> set xss \<Longrightarrow> fst (Substitute subst x)) \<Longrightarrow> Substitute subst (concat xss) =
     (True, concat (List.map (\<lambda>x. snd (Substitute subst x)) xss))"
  by (induction xss) (simp_all add: Substitute_append)

lemma Substitute_flatten:
  "subst_ok (length subst) t \<Longrightarrow> Substitute subst (flatten d t) = (True, flatten d (tree_subst subst t))"
proof (induction d t rule: flatten.induct)
  case (1 d x)
  then show ?case by (cases x) (auto simp: subst_ok_def mk_term_def)
next
  case (2 d oper ts)
  then have IH: "t \<in> set ts \<Longrightarrow> Substitute subst (flatten (d + 1) t) = (True, flatten (d + 1) (tree_subst subst t))" for t
    by (auto simp: subst_ok_def list_all_iff)
  have "Substitute subst (concat (List.map (flatten (d + 1)) ts)) =
     (True, concat (List.map (\<lambda>x. snd (Substitute subst x)) (List.map (flatten (d + 1)) ts)))"
    using IH by (intro Substitute_concat) auto
  also have "List.map (\<lambda>x. snd (Substitute subst x)) (List.map (flatten (d + 1)) ts) =
      List.map (flatten (d + 1)) (List.map (tree_subst subst) ts)"
    using IH by simp
  finally show ?case by (simp add: Substitute_append mk_term_def)
qed

lemma contains_block:
  assumes "\<And>x. x \<in> set xs \<Longrightarrow> \<not> isEmpty x \<and> pd < m_depth x"
  shows "contains_child pd typ (length xs) (xs @ post) = (\<exists>x\<in>set xs. isType x typ)"
  using assms
proof (induction xs arbitrary: post rule: rev_induct)
  case (snoc x xs)
  then have "contains_child pd typ (length xs) (xs @ x # post) = (\<exists>x\<in>set xs. isType x typ)" by simp
  then show ?case using snoc.prems [of x] by (simp add: not_le [symmetric])
qed simp

lemma flatten_set:
  "(\<exists>x\<in>set (flatten d t). isType x typ) \<longleftrightarrow>
     (\<exists>x\<in>set (tree_leaves t). type_mask x AND typ \<noteq> 0) \<or> (tree_ops t \<noteq> [] \<and> 64 AND typ \<noteq> 0)"
  by (induction d t rule: flatten.induct) (auto simp: isType_def)

lemma ExprBuilder_tree:
  assumes "arity_ok oper (length ts)"
  shows "ExprBuilder oper (List.map (flatten 0) ts) = Ret (flatten 0 (Node oper ts))"
proof -
  have "List.map (add_depth 1) (concat (List.map (flatten 0) ts)) = concat (List.map (flatten 1) ts)"
    by (simp add: map_concat o_def flatten_shift)
  then show ?thesis using assms
    by (auto simp: ExprBuilder_def AppendOp_def arity_ok_def Let_def isUnary_def split: if_splits)
qed

lemma Calc_expr_tree:
  assumes "arity_ok oper 2"
  shows "Calc_expr oper (flatten 0 l) (flatten 0 r) = Ret (flatten 0 (Node oper [l, r]))"
  using ExprBuilder_tree [of oper "[l, r]"] assms by (simp add: Calc_expr_def ExprBuilder_def numeral_2_eq_2)

section \<open>Properties\<close>

text \<open>
  C36. The expression builder applied to the listings of trees is the listing of the tree
  with these operands: every expression built with it is well formed.
\<close>

theorem ExprBuilder_flatten:
  assumes "arity_ok oper (length ts)"
  shows "ExprBuilder oper (List.map (flatten 0) ts) = Ret (flatten 0 (Node oper ts))"
  by (rule ExprBuilder_tree [OF assms])

theorem ExprBuilder_flatten_witness:
  "ExprBuilder Op_SUB (List.map (flatten 0) [Leaf (T_INT (SV 3)), Leaf (T_SYM 7 :: nat term_data)]) =
     Ret [mk_term (T_INT (SV 3)) 1, mk_term (T_SYM 7) 1, mk_term (T_OP Op_SUB 2) 0]"
  using ExprBuilder_flatten [of Op_SUB "[Leaf (T_INT (SV 3)), Leaf (T_SYM 7 :: nat term_data)]"]
  by (simp add: arity_ok_def isUnary_def)

text \<open>
  \<open>Contains\<close> finds a term of the given non-operator types exactly when the tree has a
  leaf of one of them.
\<close>

lemma Contains_flatten:
  assumes "wf_tree t" "64 AND typ = 0"
  shows "Contains (flatten 0 t) typ (-1) = Ret (\<exists>x\<in>set (tree_leaves t). type_mask x AND typ \<noteq> 0)"
proof (cases t)
  case (Leaf x)
  then show ?thesis using assms
    by (auto simp: Contains_def valid_pos_def norm_pos_def isOp_def leaf_ok_def isType_def split: term_data.splits)
next
  case (Node oper ts)
  let ?xs = "concat (List.map (flatten 1) ts)"
  have "\<And>x. x \<in> set ?xs \<Longrightarrow> \<not> isEmpty x \<and> 0 < m_depth x"
    using assms(1) flatten_nonempty [of _ _ 1] flatten_depth [of _ 1] Node by (fastforce simp: list_all_iff)
  then have "contains_child 0 typ (length ?xs) (?xs @ [mk_term (T_OP oper (int (length ts))) 0]) = (\<exists>x\<in>set ?xs. isType x typ)"
    by (rule contains_block)
  also have "\<dots> = (\<exists>y\<in>set ts. \<exists>x\<in>set (flatten 1 y). isType x typ)" by auto
  also have "\<dots> = (\<exists>x\<in>set (tree_leaves t). type_mask x AND typ \<noteq> 0)"
    unfolding flatten_set using assms(2) by (simp add: Node)
  finally show ?thesis using Node
    by (simp add: Contains_def valid_pos_def norm_pos_def Let_def isOp_def nth_append)
qed

text \<open>
  C37. \<open>Substitute\<close> succeeds when every index is in range and then replaces exactly the
  substitution leaves of the tree, at their places.
\<close>

theorem Substitute_tree:
  assumes "subst_ok (length subst) t"
  shows "Substitute subst (flatten d t) = (True, flatten d (tree_subst subst t))"
  by (rule Substitute_flatten [OF assms])

theorem Substitute_tree_witness:
  "Substitute [mk_term (T_INT (SV 9)) 5] (flatten 0 (Node Op_ADD [Leaf (T_SUBST 0), Leaf (T_SYM 3 :: nat term_data)])) =
     (True, flatten 0 (Node Op_ADD [Leaf (T_INT (SV 9)), Leaf (T_SYM 3)]))"
  using Substitute_tree [of "[mk_term (T_INT (SV 9)) 5]" "Node Op_ADD [Leaf (T_SUBST 0), Leaf (T_SYM 3 :: nat term_data)]" 0]
  by (simp add: subst_ok_def)

text \<open>
  C38. \<open>ExtractSegOff\<close> splits \<^verbatim>\<open>seg:off\<close> into the segment, which it returns, and the offset,
  which it leaves behind; \<open>ExtractWRT\<close> splits \<^verbatim>\<open>x WRT y\<close> into \<^verbatim>\<open>y\<close>, returned, and \<^verbatim>\<open>x\<close>, left
  behind.  Both parts are again listings of trees.
\<close>

theorem Extract_split:
  assumes "wf_tree l" "wf_tree r"
  shows "ExtractSegOff (flatten 0 (Node Op_SEGOFF [l, r])) = Ret (flatten 0 r, flatten 0 l) \<and>
         ExtractWRT (flatten 0 (Node Op_WRT [l, r])) = Ret (flatten 0 l, flatten 0 r)"
  using ExtractLHS_flatten [OF assms, of Op_SEGOFF] ExtractLHS_flatten [OF assms, of Op_WRT]
  by (simp add: ExtractSegOff_def ExtractWRT_def isOp_of_def)

theorem Extract_split_witness:
  "ExtractSegOff (flatten 0 (Node Op_SEGOFF [Leaf (T_SYM 1), Leaf (T_SYM 2 :: nat term_data)])) =
     Ret ([mk_term (T_SYM 2) 0], [mk_term (T_SYM 1) 0])"
  using Extract_split [of "Leaf (T_SYM 1)" "Leaf (T_SYM 2 :: nat term_data)"] by (simp add: leaf_ok_def)

end
