(* ===== verification/Evaluate.thy ===== *)
theory Evaluate
  imports Expr_Tree
begin

text \<open>
  \<^verbatim>\<open>lib/yasmx/Location.cpp\<close>, \<^verbatim>\<open>CalcFloat\<close> of \<^verbatim>\<open>lib/yasmx/Expr.cpp\<close> and \<^verbatim>\<open>Evaluate\<close> of
  \<^verbatim>\<open>lib/yasmx/Location_util.cpp\<close>: the stack machine that evaluates an expression without
  changing it.  The object file is seen through an environment: the location of a symbol's
  label, and the offset and container of a bytecode.  Floating-point arithmetic is
  \<^verbatim>\<open>llvm::APFloat\<close>, a parameter; its status bits are those of \<^verbatim>\<open>APFloat::opStatus\<close>.
\<close>

unbundle bit_operations_syntax

record Env =
  env_label :: "nat \<Rightarrow> Location option"
  env_offset :: "nat \<Rightarrow> int"
  env_container :: "nat \<Rightarrow> nat"

record 'f float_ops =
  fo_arith :: "Op \<Rightarrow> 'f \<Rightarrow> 'f \<Rightarrow> 'f \<times> int"
  fo_neg :: "'f \<Rightarrow> 'f"
  fo_promote :: "bitvect \<Rightarrow> 'f \<Rightarrow> 'f"
  fo_nonzero :: "'f \<Rightarrow> bool"

section \<open>Locations\<close>

definition loc_offset :: "Env \<Rightarrow> Location \<Rightarrow> int outcome" where
  "loc_offset env loc =
     (case loc_bc loc of
        None \<Rightarrow> Undefined
      | Some bc \<Rightarrow> Ret (to_u64 (env_offset env bc + loc_off loc)))"

definition dist_of :: "int \<Rightarrow> int \<Rightarrow> IntNum outcome" where
  "dist_of from_off to_off = CalcAssert Op_SUB (set_u to_off) (Some (set_u from_off))"

text \<open>The results: the distance, or nothing when the code returns false.\<close>

definition CalcDist :: "Env \<Rightarrow> Location \<Rightarrow> Location \<Rightarrow> IntNum option outcome" where
  "CalcDist env loc1 loc2 =
     (case (loc_bc loc1, loc_bc loc2) of
        (Some b1, Some b2) \<Rightarrow>
          if env_container env b1 \<noteq> env_container env b2 then Ret None
          else bind_out (loc_offset env loc2) (\<lambda>off2.
               bind_out (loc_offset env loc1) (\<lambda>off1.
               bind_out (dist_of off1 off2) (\<lambda>d. Ret (Some d))))
      | _ \<Rightarrow> Undefined)"

definition CalcDistNoBC :: "Location \<Rightarrow> Location \<Rightarrow> IntNum option outcome" where
  "CalcDistNoBC loc1 loc2 =
     (case (loc_bc loc1, loc_bc loc2) of
        (Some b1, Some b2) \<Rightarrow>
          if b1 \<noteq> b2 then Ret None
          else bind_out (dist_of (loc_off loc1) (loc_off loc2)) (\<lambda>d. Ret (Some d))
      | _ \<Rightarrow> Undefined)"

section \<open>Floating point\<close>

text \<open>The new left operand, the return value and the diagnostics.\<close>

definition CalcFloat :: "'f float_ops \<Rightarrow> 'f \<Rightarrow> Op \<Rightarrow> 'f \<Rightarrow> 'f \<times> bool \<times> diag list" where
  "CalcFloat F lhs oper rhs =
     (let (res, status) =
            (case oper of
               Op_ADD \<Rightarrow> fo_arith F Op_ADD lhs rhs
             | Op_SUB \<Rightarrow> fo_arith F Op_SUB lhs rhs
             | Op_MUL \<Rightarrow> fo_arith F Op_MUL lhs rhs
             | Op_DIV \<Rightarrow> fo_arith F Op_DIV lhs rhs
             | Op_SIGNDIV \<Rightarrow> fo_arith F Op_DIV lhs rhs
             | Op_MOD \<Rightarrow> fo_arith F Op_MOD lhs rhs
             | Op_SIGNMOD \<Rightarrow> fo_arith F Op_MOD lhs rhs
             | _ \<Rightarrow> (lhs, 1)) in
      if status AND 1 \<noteq> 0 then (res, False, [err_float_invalid_op])
      else if status AND 2 \<noteq> 0 then (res, False, [err_divide_by_zero])
      else if status AND 4 \<noteq> 0 then (res, True, [warn_float_overflow])
      else if status AND 8 \<noteq> 0 then (res, True, [warn_float_underflow])
      else if status AND 16 \<noteq> 0 then (res, True, [warn_float_inexact])
      else (res, True, []))"

definition PromoteToFloat :: "'f float_ops \<Rightarrow> 'f \<Rightarrow> 'f term_data \<Rightarrow> 'f term_data outcome" where
  "PromoteToFloat F like d =
     (case d of
        T_FLOAT f \<Rightarrow> Ret d
      | T_INT n \<Rightarrow> Ret (T_FLOAT (fo_promote F (getBV n) like))
      | _ \<Rightarrow> Undefined)"

section \<open>Evaluation\<close>

text \<open>
  A step yields new data and diagnostics, or nothing when \<^verbatim>\<open>Evaluate\<close> returns false.
  \<open>eval_pair\<close> is the body of the loop over the further children.
\<close>

type_synonym 'a eval = "('a option \<times> diag list) outcome"

definition eval_pair :: "'f float_ops \<Rightarrow> Op \<Rightarrow> 'f term_data \<Rightarrow> 'f term_data \<Rightarrow> 'f term_data eval" where
  "eval_pair F oper res child =
     (let promoted =
            (case (res, child) of
               (T_FLOAT f, _) \<Rightarrow> bind_out (PromoteToFloat F f child) (\<lambda>c. Ret (res, c))
             | (_, T_FLOAT g) \<Rightarrow> bind_out (PromoteToFloat F g res) (\<lambda>r. Ret (r, child))
             | _ \<Rightarrow> Ret (res, child)) in
      bind_out promoted (\<lambda>(r, c).
        case (r, c) of
          (T_INT a, T_INT b) \<Rightarrow>
            bind_out (calc_report (Calc oper a b) a) (\<lambda>(v, ds). Ret (Some (T_INT v), ds))
        | (T_FLOAT f, T_FLOAT g) \<Rightarrow>
            if oper < Op_NEG
            then (let (h, ok, ds) = CalcFloat F f oper g in Ret (Some (T_FLOAT h), ds))
            else Ret (None, [])
        | _ \<Rightarrow> Undefined))"

fun eval_children :: "'f float_ops \<Rightarrow> Op \<Rightarrow> 'f term_data \<Rightarrow> 'f ExprTerm list \<Rightarrow> 'f term_data eval" where
  "eval_children F oper res [] = Ret (Some res, [])"
| "eval_children F oper res (c # cs) =
     bind_out (eval_pair F oper res (t_data c)) (\<lambda>(r, ds).
       case r of
         None \<Rightarrow> Ret (None, ds)
       | Some res' \<Rightarrow> bind_out (eval_children F oper res' cs) (\<lambda>(r', ds'). Ret (r', ds @ ds')))"

definition eval_unary :: "'f float_ops \<Rightarrow> Op \<Rightarrow> 'f term_data \<Rightarrow> 'f term_data eval" where
  "eval_unary F oper res =
     (if \<not> isUnary oper then Undefined
      else case res of
             T_INT n \<Rightarrow> bind_out (calc_report (Calc1 oper n) n) (\<lambda>(v, ds). Ret (Some (T_INT v), ds))
           | T_FLOAT f \<Rightarrow> if oper = Op_NEG then Ret (Some (T_FLOAT (fo_neg F f)), []) else Ret (None, [])
           | _ \<Rightarrow> Undefined)"

definition eval_op :: "'f float_ops \<Rightarrow> Op \<Rightarrow> int \<Rightarrow> int \<Rightarrow> 'f ExprTerm list \<Rightarrow> 'f ExprTerm list eval" where
  "eval_op F oper nchild depth stack =
     (if nchild \<le> 0 \<or> int (length stack) < nchild then Undefined
      else
        let k = length stack - nat nchild; below = take k stack; first = stack ! k;
            others = drop (Suc k) stack in
        if oper = Op_SEGOFF then
          (if nchild \<noteq> 2 then Undefined else Ret (Some (below @ [hd others]), []))
        else if oper \<ge> Op_NONNUM then Ret (None, [])
        else
          bind_out (eval_children F oper (t_data first) others) (\<lambda>(r, ds).
            case r of
              None \<Rightarrow> Ret (None, ds)
            | Some res \<Rightarrow>
                bind_out (if nchild = 1 then eval_unary F oper res else Ret (Some res, [])) (\<lambda>(r', ds').
                  Ret (map_option (\<lambda>d. below @ [mk_term d depth]) r', ds @ ds'))))"

text \<open>A term that is no operator is converted to a number and pushed.\<close>

definition eval_leaf :: "Env \<Rightarrow> 'f ExprTerm list \<Rightarrow> bool \<Rightarrow> bool \<Rightarrow> 'f ExprTerm \<Rightarrow> 'f ExprTerm option outcome" where
  "eval_leaf env subst valueloc zeroreg t =
     (let push_loc = (\<lambda>loc. bind_out (loc_offset env loc) (\<lambda>off.
                        Ret (Some (mk_term (T_INT (set_u off)) (m_depth t))))) in
      case t_data t of
        T_REG _ \<Rightarrow> Ret (if zeroreg then Some (mk_term (T_INT (SV 0)) (m_depth t)) else None)
      | T_SUBST i \<Rightarrow>
          if i \<ge> length subst then Ret None
          else if isType (subst ! i) 10 then Ret (Some (subst ! i)) else Undefined
      | T_INT _ \<Rightarrow> Ret (Some t)
      | T_FLOAT _ \<Rightarrow> Ret (Some t)
      | T_SYM s \<Rightarrow>
          (case (valueloc, env_label env s) of
             (True, Some loc) \<Rightarrow> if loc_bc loc = None then Ret None else push_loc loc
           | _ \<Rightarrow> Ret None)
      | T_LOC loc \<Rightarrow> if \<not> valueloc \<or> loc_bc loc = None then Ret None else push_loc loc
      | _ \<Rightarrow> Ret None)"

fun eval_terms :: "'f float_ops \<Rightarrow> Env \<Rightarrow> 'f ExprTerm list \<Rightarrow> bool \<Rightarrow> bool \<Rightarrow> 'f Expr \<Rightarrow>
    'f ExprTerm list \<Rightarrow> 'f ExprTerm list eval" where
  "eval_terms F env subst valueloc zeroreg [] stack = Ret (Some stack, [])"
| "eval_terms F env subst valueloc zeroreg (t # ts) stack =
     (case t_data t of
        T_OP oper nchild \<Rightarrow>
          bind_out (eval_op F oper nchild (m_depth t) stack) (\<lambda>(r, ds).
            case r of
              None \<Rightarrow> Ret (None, ds)
            | Some stack' \<Rightarrow>
                bind_out (eval_terms F env subst valueloc zeroreg ts stack') (\<lambda>(r', ds'). Ret (r', ds @ ds')))
      | T_NONE \<Rightarrow> eval_terms F env subst valueloc zeroreg ts stack
      | _ \<Rightarrow>
          bind_out (eval_leaf env subst valueloc zeroreg t) (\<lambda>r.
            case r of
              None \<Rightarrow> Ret (None, [])
            | Some v \<Rightarrow> eval_terms F env subst valueloc zeroreg ts (stack @ [v])))"

definition Evaluate :: "'f float_ops \<Rightarrow> Env \<Rightarrow> 'f ExprTerm list \<Rightarrow> bool \<Rightarrow> bool \<Rightarrow> 'f Expr \<Rightarrow> 'f ExprTerm eval" where
  "Evaluate F env subst valueloc zeroreg e =
     (if e = [] then Ret (None, [])
      else if length e = 1 \<and> isType (hd e) 10 then Ret (Some (hd e), [])
      else
        bind_out (eval_terms F env subst valueloc zeroreg e []) (\<lambda>(r, ds).
          case r of
            None \<Rightarrow> Ret (None, ds)
          | Some stack \<Rightarrow> if length stack = 1 then Ret (Some (hd stack), ds) else Undefined))"

section \<open>The value of a tree\<close>

text \<open>
  The specification: \<open>leaf_int\<close> is the integer a leaf stands for, \<open>tree_eval\<close> folds the
  numbers with \<open>Calc\<close>, and \<open>tree_val\<close> is the mathematical value, defined where
  every operation stays in the domain of its operator.
\<close>

definition loc_int :: "Env \<Rightarrow> Location \<Rightarrow> IntNum option" where
  "loc_int env loc = map_option (\<lambda>bc. set_u (to_u64 (env_offset env bc + loc_off loc))) (loc_bc loc)"

definition leaf_int :: "Env \<Rightarrow> 'f ExprTerm list \<Rightarrow> bool \<Rightarrow> bool \<Rightarrow> 'f term_data \<Rightarrow> IntNum option" where
  "leaf_int env subst valueloc zeroreg x =
     (case x of
        T_INT n \<Rightarrow> Some n
      | T_REG _ \<Rightarrow> if zeroreg then Some (SV 0) else None
      | T_SUBST i \<Rightarrow> if i < length subst then getIntNum (subst ! i) else None
      | T_SYM s \<Rightarrow> if valueloc then Option.bind (env_label env s) (loc_int env) else None
      | T_LOC loc \<Rightarrow> if valueloc then loc_int env loc else None
      | _ \<Rightarrow> None)"

fun fold_calc :: "Op \<Rightarrow> IntNum \<Rightarrow> IntNum list \<Rightarrow> IntNum outcome" where
  "fold_calc oper a [] = Ret a"
| "fold_calc oper a (b # bs) = bind_out (Calc oper a b) (\<lambda>c. fold_calc oper c bs)"

definition apply_op :: "Op \<Rightarrow> IntNum list \<Rightarrow> IntNum outcome" where
  "apply_op oper vs =
     (if oper = Op_SEGOFF then (if length vs = 2 then Ret (vs ! 1) else Undefined)
      else if oper \<ge> Op_NONNUM then Undefined
      else case vs of
             [] \<Rightarrow> Undefined
           | [a] \<Rightarrow> if isUnary oper then Calc1 oper a else Undefined
           | a # bs \<Rightarrow> fold_calc oper a bs)"

fun bind_list :: "'a outcome list \<Rightarrow> 'a list outcome" where
  "bind_list [] = Ret []"
| "bind_list (m # ms) = bind_out m (\<lambda>x. bind_out (bind_list ms) (\<lambda>xs. Ret (x # xs)))"

fun tree_eval :: "('f term_data \<Rightarrow> IntNum option) \<Rightarrow> 'f tree \<Rightarrow> IntNum outcome" where
  "tree_eval leaf (Leaf x) = (case leaf x of Some n \<Rightarrow> Ret n | None \<Rightarrow> Undefined)"
| "tree_eval leaf (Node oper ts) = bind_out (bind_list (List.map (tree_eval leaf) ts)) (apply_op oper)"

definition op_domain :: "Op \<Rightarrow> int \<Rightarrow> int \<Rightarrow> bool" where
  "op_domain oper a b \<longleftrightarrow>
     oper < Op_NONNUM \<and> oper \<noteq> Op_SHL \<and> oper \<noteq> Op_SHR \<and>
     (oper \<in> {Op_DIV, Op_SIGNDIV, Op_MOD, Op_SIGNMOD} \<longrightarrow> b \<noteq> 0 \<and> \<not> (a = SV_MIN \<and> b = -1)) \<and>
     (oper \<in> {Op_DIV, Op_MOD} \<longrightarrow> 0 \<le> a \<and> 0 \<le> b) \<and>
     (oper = Op_NEG \<longrightarrow> a \<noteq> SV_MIN)"

fun fold_val :: "Op \<Rightarrow> int \<Rightarrow> int list \<Rightarrow> int option" where
  "fold_val oper a [] = Some a"
| "fold_val oper a (b # bs) = (if op_domain oper a b then fold_val oper (calc_spec oper a b) bs else None)"

definition op_val :: "Op \<Rightarrow> int list \<Rightarrow> int option" where
  "op_val oper vs =
     (case vs of
        [] \<Rightarrow> None
      | [a] \<Rightarrow> if oper \<in> {Op_NEG, Op_NOT, Op_LNOT} then fold_val oper a [0] else None
      | a # bs \<Rightarrow> if oper = Op_SEGOFF then (if length bs = 1 then Some (hd bs) else None) else fold_val oper a bs)"

fun tree_val :: "('f term_data \<Rightarrow> IntNum option) \<Rightarrow> 'f tree \<Rightarrow> int option" where
  "tree_val leaf (Leaf x) = Option.bind (leaf x) (\<lambda>n. if wf_IntNum n then Some (intnum_val n) else None)"
| "tree_val leaf (Node oper ts) = Option.bind (those (List.map (tree_val leaf) ts)) (op_val oper)"

section \<open>Evaluation of a flattened tree\<close>

lemma bind_list_Ret:
  "bind_list ms = Ret xs \<longleftrightarrow> list_all2 (\<lambda>m x. m = Ret x) ms xs"
  by (induction ms arbitrary: xs) (auto simp: bind_out_Ret_iff list_all2_Cons1)

lemma eval_pair_int: "eval_pair F oper (T_INT a) (T_INT b) =
    bind_out (calc_report (Calc oper a b) a) (\<lambda>(v, ds). Ret (Some (T_INT v), ds))"
  by (simp add: eval_pair_def)

lemma eval_children_int:
  assumes "fold_calc oper a bs = Ret r" "List.map t_data cs = List.map T_INT bs"
  shows "eval_children F oper (T_INT a) cs = Ret (Some (T_INT r), [])"
  using assms
proof (induction bs arbitrary: a cs)
  case (Cons b bs)
  then obtain c where c: "Calc oper a b = Ret c" "fold_calc oper c bs = Ret r" by (auto simp: bind_out_Ret_iff)
  then show ?case using Cons by (cases cs) (auto simp: eval_pair_int calc_report_def)
qed simp

lemma eval_op_append:
  "eval_op F oper (int (length (c # cs))) d (stack @ c # cs) =
     (if oper = Op_SEGOFF then (if length cs \<noteq> 1 then Undefined else Ret (Some (stack @ [hd cs]), []))
      else if oper \<ge> Op_NONNUM then Ret (None, [])
      else bind_out (eval_children F oper (t_data c) cs) (\<lambda>(r, ds).
             case r of
               None \<Rightarrow> Ret (None, ds)
             | Some res \<Rightarrow>
                 bind_out (if cs = [] then eval_unary F oper res else Ret (Some res, [])) (\<lambda>(r', ds').
                   Ret (map_option (\<lambda>x. stack @ [mk_term x d]) r', ds @ ds'))))"
proof -
  have k: "length (stack @ c # cs) - nat (int (length (c # cs))) = length stack" by simp
  have n: "(int (length (c # cs)) = 1) = (cs = [])" "(int (length (c # cs)) = 2) = (length cs = 1)"
    "(int (length (c # cs)) \<le> 0) = False" "(int (length (stack @ c # cs)) < int (length (c # cs))) = False"
    by auto
  have t: "take (length stack) (stack @ c # cs) = stack" "(stack @ c # cs) ! length stack = c"
    "drop (Suc (length stack)) (stack @ c # cs) = cs" by simp_all
  show ?thesis unfolding eval_op_def Let_def k n t by simp
qed

lemma eval_op_int:
  assumes "apply_op oper vs = Ret r" "List.map t_data cs = List.map T_INT vs"
  shows "\<exists>d'. eval_op F oper (int (length vs)) d (stack @ cs) = Ret (Some (stack @ [mk_term (T_INT r) d']), [])"
proof -
  have len: "length vs = length cs" using assms(2) by (metis length_map)
  consider (segoff) a b where "oper = Op_SEGOFF" "vs = [a, b]" "r = b"
    | (unary) a where "oper < Op_NONNUM" "vs = [a]" "isUnary oper" "Calc1 oper a = Ret r"
    | (nary) a b bs where "oper < Op_NONNUM" "vs = a # b # bs" "fold_calc oper a (b # bs) = Ret r"
    using assms(1) by (auto simp: apply_op_def not_le length_Suc_conv numeral_2_eq_2 split: if_splits list.splits)
  then show ?thesis
  proof cases
    case segoff
    then obtain c1 c2 where cs: "cs = [c1, c2]" "t_data c2 = T_INT b" using assms(2) len by (auto simp: length_Suc_conv numeral_2_eq_2)
    then have "c2 = mk_term (T_INT r) (m_depth c2)" using segoff by (simp add: mk_term_def)
    then show ?thesis using segoff eval_op_append [of F oper c1 "[c2]" d stack] unfolding len cs(1)
      by (metis list.sel(1) One_nat_def length_Cons list.size(3))
  next
    case unary
    then obtain c where cs: "cs = [c]" "t_data c = T_INT a" using assms(2) len by (auto simp: length_Suc_conv)
    have "oper \<noteq> Op_SEGOFF" "\<not> Op_NONNUM \<le> oper" using unary(1) by (auto simp: less_Op_def less_eq_Op_def)
    then show ?thesis unfolding len unfolding cs(1) eval_op_append using unary cs(2) by (auto simp: eval_unary_def calc_report_def)
  next
    case nary
    then obtain c c' cs' where cs: "cs = c # c' # cs'" "t_data c = T_INT a" "List.map t_data (c' # cs') = List.map T_INT (b # bs)"
      using assms(2) len by (auto simp: length_Suc_conv)
    have "eval_children F oper (T_INT a) (c' # cs') = Ret (Some (T_INT r), [])"
      using eval_children_int [OF nary(3) cs(3)] .
    moreover have "oper \<noteq> Op_SEGOFF" "\<not> Op_NONNUM \<le> oper" using nary(1) by (auto simp: less_Op_def less_eq_Op_def)
    ultimately show ?thesis unfolding len unfolding cs(1) eval_op_append using cs(2) by (auto simp del: eval_children.simps)
  qed
qed

lemma eval_leaf_int:
  assumes "leaf_int env subst valueloc zeroreg x = Some n"
  shows "\<exists>t. eval_leaf env subst valueloc zeroreg (mk_term x d) = Ret (Some t) \<and> t_data t = T_INT n"
  using assms
  by (cases x) (auto simp: leaf_int_def loc_int_def loc_offset_def eval_leaf_def mk_term_def getIntNum_def isType_def Let_def bind_eq_Some_conv
      split: if_splits term_data.splits)


lemma bind_append_Nil [simp]: "bind_out m (\<lambda>(r, ds). Ret (r, [] @ ds)) = m" "bind_out m (\<lambda>(r, ds). Ret (r, ds)) = m" "bind_out m Ret = m"
  by (cases m; auto)+

lemma eval_terms_append:
  assumes "eval_terms F env subst vl zr xs stack = Ret (Some stack', [])"
  shows "eval_terms F env subst vl zr (xs @ ys) stack = eval_terms F env subst vl zr ys stack'"
  using assms
proof (induction xs arbitrary: stack)
  case (Cons t xs)
  then show ?case
    by (auto simp: bind_out_Ret_iff split: term_data.splits option.splits)
qed simp

lemma eval_terms_tree:
  assumes "tree_eval (leaf_int env subst vl zr) t = Ret n"
  shows "\<exists>u. eval_terms F env subst vl zr (flatten d t) stack = Ret (Some (stack @ [u]), []) \<and> t_data u = T_INT n"
  using assms
proof (induction t arbitrary: d n stack)
  case (Leaf x)
  then obtain u where "eval_leaf env subst vl zr (mk_term x d) = Ret (Some u)" "t_data u = T_INT n"
    using eval_leaf_int by (fastforce split: option.splits)
  moreover have "x \<noteq> T_NONE" "\<not> (\<exists>oper k. x = T_OP oper k)" using Leaf by (auto simp: leaf_int_def)
  ultimately show ?case by (cases x) auto
next
  case (Node oper ts)
  then obtain vs where vs: "list_all2 (\<lambda>m x. m = Ret x) (List.map (tree_eval (leaf_int env subst vl zr)) ts) vs" "apply_op oper vs = Ret n"
    by (auto simp: bind_out_Ret_iff bind_list_Ret)
  have "list_all2 (\<lambda>t v. tree_eval (leaf_int env subst vl zr) t = Ret v) ts vs" using vs(1) by (simp add: list_all2_map1)
  then have "\<exists>us. eval_terms F env subst vl zr (concat (List.map (flatten (d + 1)) ts)) stack = Ret (Some (stack @ us), []) \<and> List.map t_data us = List.map T_INT vs"
    using Node.IH
  proof (induction ts vs arbitrary: stack rule: list_all2_induct)
    case (Cons t ts v vs)
    obtain u where u: "eval_terms F env subst vl zr (flatten (d + 1) t) stack = Ret (Some (stack @ [u]), [])" "t_data u = T_INT v"
      using Cons(4) Cons(1) by fastforce
    obtain us where us: "eval_terms F env subst vl zr (concat (List.map (flatten (d + 1)) ts)) (stack @ [u]) = Ret (Some ((stack @ [u]) @ us), [])"
      "List.map t_data us = List.map T_INT vs"
      using Cons(3) [of "stack @ [u]"] Cons(4) by (metis list.set_intros(2))
    show ?case using u us by (intro exI [of _ "u # us"]) (simp add: eval_terms_append)
  qed simp
  then obtain us where us: "eval_terms F env subst vl zr (concat (List.map (flatten (d + 1)) ts)) stack = Ret (Some (stack @ us), [])"
     "List.map t_data us = List.map T_INT vs" by blast
  have "length ts = length vs" using vs(1) by (auto dest: list_all2_lengthD)
  then obtain d' where "eval_op F oper (int (length ts)) d (stack @ us) = Ret (Some (stack @ [mk_term (T_INT n) d']), [])"
    using eval_op_int [OF vs(2) us(2)] by metis
  then show ?case using us by (auto simp: eval_terms_append)
qed

lemma Evaluate_flatten:
  assumes "tree_eval (leaf_int env subst vl zr) t = Ret n"
  shows "\<exists>u. Evaluate F env subst vl zr (flatten 0 t) = Ret (Some u, []) \<and> getIntNum u = Some n"
proof -
  obtain u where u: "eval_terms F env subst vl zr (flatten 0 t) [] = Ret (Some [u], [])" "t_data u = T_INT n"
    using eval_terms_tree [OF assms, of F 0 "[]"] by auto
  have "flatten 0 t \<noteq> []" by (cases t) auto
  then show ?thesis using u
    by (cases t) (auto simp: Evaluate_def eval_leaf_def isType_def getIntNum_def mk_term_def split: option.splits term_data.splits)
qed

lemma those_Some: "those ms = Some xs \<longleftrightarrow> list_all2 (\<lambda>m x. m = Some x) ms xs"
  by (induction ms arbitrary: xs) (auto simp: list_all2_Cons1 split: option.splits)

lemma op_domain_calc: "op_domain oper (intnum_val x) (intnum_val y) \<Longrightarrow> calc_domain oper x y"
  by (simp add: op_domain_def calc_domain_def Let_def)

lemma fold_calc_val:
  assumes "wf_IntNum a" "list_all wf_IntNum bs" "fold_val oper (intnum_val a) (List.map intnum_val bs) = Some v"
  shows "\<exists>n. fold_calc oper a bs = Ret n \<and> wf_IntNum n \<and> intnum_val n = v"
  using assms
proof (induction bs arbitrary: a)
  case (Cons b bs)
  then have "calc_domain oper a b" by (auto simp: op_domain_calc split: if_splits)
  then obtain c where "Calc oper a b = Ret c" "wf_IntNum c" "intnum_val c = calc_spec oper (intnum_val a) (intnum_val b)"
    using Cons.prems intnum.returns [of a b oper] by auto
  then show ?case using Cons by (auto split: if_splits)
qed simp

lemma Calc1_eq: "oper \<in> {Op_NEG, Op_NOT, Op_LNOT} \<Longrightarrow> Calc1 oper n = Calc oper n (SV 0)"
  by (cases oper; cases n) (simp_all add: Calc1_def Calc_def CalcImpl_def CalcBV_def CalcSmallValue_def)

lemma apply_op_val:
  assumes "list_all wf_IntNum ns" "op_val oper (List.map intnum_val ns) = Some v"
  shows "\<exists>n. apply_op oper ns = Ret n \<and> wf_IntNum n \<and> intnum_val n = v"
proof -
  consider (un) a where "ns = [a]" "oper \<in> {Op_NEG, Op_NOT, Op_LNOT}" "fold_val oper (intnum_val a) [0] = Some v"
    | (segoff) a b where "ns = [a, b]" "oper = Op_SEGOFF" "intnum_val b = v"
    | (nary) a b bs where "ns = a # b # bs" "oper \<noteq> Op_SEGOFF" "fold_val oper (intnum_val a) (List.map intnum_val (b # bs)) = Some v"
    using assms(2) by (auto simp: op_val_def split: list.splits if_splits)
  then show ?thesis
  proof cases
    case un
    then obtain n where "fold_calc oper a [SV 0] = Ret n" "wf_IntNum n" "intnum_val n = v"
      using fold_calc_val [of a "[SV 0]" oper v] assms(1) by (auto simp: sv_range_def limits)
    then show ?thesis using un by (auto simp: apply_op_def Calc1_eq bind_out_Ret_iff isUnary_def less_eq_Op_def)
  next
    case nary
    then have "op_domain oper (intnum_val a) (intnum_val b)" by (auto split: if_splits)
    then have "\<not> Op_NONNUM \<le> oper" by (simp add: op_domain_def not_le)
    then show ?thesis using nary fold_calc_val [of a "b # bs" oper v] assms(1) by (simp add: apply_op_def)
  qed (use assms in \<open>auto simp: apply_op_def\<close>)
qed

lemma tree_eval_val:
  assumes "tree_val leaf t = Some v"
  shows "\<exists>n. tree_eval leaf t = Ret n \<and> wf_IntNum n \<and> intnum_val n = v"
  using assms
proof (induction t arbitrary: v)
  case (Leaf x)
  then show ?case by (auto simp: bind_eq_Some_conv split: if_splits)
next
  case (Node oper ts)
  then obtain vs where vs: "list_all2 (\<lambda>t v. tree_val leaf t = Some v) ts vs" "op_val oper vs = Some v"
    by (auto simp: bind_eq_Some_conv those_Some list_all2_map1)
  have "\<exists>ns. list_all2 (\<lambda>t n. tree_eval leaf t = Ret n) ts ns \<and> list_all wf_IntNum ns \<and> List.map intnum_val ns = vs"
    using vs(1) Node.IH
  proof (induction ts vs rule: list_all2_induct)
    case (Cons t ts v vs)
    then obtain n where "tree_eval leaf t = Ret n \<and> wf_IntNum n \<and> intnum_val n = v" by fastforce
    moreover obtain ns where "list_all2 (\<lambda>t n. tree_eval leaf t = Ret n) ts ns \<and> list_all wf_IntNum ns \<and> List.map intnum_val ns = vs"
      using Cons by (metis list.set_intros(2))
    ultimately show ?case by (intro exI [of _ "n # ns"]) auto
  qed simp
  then obtain ns where ns: "list_all2 (\<lambda>t n. tree_eval leaf t = Ret n) ts ns" "list_all wf_IntNum ns" "List.map intnum_val ns = vs" by blast
  then obtain n where "apply_op oper ns = Ret n" "wf_IntNum n" "intnum_val n = v" using apply_op_val [of ns oper v] vs(2) by auto
  moreover have "bind_list (List.map (tree_eval leaf) ts) = Ret ns" using ns(1) by (simp add: bind_list_Ret list_all2_map1)
  ultimately show ?case by auto
qed

lemma Evaluate_value:
  assumes "tree_val (leaf_int env subst valueloc zeroreg) t = Some v"
  shows "\<exists>u n. Evaluate F env subst valueloc zeroreg (flatten 0 t) = Ret (Some u, []) \<and>
               getIntNum u = Some n \<and> wf_IntNum n \<and> intnum_val n = v"
  using tree_eval_val [OF assms] Evaluate_flatten by blast

text \<open>
  C39. \<open>Evaluate\<close> on the vector of an expression tree returns one integer term without a
  diagnostic, and its value is the value of the tree: the stack machine pops and pushes
  exactly the operands of each operator, whatever the shape and the arity, with symbols and
  locations read as offsets, registers as zero and substitutions from the list.
\<close>

theorem Evaluate_correct:
  assumes "tree_val (leaf_int env subst valueloc zeroreg) t = Some v"
  shows "\<exists>u n. Evaluate F env subst valueloc zeroreg (flatten 0 t) = Ret (Some u, []) \<and>
               getIntNum u = Some n \<and> wf_IntNum n \<and> intnum_val n = v"
  by (rule Evaluate_value [OF assms])

theorem Evaluate_correct_witness:
  "\<exists>u n. Evaluate \<lparr>fo_arith = \<lambda>oper a b. ((), 0), fo_neg = id, fo_promote = \<lambda>w. id, fo_nonzero = \<lambda>f. True\<rparr>
       \<lparr>env_label = \<lambda>s. Some \<lparr>loc_bc = Some 1, loc_off = 2\<rparr>, env_offset = \<lambda>bc. 40, env_container = \<lambda>bc. 0\<rparr>
       [] True False
       (flatten 0 (Node Op_SUB [Node Op_MUL [Leaf (T_INT (SV 7)), Leaf (T_INT (SV 9)), Leaf (T_SYM 3)],
                                Leaf (T_INT (SV 46))])) = Ret (Some u, []) \<and>
     getIntNum u = Some n \<and> wf_IntNum n \<and> intnum_val n = 2600"
  by (rule Evaluate_correct)
    (simp add: leaf_int_def loc_int_def op_val_def op_domain_def less_Op_def calc_spec_def set_u_def
      sv_range_def limits)

lemma set_u_value: "0 \<le> v \<Longrightarrow> v \<le> ULONG_MAX \<Longrightarrow> wf_IntNum (set_u v) \<and> intnum_val (set_u v) = v"
  by (auto simp: set_u_def sv_range_def limits wrap256_def signed_take_bit_int_eq_self)

lemma dist_of_value:
  assumes "0 \<le> a" "a \<le> ULONG_MAX" "0 \<le> b" "b \<le> ULONG_MAX"
  shows "\<exists>n. dist_of a b = Ret n \<and> wf_IntNum n \<and> intnum_val n = b - a"
proof -
  have "calc_domain Op_SUB (set_u b) (set_u a)" by (simp add: calc_domain_def less_Op_def)
  then obtain n where "Calc Op_SUB (set_u b) (set_u a) = Ret n" "wf_IntNum n" "intnum_val n = calc_spec Op_SUB b a"
    using intnum.returns [of "set_u b" "set_u a" Op_SUB] set_u_value assms by auto
  then show ?thesis using assms
    by (auto simp: dist_of_def CalcAssert_def Calc_def calc_spec_def wrap256_def signed_take_bit_int_eq_self limits)
qed

lemma CalcDist_value:
  assumes "loc_bc loc1 = Some b1" "loc_bc loc2 = Some b2" "env_container env b1 = env_container env b2"
  shows "\<exists>n. CalcDist env loc1 loc2 = Ret (Some n) \<and> wf_IntNum n \<and>
     intnum_val n = to_u64 (env_offset env b2 + loc_off loc2) - to_u64 (env_offset env b1 + loc_off loc1)"
proof -
  have u: "0 \<le> to_u64 k" "to_u64 k \<le> ULONG_MAX" for k
    using take_bit_int_less_exp [of 64 k] by (simp_all add: limits)
  obtain n where n: "dist_of (to_u64 (env_offset env b1 + loc_off loc1)) (to_u64 (env_offset env b2 + loc_off loc2)) = Ret n" "wf_IntNum n"
     "intnum_val n = to_u64 (env_offset env b2 + loc_off loc2) - to_u64 (env_offset env b1 + loc_off loc1)"
    using dist_of_value u by metis
  then show ?thesis by (simp add: CalcDist_def loc_offset_def assms n(1))
qed

text \<open>
  C40. \<open>CalcDist\<close> of two locations in the same container is the exact signed difference of
  their offsets, also when it does not fit in 64 bits signed.
\<close>

theorem CalcDist_correct:
  assumes "loc_bc loc1 = Some b1" "loc_bc loc2 = Some b2" "env_container env b1 = env_container env b2"
  shows "\<exists>n. CalcDist env loc1 loc2 = Ret (Some n) \<and> wf_IntNum n \<and>
     intnum_val n = to_u64 (env_offset env b2 + loc_off loc2) - to_u64 (env_offset env b1 + loc_off loc1)"
  by (rule CalcDist_value [OF assms])

theorem CalcDist_correct_witness:
  "\<exists>n. CalcDist \<lparr>env_label = \<lambda>s. None, env_offset = \<lambda>bc. if bc = 1 then 40 else 2, env_container = \<lambda>bc. 0\<rparr>
         \<lparr>loc_bc = Some 1, loc_off = 2\<rparr> \<lparr>loc_bc = Some 5, loc_off = 3\<rparr> = Ret (Some n) \<and>
       wf_IntNum n \<and> intnum_val n = -37"
  using CalcDist_correct [of "\<lparr>loc_bc = Some 1, loc_off = 2\<rparr>" 1 "\<lparr>loc_bc = Some 5, loc_off = 3\<rparr>" 5
      "\<lparr>env_label = \<lambda>s. None, env_offset = \<lambda>bc. if bc = 1 then 40 else 2, env_container = \<lambda>bc. 0\<rparr>"]
  by (simp add: take_bit_int_eq_self)

end
