(* ===== verification/Value.thy ===== *)
theory Value
  imports Evaluate NumericOutput
begin

text \<open>
  \<^verbatim>\<open>include/yasmx/Value.h\<close> and \<^verbatim>\<open>lib/yasmx/Value.cpp\<close>: a value is an absolute expression,
  a relative symbol, a symbol it is with respect to and a subtracted symbol or location,
  with the settings of its output.  Bit fields are natural numbers reduced to their width.
\<close>

unbundle bit_operations_syntax

section \<open>Values\<close>

text \<open>The union \<^verbatim>\<open>m_sub\<close> with its two flags.\<close>

datatype sub_relative = Sub_none | Sub_sym nat | Sub_loc Location

record 'f Value =
  v_abs :: "'f Expr option"
  v_rel :: "nat option"
  v_wrt :: "nat option"
  v_sub :: sub_relative
  v_insn_start :: nat
  v_next_insn :: nat
  v_seg_of :: bool
  v_rshift :: nat
  v_shift :: nat
  v_ip_rel :: bool
  v_jump_target :: bool
  v_section_rel :: bool
  v_no_warn :: bool
  v_sign :: bool
  v_size :: nat

definition Value_of_size :: "nat \<Rightarrow> 'f Value" where
  "Value_of_size sz =
     \<lparr>v_abs = None, v_rel = None, v_wrt = None, v_sub = Sub_none, v_insn_start = 0, v_next_insn = 0,
      v_seg_of = False, v_rshift = 0, v_shift = 0, v_ip_rel = False, v_jump_target = False,
      v_section_rel = False, v_no_warn = False, v_sign = False, v_size = sz mod 256\<rparr>"

definition Value_of_expr :: "nat \<Rightarrow> 'f Expr \<Rightarrow> 'f Value" where
  "Value_of_expr sz e = (Value_of_size sz)\<lparr>v_abs := Some e\<rparr>"

definition Value_of_sym :: "nat \<Rightarrow> nat option \<Rightarrow> 'f Value" where
  "Value_of_sym sz s = (Value_of_size sz)\<lparr>v_rel := s\<rparr>"

definition Value_Clear :: "'f Value \<Rightarrow> 'f Value" where
  "Value_Clear v = Value_of_size 0"

definition ClearRelative :: "'f Value \<Rightarrow> 'f Value" where
  "ClearRelative v =
     v\<lparr>v_rel := None, v_wrt := None, v_sub := Sub_none, v_seg_of := False, v_rshift := 0,
       v_ip_rel := False, v_section_rel := False\<rparr>"

definition hasAbs :: "'f Value \<Rightarrow> bool" where
  "hasAbs v \<longleftrightarrow> v_abs v \<noteq> None"

definition isRelative :: "'f Value \<Rightarrow> bool" where
  "isRelative v \<longleftrightarrow> v_rel v \<noteq> None"

definition hasSubRelative :: "'f Value \<Rightarrow> bool" where
  "hasSubRelative v \<longleftrightarrow> v_sub v \<noteq> Sub_none"

definition isComplexRelative :: "'f Value \<Rightarrow> bool" where
  "isComplexRelative v \<longleftrightarrow> v_seg_of v \<or> v_rshift v > 0 \<or> v_shift v > 0 \<or> v_section_rel v"

definition Value_setSize :: "nat \<Rightarrow> 'f Value \<Rightarrow> 'f Value" where
  "Value_setSize sz v = v\<lparr>v_size := sz mod 256\<rparr>"

definition setInsnStart :: "nat \<Rightarrow> 'f Value \<Rightarrow> 'f Value" where
  "setInsnStart dist v = v\<lparr>v_insn_start := dist mod 16\<rparr>"

definition setNextInsn :: "nat \<Rightarrow> 'f Value \<Rightarrow> 'f Value" where
  "setNextInsn dist v = v\<lparr>v_next_insn := dist mod 16\<rparr>"

section \<open>Relative portions\<close>

text \<open>
  What \<open>SubRelative\<close> asks of the object: its absolute symbol, the option
  \<^verbatim>\<open>DisableGlobalSubRelative\<close> and whether a symbol is global.  No object is a null pointer.
\<close>

record ObjectView =
  ov_absolute :: nat
  ov_disable_global :: bool
  ov_global :: "nat \<Rightarrow> bool"

text \<open>Whether the container of a location is the one of another; null bytecodes are not followed.\<close>

definition same_container :: "Env \<Rightarrow> Location \<Rightarrow> Location \<Rightarrow> bool outcome" where
  "same_container env loc1 loc2 =
     (case (loc_bc loc1, loc_bc loc2) of
        (Some b1, Some b2) \<Rightarrow> Ret (env_container env b1 = env_container env b2)
      | _ \<Rightarrow> Undefined)"

definition SubRelative :: "Env \<Rightarrow> ObjectView option \<Rightarrow> Location \<Rightarrow> 'f Value \<Rightarrow> (bool \<times> 'f Value) outcome" where
  "SubRelative env obj sub v =
     (let set_sub = (\<lambda>w. if hasSubRelative w then (False, w) else (True, w\<lparr>v_sub := Sub_loc sub\<rparr>)) in
      case v_rel v of
        None \<Rightarrow>
          (case obj of
             None \<Rightarrow> Undefined
           | Some ov \<Rightarrow> Ret (set_sub (v\<lparr>v_rel := Some (ov_absolute ov)\<rparr>)))
      | Some s \<Rightarrow>
          (case (v_wrt v = None \<and> \<not> v_seg_of v \<and> v_rshift v = 0 \<and> \<not> v_section_rel v, env_label env s) of
             (True, Some loc) \<Rightarrow>
               bind_out (same_container env loc sub) (\<lambda>same.
                 if \<not> same then Ret (set_sub v)
                 else case obj of
                        None \<Rightarrow> Undefined
                      | Some ov \<Rightarrow>
                          if ov_disable_global ov \<and> ov_global ov s then Ret (set_sub v)
                          else
                            bind_out (ExprBuilder Op_SUB [[mk_term (T_SYM s) 0], [mk_term (T_LOC sub) 0]]) (\<lambda>d.
                            bind_out (Calc_expr Op_ADD (case v_abs v of None \<Rightarrow> [] | Some e \<Rightarrow> e) d) (\<lambda>e'.
                              Ret (True, v\<lparr>v_abs := Some e', v_rel := None\<rparr>))))
           | _ \<Rightarrow> Ret (set_sub v)))"

definition getSubLocation :: "Env \<Rightarrow> 'f Value \<Rightarrow> Location option" where
  "getSubLocation env v =
     (case v_sub v of Sub_loc loc \<Rightarrow> Some loc | Sub_sym s \<Rightarrow> env_label env s | Sub_none \<Rightarrow> None)"

definition CalcPCRelSub :: "Env \<Rightarrow> Location \<Rightarrow> 'f Value \<Rightarrow> IntNum option outcome" where
  "CalcPCRelSub env loc v =
     (case getSubLocation env v of
        None \<Rightarrow> Ret None
      | Some sub_loc \<Rightarrow>
          bind_out (same_container env sub_loc loc) (\<lambda>same.
            if \<not> same then Ret None else CalcDist env sub_loc loc))"

section \<open>The absolute portion\<close>

definition AddAbs :: "'f Expr \<Rightarrow> 'f Value \<Rightarrow> 'f Value outcome" where
  "AddAbs delta v =
     (case v_abs v of
        None \<Rightarrow> Ret (v\<lparr>v_abs := Some delta\<rparr>)
      | Some e \<Rightarrow> bind_out (Calc_expr Op_ADD e delta) (\<lambda>e'. Ret (v\<lparr>v_abs := Some e'\<rparr>)))"

definition AddAbs_int :: "IntNum \<Rightarrow> 'f Value \<Rightarrow> 'f Value outcome" where
  "AddAbs_int delta v = AddAbs [mk_term (T_INT delta) 0] v"

definition isFloat :: "'f Expr \<Rightarrow> bool" where
  "isFloat e \<longleftrightarrow> length e = 1 \<and> isType (hd e) 8"

text \<open>The integer of an expression that is just an integer; the code asserts that it is.\<close>

definition expr_int :: "'f Expr \<Rightarrow> IntNum outcome" where
  "expr_int e =
     (if isIntNum e then (case getIntNum (hd e) of Some n \<Rightarrow> Ret n | None \<Rightarrow> Undefined) else Undefined)"

definition Value_getIntNum :: "'f float_ops \<Rightarrow> Env \<Rightarrow> bool \<Rightarrow> 'f Value \<Rightarrow> IntNum eval" where
  "Value_getIntNum F env calc_bc_dist v =
     (if v_rel v \<noteq> None \<or> hasSubRelative v \<or> v_wrt v \<noteq> None then Ret (None, [])
      else case v_abs v of
             None \<Rightarrow> Ret (Some (SV 0), [])
           | Some e \<Rightarrow>
               if isIntNum e then bind_out (expr_int e) (\<lambda>n. Ret (Some n, []))
               else if isFloat e then Ret (None, [])
               else bind_out (Evaluate F env [] calc_bc_dist False e) (\<lambda>(r, ds).
                      Ret (Option.bind r getIntNum, ds)))"

section \<open>Output\<close>

definition ConfigureOutput :: "'f Value \<Rightarrow> NumericOutput \<Rightarrow> NumericOutput" where
  "ConfigureOutput v out =
     out\<lparr>m_size := v_size v, m_shift := v_shift v, m_rshift := v_rshift v, m_sign := v_sign v,
         m_warns_enabled := \<not> v_no_warn v\<rparr>"

text \<open>
  \<open>OutputBasic\<close> yields the numeric output, the integer left to be relocated (when it returns
  false) and the diagnostics.  \<open>output_float\<close> is \<^verbatim>\<open>NumericOutput::OutputFloat\<close>.
\<close>

definition OutputBasic :: "'f float_ops \<Rightarrow> Env \<Rightarrow> ('f \<Rightarrow> NumericOutput \<Rightarrow> NumericOutput outcome) \<Rightarrow>
    'f Value \<Rightarrow> NumericOutput \<Rightarrow> (NumericOutput \<times> IntNum option \<times> diag list) outcome" where
  "OutputBasic F env output_float v out =
     (let rel = (v_rel v \<noteq> None \<or> hasSubRelative v \<or> v_wrt v \<noteq> None);
          number = (\<lambda>n ds. if rel then Ret (out, Some n, ds)
                           else bind_out (OutputInteger out n) (\<lambda>out'. Ret (out', None, ds))) in
      case v_abs v of
        None \<Rightarrow> number (SV 0) []
      | Some e \<Rightarrow>
          if isIntNum e then bind_out (expr_int e) (\<lambda>n. number n [])
          else if isFloat e then
            (if rel then Ret (out, None, [err_reloc_contains_float])
             else case t_data (hd e) of
                    T_FLOAT f \<Rightarrow> bind_out (output_float f out) (\<lambda>out'. Ret (out', None, []))
                  | _ \<Rightarrow> Undefined)
          else
            bind_out (Evaluate F env [] True False e) (\<lambda>(r, ds).
              case r of
                None \<Rightarrow>
                  bind_out (Contains e 8 (-1)) (\<lambda>flt.
                    Ret (out, None, ds @ [if flt then err_reloc_contains_float else err_reloc_too_complex]))
              | Some t \<Rightarrow>
                  (case t_data t of
                     T_FLOAT f \<Rightarrow>
                       bind_out (output_float f out) (\<lambda>out'.
                         Ret (out', None, ds @ (if rel then [err_reloc_contains_float] else [])))
                   | T_INT n \<Rightarrow> number n ds
                   | _ \<Rightarrow> Undefined)))"

section \<open>Lemmas\<close>

lemma isType_INT [simp]: "isType x 2 \<longleftrightarrow> (\<exists>n. t_data x = T_INT n)"
  by (cases "t_data x") (simp_all add: isType_def)

lemma isType_FLOAT [simp]: "isType x 8 \<longleftrightarrow> (\<exists>f. t_data x = T_FLOAT f)"
  by (cases "t_data x") (simp_all add: isType_def)

lemma Value_getIntNum_tree:
  assumes "v_rel v = None" "\<not> hasSubRelative v" "v_wrt v = None" "v_abs v = Some (flatten 0 t)"
    and "tree_val (leaf_int env [] calc_dist False) t = Some a"
  shows "\<exists>n. Value_getIntNum F env calc_dist v = Ret (Some n, []) \<and> wf_IntNum n \<and> intnum_val n = a"
proof -
  obtain u n where u: "Evaluate F env [] calc_dist False (flatten 0 t) = Ret (Some u, [])" "getIntNum u = Some n"
    "wf_IntNum n" "intnum_val n = a"
    using Evaluate_value [OF assms(5)] by blast
  show ?thesis
  proof (cases "isIntNum (flatten 0 t)")
    case True
    then obtain x m where "flatten 0 t = [x]" "t_data x = T_INT m"
      by (auto simp: isIntNum_def length_Suc_conv)
    then show ?thesis using assms u by (auto simp: Value_getIntNum_def expr_int_def isIntNum_def getIntNum_def Evaluate_def isType_def)
  next
    case False
    moreover have "\<not> isFloat (flatten 0 t)"
    proof
      assume "isFloat (flatten 0 t)"
      then obtain x f where x: "flatten 0 t = [x]" "t_data x = T_FLOAT f"
        by (auto simp: isFloat_def length_Suc_conv)
      then show False using u(1,2) by (auto simp: Evaluate_def isType_def getIntNum_def)
    qed
    ultimately show ?thesis using assms u by (simp add: Value_getIntNum_def)
  qed
qed

lemma tree_val_binary:
  "tree_val leaf l = Some a \<Longrightarrow> tree_val leaf r = Some b \<Longrightarrow> oper \<noteq> Op_SEGOFF \<Longrightarrow> op_domain oper a b \<Longrightarrow>
     tree_val leaf (Node oper [l, r]) = Some (calc_spec oper a b)"
  by (simp add: op_val_def)

lemma loc_int_value: "loc_bc loc = Some b \<Longrightarrow> \<exists>n. loc_int env loc = Some n \<and> wf_IntNum n \<and> intnum_val n = to_u64 (env_offset env b + loc_off loc)"
  using set_u_value [of "to_u64 (env_offset env b + loc_off loc)"] take_bit_int_less_exp [of 64 "env_offset env b + loc_off loc"]
  by (simp add: loc_int_def limits)

lemma leaf_val:
  assumes "loc_bc loc = Some b"
  shows "tree_val (leaf_int env subst True zr) (Leaf (T_LOC loc)) = Some (to_u64 (env_offset env b + loc_off loc))"
    "env_label env s = Some loc \<Longrightarrow> tree_val (leaf_int env subst True zr) (Leaf (T_SYM s)) = Some (to_u64 (env_offset env b + loc_off loc))"
  using loc_int_value [OF assms, of env] by (auto simp: leaf_int_def)

lemma dist_tree_val:
  assumes "env_label env s = Some loc" "loc_bc loc = Some b1" "loc_bc sub = Some b2"
  shows "tree_val (leaf_int env subst True zr) (Node Op_SUB [Leaf (T_SYM s), Leaf (T_LOC sub)]) =
     Some (to_u64 (env_offset env b1 + loc_off loc) - to_u64 (env_offset env b2 + loc_off sub))"
proof -
  have "bv_range (to_u64 x - to_u64 y)" for x y
  proof -
    have "0 \<le> to_u64 x" "0 \<le> to_u64 y" "to_u64 x < 18446744073709551616" "to_u64 y < 18446744073709551616"
      using take_bit_int_less_exp [of 64 x] take_bit_int_less_exp [of 64 y] by simp_all
    then have "- 18446744073709551616 < to_u64 x - to_u64 y" "to_u64 x - to_u64 y < 18446744073709551616" by linarith+
    then show ?thesis by (simp add: bv_range_def)
  qed
  then show ?thesis using tree_val_binary [OF leaf_val(2) [OF assms(2,1)] leaf_val(1) [OF assms(3)], of Op_SUB]
    by (simp add: op_domain_def less_Op_def calc_spec_def del: tree_val.simps)
qed
lemma SubRelative_value:
  fixes v :: "'f Value"
  assumes v: "v_rel v = Some s" "v_wrt v = None" "\<not> v_seg_of v" "v_rshift v = 0" "\<not> v_section_rel v" "\<not> hasSubRelative v"
    "v_abs v = Some (flatten 0 t)" "tree_val (leaf_int env [] True False) t = Some a"
    and loc: "env_label env s = Some loc" "loc_bc loc = Some b1" "loc_bc sub = Some b2" "env_container env b1 = env_container env b2"
    and ov: "\<not> (ov_disable_global ov \<and> ov_global ov s)"
  shows "\<exists>v' n. SubRelative env (Some ov) sub v = Ret (True, v') \<and> \<not> isRelative v' \<and> \<not> hasSubRelative v' \<and>
           Value_getIntNum F env True v' = Ret (Some n, []) \<and> wf_IntNum n \<and>
           intnum_val n = wrap256 (a + (to_u64 (env_offset env b1 + loc_off loc) - to_u64 (env_offset env b2 + loc_off sub)))"
proof -
  let ?d = "Node Op_SUB [Leaf (T_SYM s), Leaf (T_LOC sub)] :: 'f tree"
  let ?t = "Node Op_ADD [t, ?d]"
  let ?v = "v\<lparr>v_abs := Some (flatten 0 ?t), v_rel := None\<rparr>"
  have "ExprBuilder Op_SUB [[mk_term (T_SYM s) 0], [mk_term (T_LOC sub) 0]] = Ret (flatten 0 ?d)"
    using ExprBuilder_tree [of Op_SUB "[Leaf (T_SYM s), Leaf (T_LOC sub) :: 'f tree]"] by (simp add: arity_ok_def isUnary_def)
  moreover have "Calc_expr Op_ADD (flatten 0 t) (flatten 0 ?d) = Ret (flatten 0 ?t)"
    by (rule Calc_expr_tree) (simp add: arity_ok_def isUnary_def)
  ultimately have "SubRelative env (Some ov) sub v = Ret (True, ?v)"
    using v loc ov by (auto simp: SubRelative_def same_container_def simp del: flatten.simps)
  moreover have "tree_val (leaf_int env [] True False) ?t =
      Some (wrap256 (a + (to_u64 (env_offset env b1 + loc_off loc) - to_u64 (env_offset env b2 + loc_off sub))))"
    using tree_val_binary [OF v(8) dist_tree_val [OF loc(1-3)], of Op_ADD]
    by (simp add: op_domain_def less_Op_def calc_spec_def del: tree_val.simps)
  ultimately show ?thesis
    using Value_getIntNum_tree [of ?v ?t env True _ F] v by (simp add: isRelative_def hasSubRelative_def)
qed

lemma single_leaf_cases:
  assumes "Evaluate F env [] True False (flatten 0 t) = Ret (Some u, [])" "getIntNum u = Some n"
  shows "isIntNum (flatten 0 t) \<Longrightarrow> expr_int (flatten 0 t) = Ret n" "\<not> isFloat (flatten 0 t)"
proof -
  show "expr_int (flatten 0 t) = Ret n" if "isIntNum (flatten 0 t)"
  proof -
    obtain x m where "flatten 0 t = [x]" "t_data x = T_INT m" using \<open>isIntNum (flatten 0 t)\<close> by (auto simp: isIntNum_def length_Suc_conv)
    then show ?thesis using assms by (auto simp: expr_int_def isIntNum_def getIntNum_def Evaluate_def isType_def)
  qed
  show "\<not> isFloat (flatten 0 t)"
  proof
    assume "isFloat (flatten 0 t)"
    then obtain x f where "flatten 0 t = [x]" "t_data x = T_FLOAT f" by (auto simp: isFloat_def length_Suc_conv)
    then show False using assms by (auto simp: Evaluate_def isType_def getIntNum_def)
  qed
qed

section \<open>Properties\<close>

text \<open>
  C17. Subtracting a location from a value relative to a label of the same container makes the
  value absolute, and its integer is the old absolute portion plus the distance from the
  location to the label: how a jump gets its displacement.
\<close>

theorem SubRelative_correct:
  fixes v :: "'f Value"
  assumes v: "v_rel v = Some s" "v_wrt v = None" "\<not> v_seg_of v" "v_rshift v = 0" "\<not> v_section_rel v" "\<not> hasSubRelative v"
    "v_abs v = Some (flatten 0 t)" "tree_val (leaf_int env [] True False) t = Some a"
    and loc: "env_label env s = Some loc" "loc_bc loc = Some b1" "loc_bc sub = Some b2" "env_container env b1 = env_container env b2"
    and ov: "\<not> (ov_disable_global ov \<and> ov_global ov s)"
  shows "\<exists>v' n. SubRelative env (Some ov) sub v = Ret (True, v') \<and> \<not> isRelative v' \<and> \<not> hasSubRelative v' \<and>
           Value_getIntNum F env True v' = Ret (Some n, []) \<and> wf_IntNum n \<and>
           intnum_val n = wrap256 (a + (to_u64 (env_offset env b1 + loc_off loc) - to_u64 (env_offset env b2 + loc_off sub)))"
  by (rule SubRelative_value [OF assms])

theorem SubRelative_correct_witness:
  "\<exists>v' n. SubRelative \<lparr>env_label = \<lambda>s. Some \<lparr>loc_bc = Some 1, loc_off = 2\<rparr>, env_offset = \<lambda>bc. if bc = 1 then 40 else 90,
            env_container = \<lambda>bc. 0\<rparr> (Some \<lparr>ov_absolute = 7, ov_disable_global = False, ov_global = \<lambda>s. True\<rparr>)
            \<lparr>loc_bc = Some 2, loc_off = 5\<rparr> ((Value_of_sym 8 (Some 3))\<lparr>v_abs := Some (flatten 0 (Leaf (T_INT (SV 4))))\<rparr>) = Ret (True, v') \<and>
     \<not> isRelative v' \<and> \<not> hasSubRelative v' \<and>
     Value_getIntNum \<lparr>fo_arith = \<lambda>oper a b. ((), 0), fo_neg = id, fo_promote = \<lambda>w. id, fo_nonzero = \<lambda>f. True\<rparr>
       \<lparr>env_label = \<lambda>s. Some \<lparr>loc_bc = Some 1, loc_off = 2\<rparr>, env_offset = \<lambda>bc. if bc = 1 then 40 else 90,
            env_container = \<lambda>bc. 0\<rparr> True v' = Ret (Some n, []) \<and> wf_IntNum n \<and> intnum_val n = -49"
  using SubRelative_correct [of "(Value_of_sym 8 (Some 3))\<lparr>v_abs := Some (flatten 0 (Leaf (T_INT (SV 4))))\<rparr>" 3 "Leaf (T_INT (SV 4))"
      "\<lparr>env_label = \<lambda>s. Some \<lparr>loc_bc = Some 1, loc_off = 2\<rparr>, env_offset = \<lambda>bc. if bc = 1 then 40 else 90, env_container = \<lambda>bc. 0\<rparr>"
      4 "\<lparr>loc_bc = Some 1, loc_off = 2\<rparr>" 1 "\<lparr>loc_bc = Some 2, loc_off = 5\<rparr>" 2
      "\<lparr>ov_absolute = 7, ov_disable_global = False, ov_global = \<lambda>s. True\<rparr>"]
  by (simp add: Value_of_sym_def Value_of_size_def hasSubRelative_def leaf_int_def sv_range_def limits take_bit_int_eq_self
      wrap256_def signed_take_bit_int_eq_self)

text \<open>
  C18. \<open>OutputBasic\<close> of a value whose absolute portion is a tree of integers takes the tree's
  value \<open>n\<close>: an absolute value is written with \<open>OutputInteger\<close>, a relative one leaves \<open>n\<close> to
  be relocated and the output alone.
\<close>

theorem OutputBasic_correct:
  assumes "v_abs v = Some (flatten 0 t)" "tree_val (leaf_int env [] True False) t = Some a"
  shows "\<exists>n. wf_IntNum n \<and> intnum_val n = a \<and>
     OutputBasic F env output_float v out =
       (if v_rel v \<noteq> None \<or> hasSubRelative v \<or> v_wrt v \<noteq> None then Ret (out, Some n, [])
        else bind_out (OutputInteger out n) (\<lambda>out'. Ret (out', None, [])))"
proof -
  obtain u n where u: "Evaluate F env [] True False (flatten 0 t) = Ret (Some u, [])" "getIntNum u = Some n"
    "wf_IntNum n" "intnum_val n = a"
    using Evaluate_value [OF assms(2)] by blast
  have "t_data u = T_INT n" using u(2) by (auto simp: getIntNum_def split: term_data.splits)
  then show ?thesis using u assms(1) single_leaf_cases [OF u(1,2)]
    by (intro exI [of _ n]) (simp add: OutputBasic_def Let_def)
qed

theorem OutputBasic_correct_witness:
  "\<exists>n. wf_IntNum n \<and> intnum_val n = 7 \<and>
     OutputBasic \<lparr>fo_arith = \<lambda>oper a b. ((), 0), fo_neg = id, fo_promote = \<lambda>w. id, fo_nonzero = \<lambda>f. True\<rparr>
       \<lparr>env_label = \<lambda>s. None, env_offset = \<lambda>bc. 0, env_container = \<lambda>bc. 0\<rparr> (\<lambda>f. Ret)
       (Value_of_expr 8 (flatten 0 (Node Op_ADD [Leaf (T_INT (SV 3)), Leaf (T_INT (SV 4))])))
       (NumericOutput_init \<lparr>m_bigendian = False, contents = [0]\<rparr>) =
     bind_out (OutputInteger (NumericOutput_init \<lparr>m_bigendian = False, contents = [0]\<rparr>) n) (\<lambda>out'. Ret (out', None, []))"
  using OutputBasic_correct [of "Value_of_expr 8 (flatten 0 (Node Op_ADD [Leaf (T_INT (SV 3)), Leaf (T_INT (SV 4))]))"
      "Node Op_ADD [Leaf (T_INT (SV 3)), Leaf (T_INT (SV 4))]"
      "\<lparr>env_label = \<lambda>s. None, env_offset = \<lambda>bc. 0, env_container = \<lambda>bc. 0\<rparr>" 7
      "\<lparr>fo_arith = \<lambda>oper a b. ((), 0), fo_neg = id, fo_promote = \<lambda>w. id, fo_nonzero = \<lambda>f. True\<rparr>" "\<lambda>f. Ret"
      "NumericOutput_init \<lparr>m_bigendian = False, contents = [0]\<rparr>"]
  by (simp add: Value_of_expr_def Value_of_size_def hasSubRelative_def leaf_int_def op_val_def op_domain_def less_Op_def
      calc_spec_def sv_range_def limits)

end
