(* ===== verification/X86Common.thy ===== *)
theory X86Common
  imports Bytes
begin

text \<open>
  \<^verbatim>\<open>modules/arch/x86/X86Common.cpp\<close>, \<^verbatim>\<open>X86Opcode.cpp\<close> and their headers: the legacy
  prefixes every x86 instruction shares and the opcode bytes.  The members are
  \<^verbatim>\<open>unsigned char\<close>.
\<close>

unbundle bit_operations_syntax

section \<open>Prefixes\<close>

datatype X86Prefix_type = LOCKREP | ADDRSIZE | OPERSIZE | SEGREG | REX | ACQREL

record X86Prefix =
  p_type :: X86Prefix_type
  p_value :: byte

record X86Common =
  m_addrsize :: byte
  m_opersize :: byte
  m_lockrep_pre :: byte
  m_acqrel_pre :: byte
  m_mode_bits :: byte

definition X86Common_init :: X86Common where
  "X86Common_init = \<lparr>m_addrsize = 0, m_opersize = 0, m_lockrep_pre = 0, m_acqrel_pre = 0, m_mode_bits = 0\<rparr>"

text \<open>
  The state of the loop of \<open>ApplyPrefixes\<close>: the object, the REX byte (none when the caller
  passes a null pointer), the flag \<^verbatim>\<open>first\<close> and the diagnostics so far.
\<close>

record prefix_state =
  ps_common :: X86Common
  ps_rex :: "byte option"
  ps_first :: bool
  ps_diags :: "diag list"

definition ps_report :: "diag \<Rightarrow> prefix_state \<Rightarrow> prefix_state" where
  "ps_report d st = st\<lparr>ps_diags := ps_diags st @ [d]\<rparr>"

definition ApplyPrefix :: "nat \<Rightarrow> X86Prefix \<Rightarrow> prefix_state \<Rightarrow> prefix_state" where
  "ApplyPrefix def_opersize_64 prefix st =
     (let val = p_value prefix; c = ps_common st in
      case p_type prefix of
        ACQREL \<Rightarrow>
          (if m_acqrel_pre c \<noteq> 0 then ps_report warn_multiple_acq_rel else id)
            (st\<lparr>ps_common := c\<lparr>m_acqrel_pre := val\<rparr>\<rparr>)
      | LOCKREP \<Rightarrow>
          (if m_lockrep_pre c \<noteq> 0 then ps_report warn_multiple_lock_rep else id)
            (st\<lparr>ps_common := c\<lparr>m_lockrep_pre := val\<rparr>\<rparr>)
      | ADDRSIZE \<Rightarrow>
          (if m_mode_bits c = 64 \<and> val = 16 then ps_report err_addr16_override_64mode else id)
            (st\<lparr>ps_common := c\<lparr>m_addrsize := val\<rparr>\<rparr>)
      | OPERSIZE \<Rightarrow>
          (let st1 = (if m_mode_bits c = 64 \<and> val = 32 then ps_report err_data32_override_64mode else id)
                       (st\<lparr>ps_common := c\<lparr>m_opersize := val\<rparr>\<rparr>) in
           if m_mode_bits c = 64 \<and> val = 64 \<and> def_opersize_64 \<noteq> 64 then
             (case ps_rex st of
                None \<Rightarrow> ps_report warn_ignore_rex_on_jump st1
              | Some r \<Rightarrow> if r = 0xff then ps_report warn_illegal_rex_insn st1 else st1\<lparr>ps_rex := Some 0x48\<rparr>)
           else st1)
      | SEGREG \<Rightarrow> st\<lparr>ps_common := c\<lparr>m_lockrep_pre := val\<rparr>\<rparr>
      | REX \<Rightarrow>
          (case ps_rex st of
             None \<Rightarrow> ps_report warn_ignore_rex_on_jump st
           | Some r \<Rightarrow>
               if r = 0xff then ps_report warn_illegal_rex_insn st
               else
                 (if r \<noteq> 0
                  then ps_report (if ps_first st then warn_rex_overrides_internal else warn_multiple_rex)
                  else id) (st\<lparr>ps_common := c\<lparr>m_mode_bits := 64\<rparr>, ps_rex := Some val\<rparr>))\<lparr>ps_first := False\<rparr>)"

definition ApplyPrefixes :: "nat \<Rightarrow> X86Prefix list \<Rightarrow> byte option \<Rightarrow> X86Common \<Rightarrow> prefix_state" where
  "ApplyPrefixes def_opersize_64 prefixes rex c =
     fold (ApplyPrefix def_opersize_64) prefixes
       \<lparr>ps_common = c, ps_rex = rex, ps_first = True, ps_diags = []\<rparr>"

definition Common_Finish :: "X86Common \<Rightarrow> X86Common" where
  "Common_Finish c =
     (if m_opersize c = 0 then c\<lparr>m_opersize := (if m_mode_bits c = 64 then 32 else m_mode_bits c)\<rparr> else c)"

definition Common_getLen :: "X86Common \<Rightarrow> nat" where
  "Common_getLen c =
     (if m_addrsize c \<noteq> 0 \<and> m_addrsize c \<noteq> m_mode_bits c then 1 else 0) +
     (if m_mode_bits c \<noteq> 64 \<and> m_opersize c \<noteq> m_mode_bits c \<or> m_mode_bits c = 64 \<and> m_opersize c = 16 then 1 else 0) +
     (if m_lockrep_pre c \<noteq> 0 then 1 else 0) + (if m_acqrel_pre c \<noteq> 0 then 1 else 0)"

definition Common_ToBytes :: "Bytes \<Rightarrow> byte option \<Rightarrow> X86Common \<Rightarrow> Bytes" where
  "Common_ToBytes bytes segreg c =
     (let b1 = (case segreg of Some s \<Rightarrow> Write8 bytes (uint s) | None \<Rightarrow> bytes);
          b2 = (if m_addrsize c \<noteq> 0 \<and> m_addrsize c \<noteq> m_mode_bits c then Write8 b1 0x67 else b1);
          b3 = (if (m_mode_bits c \<noteq> 64 \<and> m_opersize c \<noteq> m_mode_bits c) \<or> (m_mode_bits c = 64 \<and> m_opersize c = 16)
                then Write8 b2 0x66 else b2);
          b4 = (if m_acqrel_pre c \<noteq> 0 then Write8 b3 (uint (m_acqrel_pre c)) else b3) in
      if m_lockrep_pre c \<noteq> 0 then Write8 b4 (uint (m_lockrep_pre c)) else b4)"

section \<open>Opcodes\<close>

text \<open>Three bytes of storage, of which the first \<^verbatim>\<open>m_len\<close> are the opcode.\<close>

record X86Opcode =
  m_opcode :: "byte list"
  m_len :: nat

definition X86Opcode_make :: "nat \<Rightarrow> byte list \<Rightarrow> X86Opcode" where
  "X86Opcode_make len opcode = \<lparr>m_opcode = take 3 opcode, m_len = len mod 256\<rparr>"

definition Opcode_ToBytes :: "Bytes \<Rightarrow> X86Opcode \<Rightarrow> Bytes" where
  "Opcode_ToBytes bytes oc = Write_array bytes (take (m_len oc) (m_opcode oc))"

definition MakeAlt1 :: "X86Opcode \<Rightarrow> X86Opcode" where
  "MakeAlt1 oc = oc\<lparr>m_opcode := (m_opcode oc)[0 := m_opcode oc ! m_len oc], m_len := 1\<rparr>"

definition MakeAlt2 :: "X86Opcode \<Rightarrow> X86Opcode" where
  "MakeAlt2 oc = oc\<lparr>m_opcode := (m_opcode oc)[0 := m_opcode oc ! 1, 1 := m_opcode oc ! 2], m_len := 2\<rparr>"

definition Opcode_Add :: "nat \<Rightarrow> byte \<Rightarrow> X86Opcode \<Rightarrow> X86Opcode" where
  "Opcode_Add i v oc = oc\<lparr>m_opcode := (m_opcode oc)[i := m_opcode oc ! i + v]\<rparr>"

definition Opcode_Mask :: "nat \<Rightarrow> byte \<Rightarrow> X86Opcode \<Rightarrow> X86Opcode" where
  "Opcode_Mask i v oc = oc\<lparr>m_opcode := (m_opcode oc)[i := m_opcode oc ! i AND v]\<rparr>"

definition Opcode_Merge :: "nat \<Rightarrow> byte \<Rightarrow> X86Opcode \<Rightarrow> X86Opcode" where
  "Opcode_Merge i v oc = oc\<lparr>m_opcode := (m_opcode oc)[i := m_opcode oc ! i OR v]\<rparr>"

section \<open>Lemmas\<close>

definition opcode_ok :: "X86Opcode \<Rightarrow> bool" where
  "opcode_ok oc \<longleftrightarrow> length (m_opcode oc) = 3 \<and> m_len oc \<le> 3"

lemma contents_Write8 [simp]: "contents (Write8 b v) = contents b @ [byte_at v 0]"
  by (simp add: Write8_def push_back_def)

lemma byte_at_uint [simp]: "byte_at (uint (v :: byte)) 0 = v"
  by (simp add: byte_at_def)

lemma Common_ToBytes_len:
  "length (contents (Common_ToBytes bytes segreg c)) =
     length (contents bytes) + Common_getLen c + (if segreg = None then 0 else 1)"
  by (cases segreg) (simp_all add: Common_ToBytes_def Common_getLen_def Let_def)

lemma Opcode_ToBytes_len:
  "opcode_ok oc \<Longrightarrow> length (contents (Opcode_ToBytes bytes oc)) = length (contents bytes) + m_len oc"
  by (simp add: Opcode_ToBytes_def Write_array_def opcode_ok_def)

lemma ApplyPrefix_rex: "ps_rex (ApplyPrefix d p st) = None \<longleftrightarrow> ps_rex st = None"
  by (simp add: ApplyPrefix_def Let_def ps_report_def split: X86Prefix_type.split option.split)

text \<open>
  What the processor makes of the prefixes: the address size that the prefix 0x67 toggles, and the operand size that
  the prefix 0x66 toggles unless REX.W selects 64 bits.  \<open>sizes_ok\<close> are the sizes which can be asked for in a
  mode, none being zero.
\<close>

definition eff_addrsize :: "byte \<Rightarrow> bool \<Rightarrow> byte" where
  "eff_addrsize mode pre =
     (if mode = 16 then (if pre then 32 else 16) else if mode = 32 then (if pre then 16 else 32) else (if pre then 32 else 64))"

definition eff_opersize :: "byte \<Rightarrow> bool \<Rightarrow> bool \<Rightarrow> byte" where
  "eff_opersize mode rex_w pre = (if mode = 64 \<and> rex_w then 64 else if (mode = 16) = pre then 32 else 16)"

definition sizes_ok :: "X86Common \<Rightarrow> bool" where
  "sizes_ok c \<longleftrightarrow> m_mode_bits c \<in> {16, 32, 64} \<and>
     m_addrsize c \<in> (if m_mode_bits c = 64 then {0, 32, 64} else {0, 16, 32}) \<and>
     m_opersize c \<in> (if m_mode_bits c = 64 then {0, 16, 32, 64} else {0, 16, 32})"

section \<open>Properties\<close>

text \<open>
  C19. For the sizes that can be asked for in the mode, the bytes \<open>ToBytes\<close> appends after \<open>Finish\<close> are the segment override, then size
  prefixes with which the processor uses the requested operand and address sizes (those of the mode when none
  was requested), none of them redundant or repeated, then the transaction hint and the lock or repeat prefix.  They are as many bytes as
  \<^verbatim>\<open>X86Common::getLen\<close> announces, besides the segment override.
\<close>

theorem Common_ToBytes_correct:
  assumes "sizes_ok c"
  shows "\<exists>sizes. contents (Common_ToBytes bytes segreg (Common_Finish c)) =
       contents bytes @ (case segreg of None \<Rightarrow> [] | Some s \<Rightarrow> [s]) @ sizes @ filter (\<lambda>b. b \<noteq> 0) [m_acqrel_pre c, m_lockrep_pre c] \<and>
     set sizes \<subseteq> {0x66, 0x67} \<and> distinct sizes \<and>
     eff_addrsize (m_mode_bits c) (0x67 \<in> set sizes) =
       (if m_addrsize c = 0 then eff_addrsize (m_mode_bits c) False else m_addrsize c) \<and>
     (0x67 \<in> set sizes \<longrightarrow> eff_addrsize (m_mode_bits c) False \<noteq> m_addrsize c) \<and>
     eff_opersize (m_mode_bits c) (m_opersize c = 64) (0x66 \<in> set sizes) =
       (if m_opersize c = 0 then eff_opersize (m_mode_bits c) False False else m_opersize c) \<and>
     (0x66 \<in> set sizes \<longrightarrow> eff_opersize (m_mode_bits c) (m_opersize c = 64) False \<noteq> m_opersize c) \<and>
     length (contents (Common_ToBytes bytes segreg (Common_Finish c))) =
       length (contents bytes) + Common_getLen (Common_Finish c) + (if segreg = None then 0 else 1)"
proof -
  let ?addr = "m_addrsize c \<noteq> 0 \<and> m_addrsize c \<noteq> eff_addrsize (m_mode_bits c) False"
  let ?oper = "m_opersize c \<noteq> 0 \<and> m_opersize c \<noteq> eff_opersize (m_mode_bits c) (m_opersize c = 64) False"
  let ?sizes = "(if ?addr then [0x67] else []) @ (if ?oper then [0x66] else []) :: byte list"
  have mode: "m_mode_bits c = 16 \<or> m_mode_bits c = 32 \<or> m_mode_bits c = 64" using assms by (simp add: sizes_ok_def)
  then have "?addr \<longleftrightarrow> m_addrsize c \<noteq> 0 \<and> m_addrsize c \<noteq> m_mode_bits c" by (auto simp: eff_addrsize_def)
  moreover have "?oper \<longleftrightarrow> m_mode_bits c \<noteq> 64 \<and> m_opersize (Common_Finish c) \<noteq> m_mode_bits c \<or>
      m_mode_bits c = 64 \<and> m_opersize (Common_Finish c) = 16"
    using assms mode by (auto simp: sizes_ok_def eff_opersize_def Common_Finish_def)
  moreover have "byte_at 0x67 0 = 0x67" "byte_at 0x66 0 = 0x66" by (simp_all add: byte_at_def)
  moreover have "m_addrsize (Common_Finish c) = m_addrsize c" "m_mode_bits (Common_Finish c) = m_mode_bits c"
      "m_acqrel_pre (Common_Finish c) = m_acqrel_pre c" "m_lockrep_pre (Common_Finish c) = m_lockrep_pre c"
    by (simp_all add: Common_Finish_def)
  ultimately have bytes: "contents (Common_ToBytes bytes segreg (Common_Finish c)) =
       contents bytes @ (case segreg of None \<Rightarrow> [] | Some s \<Rightarrow> [s]) @ ?sizes @ filter (\<lambda>b. b \<noteq> 0) [m_acqrel_pre c, m_lockrep_pre c]"
    by (cases segreg) (simp_all add: Common_ToBytes_def Let_def)
  have eff: "eff_addrsize (m_mode_bits c) ?addr = (if m_addrsize c = 0 then eff_addrsize (m_mode_bits c) False else m_addrsize c)"
      "eff_opersize (m_mode_bits c) (m_opersize c = 64) ?oper = (if m_opersize c = 0 then eff_opersize (m_mode_bits c) False False else m_opersize c)"
    using assms mode by (auto simp: sizes_ok_def eff_addrsize_def eff_opersize_def)
  have sizes: "0x67 \<in> set ?sizes \<longleftrightarrow> ?addr" "0x66 \<in> set ?sizes \<longleftrightarrow> ?oper" "set ?sizes \<subseteq> {0x66, 0x67}" "distinct ?sizes" by auto
  show ?thesis
    by (rule exI [of _ ?sizes], unfold sizes(1,2) Common_ToBytes_len eff, intro conjI sizes(3,4) bytes) auto
qed

theorem Common_ToBytes_correct_witness:
  "\<exists>sizes. contents (Common_ToBytes \<lparr>m_bigendian = False, contents = [7]\<rparr> (Some 0x2e)
       (Common_Finish (X86Common_init\<lparr>m_mode_bits := 64, m_opersize := 16, m_addrsize := 32, m_lockrep_pre := 0xf0\<rparr>))) = [7, 0x2e] @ sizes @ [0xf0] \<and>
     eff_addrsize 64 (0x67 \<in> set sizes) = 32 \<and> eff_opersize 64 False (0x66 \<in> set sizes) = 16"
  using Common_ToBytes_correct [of "X86Common_init\<lparr>m_mode_bits := 64, m_opersize := 16, m_addrsize := 32, m_lockrep_pre := 0xf0\<rparr>"
      "\<lparr>m_bigendian = False, contents = [7]\<rparr>" "Some 0x2e"]
  by (auto simp: sizes_ok_def X86Common_init_def)

text \<open>
  Without a REX byte to fill in (a jump), no prefix list changes the mode or invents one:
  every REX prefix is reported as ignored, and the mode stays.
\<close>

lemma ApplyPrefixes_no_rex:
  "ps_rex (ApplyPrefixes d ps None c) = None \<and>
   m_mode_bits (ps_common (ApplyPrefixes d ps None c)) = m_mode_bits c \<and>
   count_list (List.map p_type ps) REX \<le> count_list (ps_diags (ApplyPrefixes d ps None c)) warn_ignore_rex_on_jump"
proof -
  have "ps_rex (fold (ApplyPrefix d) ps st) = None \<and>
      m_mode_bits (ps_common (fold (ApplyPrefix d) ps st)) = m_mode_bits (ps_common st) \<and>
      count_list (List.map p_type ps) REX + count_list (ps_diags st) warn_ignore_rex_on_jump
        \<le> count_list (ps_diags (fold (ApplyPrefix d) ps st)) warn_ignore_rex_on_jump"
    if "ps_rex st = None" for st
    using that
  proof (induction ps arbitrary: st)
    case (Cons p ps)
    have "ps_rex (ApplyPrefix d p st) = None" using Cons.prems by (simp add: ApplyPrefix_rex)
    moreover have "m_mode_bits (ps_common (ApplyPrefix d p st)) = m_mode_bits (ps_common st)"
      using Cons.prems by (simp add: ApplyPrefix_def Let_def ps_report_def split: X86Prefix_type.split option.split)
    moreover have "count_list (ps_diags st) warn_ignore_rex_on_jump + (if p_type p = REX then 1 else 0)
        \<le> count_list (ps_diags (ApplyPrefix d p st)) warn_ignore_rex_on_jump"
      using Cons.prems by (simp add: ApplyPrefix_def Let_def ps_report_def split: X86Prefix_type.split option.split)
    ultimately show ?case using Cons.IH [of "ApplyPrefix d p st"] by (auto split: if_splits)
  qed simp
  from this [of "\<lparr>ps_common = c, ps_rex = None, ps_first = True, ps_diags = []\<rparr>"]
  show ?thesis by (simp add: ApplyPrefixes_def)
qed

end
