(* ===== verification/Simplify.thy ===== *)
theory Simplify
  imports Evaluate
begin

text \<open>
  Simplification, \<^verbatim>\<open>lib/yasmx/Expr.cpp\<close> from \<^verbatim>\<open>TransformNegImpl\<close> to \<^verbatim>\<open>Simplify\<close>, the template of
  \<^verbatim>\<open>include/yasmx/Expr.h\<close> that calls a functor between two rounds, and the functors of
  \<^verbatim>\<open>lib/yasmx/Location_util.cpp\<close> that replace differences of locations.  Negations are pushed
  to the leaves first; then the vector is walked from left to right, so that the operands of
  an operator are levelled before the operator.
\<close>

unbundle bit_operations_syntax

lemma bind_out_cong [fundef_cong]:
  "m = m' \<Longrightarrow> (\<And>x. m' = Ret x \<Longrightarrow> f x = f' x) \<Longrightarrow> bind_out m f = bind_out m' f'"
  by (cases m') simp_all

definition getFloat :: "'f ExprTerm \<Rightarrow> 'f option" where
  "getFloat t = (case t_data t of T_FLOAT f \<Rightarrow> Some f | _ \<Rightarrow> None)"

section \<open>Negations\<close>

text \<open>
  \<open>TransformNegImpl\<close> walks the vector from right to left.  \<open>left\<close> are the terms it has not
  visited, the next one first; \<open>right\<close> are those it has, in the order of the vector.  The
  index it returns is that of the last term visited, so what is left are the terms below
  it.  \<open>neg_times\<close> is the loop over the children of an operator.
\<close>

function (sequential) TransformNegImpl :: "'f float_ops \<Rightarrow> int \<Rightarrow> int \<Rightarrow> bool \<Rightarrow> 'f Expr \<Rightarrow> 'f Expr \<Rightarrow> ('f Expr \<times> 'f Expr) outcome"
  and neg_times :: "'f float_ops \<Rightarrow> nat \<Rightarrow> int \<Rightarrow> int \<Rightarrow> bool \<Rightarrow> 'f Expr \<Rightarrow> 'f Expr \<Rightarrow> ('f Expr \<times> 'f Expr) outcome" where
  "TransformNegImpl F stop_depth depth_delta negating [] right = Ret ([], right)"
| "TransformNegImpl F stop_depth depth_delta negating (t # left) right =
     (if isEmpty t then TransformNegImpl F stop_depth depth_delta negating left (t # right)
      else
        let child = add_depth depth_delta t; child_depth = m_depth child; oper = getOp child in
        bind_out
          (if oper = Op_NEG
           then TransformNegImpl F child_depth (depth_delta - 1) (\<not> negating) left (Clear child # right)
           else if oper = Op_SUB
           then bind_out (TransformNegImpl F (child_depth + 1) depth_delta (\<not> negating) left
                           (child\<lparr>t_data := T_OP Op_ADD (getNumChild child)\<rparr> # right)) (\<lambda>(l, r).
                  TransformNegImpl F (child_depth + 1) depth_delta negating l r)
           else if \<not> negating then Ret (left, child # right)
           else if oper = Op_ADD
           then neg_times F (nat (getNumChild child)) (child_depth + 1) depth_delta True left (child # right)
           else if oper = Op_MUL
           then Ret (left, mk_term (T_INT (SV (-1))) (child_depth + 1) #
                           mk_term (T_OP Op_MUL (getNumChild child + 1)) child_depth # right)
           else (case getIntNum child of
                   Some n \<Rightarrow> bind_out (CalcAssert Op_NEG n None) (\<lambda>m. Ret (left, setIntNum m child # right))
                 | None \<Rightarrow> (case getFloat child of
                   Some f \<Rightarrow> Ret (left, child\<lparr>t_data := T_FLOAT (fo_neg F f)\<rparr> # right)
                 | None \<Rightarrow> neg_times F (nat (getNumChild child)) (child_depth + 2) (depth_delta + 1) False left
                         (add_depth 1 child # mk_term (T_INT (SV (-1))) (child_depth + 1) #
                          mk_term (T_OP Op_MUL 2) child_depth # right))))
          (\<lambda>(l, r). if child_depth \<le> stop_depth then Ret (l, r)
                    else TransformNegImpl F stop_depth depth_delta negating l r))"
| "neg_times F 0 stop_depth depth_delta negating left right = Ret (left, right)"
| "neg_times F (Suc k) stop_depth depth_delta negating left right =
     bind_out (TransformNegImpl F stop_depth depth_delta negating left right) (\<lambda>(l, r).
       neg_times F k stop_depth depth_delta negating l r)"
  by pat_completeness auto

termination
proof -
  have neg_length: "TransformNegImpl_neg_times_dom (Inl (F, s, d, n, left, right)) \<Longrightarrow> TransformNegImpl F s d n left right = Ret (l, r) \<Longrightarrow>
      length l \<le> length left - 1"
    and neg_times_length: "TransformNegImpl_neg_times_dom (Inr (F, k, s, d, n, left, right)) \<Longrightarrow> neg_times F k s d n left right = Ret (l, r) \<Longrightarrow>
      length l \<le> length left" for F s d n left right k l r
  proof (induction F s d n left right and F k s d n left right arbitrary: l r and l r rule: TransformNegImpl_neg_times.pinduct)
    case (1 F s d n right)
    then show ?case by (simp add: TransformNegImpl.psimps)
  next
    case (2 F s d n t left right)
    show ?case
    proof (cases "isEmpty t")
      case True
      then show ?thesis using 2(2) [OF True] 2(1,9) by (auto simp: TransformNegImpl.psimps)
    next
      case False
      let ?c = "add_depth d t"
      let ?cd = "m_depth ?c"
      obtain l1 r1 where step: "(if getOp ?c = Op_NEG
             then TransformNegImpl F ?cd (d - 1) (\<not> n) left (Clear ?c # right)
             else if getOp ?c = Op_SUB
             then bind_out (TransformNegImpl F (?cd + 1) d (\<not> n) left (?c\<lparr>t_data := T_OP Op_ADD (getNumChild ?c)\<rparr> # right)) (\<lambda>(l, r).
                    TransformNegImpl F (?cd + 1) d n l r)
             else if \<not> n then Ret (left, ?c # right)
             else if getOp ?c = Op_ADD
             then neg_times F (nat (getNumChild ?c)) (?cd + 1) d True left (?c # right)
             else if getOp ?c = Op_MUL
             then Ret (left, mk_term (T_INT (SV (-1))) (?cd + 1) # mk_term (T_OP Op_MUL (getNumChild ?c + 1)) ?cd # right)
             else (case getIntNum ?c of
                     Some n \<Rightarrow> bind_out (CalcAssert Op_NEG n None) (\<lambda>m. Ret (left, setIntNum m ?c # right))
                   | None \<Rightarrow> (case getFloat ?c of
                     Some f \<Rightarrow> Ret (left, ?c\<lparr>t_data := T_FLOAT (fo_neg F f)\<rparr> # right)
                   | None \<Rightarrow> neg_times F (nat (getNumChild ?c)) (?cd + 2) (d + 1) False left
                           (add_depth 1 ?c # mk_term (T_INT (SV (-1))) (?cd + 1) # mk_term (T_OP Op_MUL 2) ?cd # right)))) = Ret (l1, r1)"
        (is "?X = _") and fin: "(if ?cd \<le> s then Ret (l1, r1) else TransformNegImpl F s d n l1 r1) = Ret (l, r)"
        using 2(1,9) False by (auto simp: TransformNegImpl.psimps Let_def bind_out_Ret_iff)
      have "length l1 \<le> length left"
      proof -
        consider "getOp ?c = Op_NEG" | "getOp ?c = Op_SUB" | "getOp ?c \<noteq> Op_NEG" "getOp ?c \<noteq> Op_SUB" "\<not> n"
          | "getOp ?c = Op_ADD" n | "getOp ?c = Op_MUL" n | "getOp ?c \<notin> {Op_NEG, Op_SUB, Op_ADD, Op_MUL}" n by blast
        then show ?thesis
        proof cases
          case 1
          then show ?thesis using step 2(3) [OF False refl refl refl] by fastforce
        next
          case c: 2
          then obtain l2 r2 where "TransformNegImpl F (?cd + 1) d (\<not> n) left (?c\<lparr>t_data := T_OP Op_ADD (getNumChild ?c)\<rparr> # right) = Ret (l2, r2)"
            "TransformNegImpl F (?cd + 1) d n l2 r2 = Ret (l1, r1)" using step by (auto simp: bind_out_Ret_iff)
          then show ?thesis using 2(4) [OF False refl refl refl] 2(5) [OF False refl refl refl] c by fastforce
        next
          case 4
          then show ?thesis using step 2(6) [OF False refl refl refl] by simp
        next
          case 6
          then show ?thesis using step 2(7) [OF False refl refl refl] by (auto simp: bind_out_Ret_iff split: option.splits)
        qed (use step in auto)
      qed
      moreover have "length l \<le> length l1"
      proof (cases "?cd \<le> s")
        case False2: False
        then show ?thesis using 2(8) [OF False refl refl refl step refl] fin by fastforce
      qed (use fin in simp)
      ultimately show ?thesis by simp
    qed
  next
    case (3 F s d n left right)
    then show ?case by (simp add: neg_times.psimps)
  next
    case (4 F k s d n left right)
    then show ?case by (fastforce simp: neg_times.psimps bind_out_Ret_iff)
  qed
  show ?thesis
    apply (relation "measures [\<lambda>x. case x of Inl (F, s, d, n, left, right) \<Rightarrow> length left | Inr (F, k, s, d, n, left, right) \<Rightarrow> length left,
        \<lambda>x. case x of Inl _ \<Rightarrow> 0 | Inr (F, k, s, d, n, left, right) \<Rightarrow> Suc k]")
             apply (auto dest!: neg_length simp: bind_out_Ret_iff split: if_splits option.splits)
    subgoal for F stop_depth depth_delta negating t left right a b aa ba
      using neg_length [of F _ _ negating aa ba a b] by fastforce
    by (drule (1) neg_times_length, simp)+
qed

declare bind_out_cong [fundef_cong del]

definition TransformNeg :: "'f float_ops \<Rightarrow> 'f Expr \<Rightarrow> 'f Expr outcome" where
  "TransformNeg F terms =
     (if terms = [] then Undefined
      else let root = last terms in
           if \<not> isOp root then Ret terms
           else bind_out (TransformNegImpl F (m_depth root - 1) 0 False (rev terms) []) (\<lambda>(l, r). Ret (rev l @ r)))"

section \<open>Levelling\<close>

text \<open>
  \<^verbatim>\<open>SEG\<close> of a segment and offset: the offset is cleared, up to the operator's first child,
  which is brought up by two levels.  The recursion parameter is \<^verbatim>\<open>m + 1\<close>.
\<close>

fun seg_clear :: "int \<Rightarrow> nat \<Rightarrow> nat \<Rightarrow> 'f Expr \<Rightarrow> nat \<times> 'f Expr" where
  "seg_clear depth cnum 0 terms = (0, terms)"
| "seg_clear depth cnum (Suc m) terms =
     (let child2 = terms ! m; cnum' = (if m_depth child2 = depth + 1 then Suc cnum else cnum) in
      if isEmpty child2 then seg_clear depth cnum m terms
      else if m_depth child2 \<le> depth then (Suc m, terms)
      else if cnum' = 2 then (Suc m, terms)
      else seg_clear depth cnum' m (terms[m := Clear child2]))"

fun seg_raise :: "int \<Rightarrow> nat \<Rightarrow> 'f Expr \<Rightarrow> 'f Expr" where
  "seg_raise depth 0 terms = terms"
| "seg_raise depth (Suc m) terms =
     (let child2 = terms ! m in
      if isEmpty child2 then seg_raise depth m terms
      else if m_depth child2 \<le> depth then terms
      else seg_raise depth m (terms[m := add_depth (-2) child2]))"

definition seg_of_segoff :: "nat \<Rightarrow> nat \<Rightarrow> 'f Expr \<Rightarrow> 'f Expr outcome" where
  "seg_of_segoff pos n terms =
     (let depth = m_depth (terms ! n); (m, terms1) = seg_clear depth 0 n terms in
      if m = 0 then Undefined
      else let terms2 = seg_raise depth m terms1 in
           Ret (terms2[n := Clear (terms2 ! n), pos := Clear (terms2 ! pos)]))"

text \<open>
  The loop over the children: the positions of the integer and of the float that collect the
  numbers, and the number of the child.  A step continues with the next term or leaves the
  function.
\<close>

record 'f level_state =
  ls_terms :: "'f Expr"
  ls_int :: "nat option"
  ls_flt :: "nat option"
  ls_childnum :: int
  ls_diags :: "diag list"

definition upd_term :: "nat \<Rightarrow> ('f ExprTerm \<Rightarrow> 'f ExprTerm) \<Rightarrow> 'f Expr \<Rightarrow> 'f Expr" where
  "upd_term n f terms = terms[n := f (terms ! n)]"

definition fold_float :: "'f float_ops \<Rightarrow> Op \<Rightarrow> nat \<Rightarrow> nat \<Rightarrow> 'f \<Rightarrow> 'f level_state \<Rightarrow> 'f level_state outcome" where
  "fold_float F oper pos n fltn st =
     (if oper \<ge> Op_NEG then Ret st
      else
        bind_out
          (case ls_int st of
             None \<Rightarrow> Ret st
           | Some i \<Rightarrow>
               bind_out (PromoteToFloat F fltn (t_data (ls_terms st ! i))) (\<lambda>d.
                 Ret (st\<lparr>ls_flt := Some i, ls_int := None, ls_terms := upd_term i (\<lambda>t. t\<lparr>t_data := d\<rparr>) (ls_terms st)\<rparr>)))
          (\<lambda>st1.
             case ls_flt st1 of
               None \<Rightarrow> Ret (st1\<lparr>ls_flt := Some n\<rparr>)
             | Some i \<Rightarrow>
                 (case getFloat (ls_terms st1 ! i) of
                    None \<Rightarrow> Undefined
                  | Some acc \<Rightarrow>
                      let (h, ok, ds) = CalcFloat F fltn oper acc in
                      Ret (st1\<lparr>ls_terms := upd_term pos (AddNumChild (-1)) (upd_term n Clear
                              (upd_term i (\<lambda>t. t\<lparr>t_data := T_FLOAT h\<rparr>) (ls_terms st1))),
                            ls_diags := ls_diags st1 @ ds\<rparr>))))"

text \<open>An integer child; \<open>None\<close> is the return after a constant identity.\<close>

definition fold_int :: "'f float_ops \<Rightarrow> bool \<Rightarrow> Op \<Rightarrow> nat \<Rightarrow> nat \<Rightarrow> IntNum \<Rightarrow> 'f level_state \<Rightarrow>
    ('f level_state \<times> bool) outcome" where
  "fold_int F simplify_reg_mul oper pos n intn st =
     (let terms = ls_terms st; root = terms ! pos; childnum = ls_childnum st in
      bind_out (Contains terms 1 (int pos)) (\<lambda>reg.
        if (simplify_reg_mul \<or> oper \<noteq> Op_MUL \<or> \<not> isPos1 intn \<or> \<not> reg) \<and> getNumChild root > 1 \<and>
           (childnum \<noteq> 0 \<and> isRightIdentity oper intn \<or> childnum = 0 \<and> isLeftIdentity oper intn)
        then Ret (st\<lparr>ls_terms := upd_term pos (AddNumChild (-1)) (upd_term n Clear terms)\<rparr>, False)
        else if isConstantIdentity oper intn then
          bind_out (ClearExcept terms (int pos) (int n)) (\<lambda>terms1.
            Ret (st\<lparr>ls_terms := upd_term pos Clear (upd_term n (add_depth (-1)) terms1)\<rparr>, True))
        else
          case (if oper < Op_NEG then ls_flt st else None) of
            Some i \<Rightarrow>
              (case getFloat (terms ! i) of
                 None \<Rightarrow> Undefined
               | Some like \<Rightarrow>
                   bind_out (PromoteToFloat F like (T_INT intn)) (\<lambda>d.
                     case d of
                       T_FLOAT fltn \<Rightarrow>
                         bind_out (fold_float F oper pos n fltn (st\<lparr>ls_terms := upd_term n (\<lambda>t. t\<lparr>t_data := d\<rparr>) terms\<rparr>))
                           (\<lambda>st1. Ret (st1, False))
                     | _ \<Rightarrow> Undefined))
          | None \<Rightarrow>
              (case ls_int st of
                 None \<Rightarrow> Ret (st\<lparr>ls_int := Some n\<rparr>, False)
               | Some i \<Rightarrow>
                   if \<not> oper < Op_NONNUM then Ret (st, False)
                   else (case getIntNum (terms ! i) of
                           None \<Rightarrow> Undefined
                         | Some acc \<Rightarrow>
                             bind_out (calc_report (Calc oper intn acc) intn) (\<lambda>(r, ds).
                               Ret (st\<lparr>ls_terms := upd_term pos (AddNumChild (-1)) (upd_term n Clear
                                       (upd_term i (setIntNum r) terms)),
                                     ls_diags := ls_diags st @ ds\<rparr>, False))))))"

text \<open>A conditional keeps its last two children until it sees the condition.\<close>

definition cond_child :: "'f float_ops \<Rightarrow> nat \<Rightarrow> nat \<Rightarrow> 'f level_state \<Rightarrow> 'f level_state" where
  "cond_child F pos n st =
     (case (ls_int st, ls_flt st) of
        (None, _) \<Rightarrow> st\<lparr>ls_int := Some n\<rparr>
      | (Some i, None) \<Rightarrow> st\<lparr>ls_flt := Some n\<rparr>
      | (Some i, Some f) \<Rightarrow>
          let child = ls_terms st ! n;
              pickb = (case getIntNum child of
                         Some intn \<Rightarrow> \<not> isZero intn
                       | None \<Rightarrow> (case getFloat child of Some fltn \<Rightarrow> fo_nonzero F fltn | None \<Rightarrow> True)) in
          st\<lparr>ls_terms := upd_term pos (AddNumChild (-2)) (upd_term (if pickb then i else f) Clear (upd_term n Clear (ls_terms st)))\<rparr>)"

definition level_child :: "'f float_ops \<Rightarrow> bool \<Rightarrow> Op \<Rightarrow> nat \<Rightarrow> nat \<Rightarrow> 'f level_state \<Rightarrow> ('f level_state \<times> bool) outcome" where
  "level_child F simplify_reg_mul oper pos n st =
     (let child = ls_terms st ! n in
      if oper = Op_SEG \<and> isOp_of child Op_SEGOFF then
        bind_out (seg_of_segoff pos n (ls_terms st)) (\<lambda>terms. Ret (st\<lparr>ls_terms := terms\<rparr>, True))
      else if oper = Op_COND then Ret (cond_child F pos n st, False)
      else case getIntNum child of
             Some intn \<Rightarrow> fold_int F simplify_reg_mul oper pos n intn st
           | None \<Rightarrow>
               (case getFloat child of
                  Some fltn \<Rightarrow> bind_out (fold_float F oper pos n fltn st) (\<lambda>st1. Ret (st1, False))
                | None \<Rightarrow>
                    if isAssociative oper \<and> isOp_of child oper
                    then let terms1 = ReduceDepth (upd_term pos (AddNumChild (getNumChild child - 1)) (ls_terms st)) n 1 in
                         Ret (st\<lparr>ls_terms := upd_term n Clear terms1\<rparr>, False)
                    else Ret (st, False)))"

fun level_loop :: "'f float_ops \<Rightarrow> bool \<Rightarrow> Op \<Rightarrow> nat \<Rightarrow> nat \<Rightarrow> 'f level_state \<Rightarrow> ('f level_state \<times> bool) outcome" where
  "level_loop F simplify_reg_mul oper pos 0 st = Ret (st, False)"
| "level_loop F simplify_reg_mul oper pos (Suc n) st =
     (let child = ls_terms st ! n; rdepth = m_depth (ls_terms st ! pos) in
      if isEmpty child then level_loop F simplify_reg_mul oper pos n st
      else if m_depth child \<le> rdepth then Ret (st, False)
      else if m_depth child \<noteq> rdepth + 1 then level_loop F simplify_reg_mul oper pos n st
      else bind_out (level_child F simplify_reg_mul oper pos n (st\<lparr>ls_childnum := ls_childnum st - 1\<rparr>)) (\<lambda>(st1, leave).
             if leave then Ret (st1, True) else level_loop F simplify_reg_mul oper pos n st1))"

text \<open>What is done with an operator that has one child or none left.\<close>

definition level_end :: "'f float_ops \<Rightarrow> Op \<Rightarrow> nat \<Rightarrow> 'f level_state \<Rightarrow> ('f Expr \<times> diag list) outcome" where
  "level_end F oper pos st =
     (let terms = ls_terms st; num = getNumChild (terms ! pos); unary = isUnary oper in
      if num = 1 then
        bind_out
          (case (if oper = Op_IDENT \<or> oper = Op_NEG then ls_flt st else None) of
             None \<Rightarrow> Ret terms
           | Some i \<Rightarrow>
               (case getFloat (terms ! i) of
                  None \<Rightarrow> Undefined
                | Some f \<Rightarrow>
                    Ret (upd_term pos Clear (upd_term i (\<lambda>t. add_depth (-1) (t\<lparr>t_data := T_FLOAT (if oper = Op_NEG then fo_neg F f else f)\<rparr>)) terms))))
          (\<lambda>terms1.
             case (if unary \<and> oper < Op_NONNUM then ls_int st else None) of
               Some i \<Rightarrow>
                 (case getIntNum (terms1 ! i) of
                    None \<Rightarrow> Undefined
                  | Some intn \<Rightarrow>
                      bind_out (calc_report (Calc1 oper intn) intn) (\<lambda>(r, ds).
                        Ret (upd_term pos Clear (upd_term i (\<lambda>t. add_depth (-1) (setIntNum r t)) terms1), ls_diags st @ ds)))
             | None \<Rightarrow>
                 if \<not> unary then Ret (upd_term pos Clear (ReduceDepth terms1 pos 1), ls_diags st)
                 else Ret (terms1, ls_diags st))
      else if num = 0 then Ret (upd_term pos Zero terms, ls_diags st)
      else Ret (terms, ls_diags st))"

definition LevelOp :: "'f float_ops \<Rightarrow> bool \<Rightarrow> 'f Expr \<Rightarrow> int \<Rightarrow> ('f Expr \<times> diag list) outcome" where
  "LevelOp F simplify_reg_mul terms pos =
     (if terms = [] then Ret (terms, [])
      else if \<not> valid_pos terms pos then Undefined
      else
        let p = nat (norm_pos terms pos); root = terms ! p; oper = getOp root in
        if \<not> isOp root then Ret (terms, [])
        else bind_out (level_loop F simplify_reg_mul oper p p
                         \<lparr>ls_terms = terms, ls_int = None, ls_flt = None, ls_childnum = getNumChild root, ls_diags = []\<rparr>) (\<lambda>(st, leave).
               if leave then Ret (ls_terms st, ls_diags st) else level_end F oper p st))"

section \<open>Simplification\<close>

fun simplify_loop :: "'f float_ops \<Rightarrow> bool \<Rightarrow> nat list \<Rightarrow> 'f Expr \<Rightarrow> ('f Expr \<times> diag list) outcome" where
  "simplify_loop F simplify_reg_mul [] terms = Ret (terms, [])"
| "simplify_loop F simplify_reg_mul (pos # ps) terms =
     (if \<not> isOp (terms ! pos) then simplify_loop F simplify_reg_mul ps terms
      else bind_out (LevelOp F simplify_reg_mul terms (int pos)) (\<lambda>(terms1, ds).
           bind_out (simplify_loop F simplify_reg_mul ps terms1) (\<lambda>(terms2, ds'). Ret (terms2, ds @ ds'))))"

definition Simplify :: "'f float_ops \<Rightarrow> bool \<Rightarrow> 'f Expr \<Rightarrow> ('f Expr \<times> diag list) outcome" where
  "Simplify F simplify_reg_mul terms =
     bind_out (TransformNeg F terms) (\<lambda>terms1.
     bind_out (simplify_loop F simplify_reg_mul [0..<length terms1] terms1) (\<lambda>(terms2, ds).
       Ret (Cleanup terms2, ds)))"

section \<open>Differences of locations\<close>

text \<open>
  The overloaded \<open>Simplify\<close> with a functor, which is called between two rounds of levelling and
  has a state of its own.
\<close>

type_synonym ('s, 'f) dist_functor = "'s \<Rightarrow> 'f Expr \<Rightarrow> nat \<Rightarrow> ('f Expr \<times> 's) outcome"

fun simplify_with_loop :: "'f float_ops \<Rightarrow> ('s, 'f) dist_functor \<Rightarrow> bool \<Rightarrow> nat list \<Rightarrow> 's \<Rightarrow> 'f Expr \<Rightarrow>
    ('f Expr \<times> 's \<times> diag list) outcome" where
  "simplify_with_loop F func simplify_reg_mul [] s terms = Ret (terms, s, [])"
| "simplify_with_loop F func simplify_reg_mul (pos # ps) s terms =
     (let level = (\<lambda>ts. if isOp (ts ! pos) then LevelOp F simplify_reg_mul ts (int pos) else Ret (ts, [])) in
      bind_out (level terms) (\<lambda>(terms1, ds1).
      bind_out (if isOp (terms1 ! pos) then func s terms1 pos else Ret (terms1, s)) (\<lambda>(terms2, s1).
      bind_out (if isOp (terms1 ! pos) then level terms2 else Ret (terms2, [])) (\<lambda>(terms3, ds2).
      bind_out (simplify_with_loop F func simplify_reg_mul ps s1 terms3) (\<lambda>(terms4, s2, ds3).
        Ret (terms4, s2, ds1 @ ds2 @ ds3))))))"

definition Simplify_with :: "'f float_ops \<Rightarrow> ('s, 'f) dist_functor \<Rightarrow> bool \<Rightarrow> 's \<Rightarrow> 'f Expr \<Rightarrow> ('f Expr \<times> 's \<times> diag list) outcome" where
  "Simplify_with F func simplify_reg_mul s terms =
     bind_out (TransformNeg F terms) (\<lambda>terms1.
     bind_out (simplify_with_loop F func simplify_reg_mul [0..<length terms1] s terms1) (\<lambda>(terms2, s1, ds).
       Ret (Cleanup terms2, s1, ds)))"

text \<open>
  \<^verbatim>\<open>TransformDistBase\<close>: the scan for symbols and negated symbols, as distances from the
  operator, and the search for pairs.  A subtracted symbol that has been matched is marked
  with 255.  \<^verbatim>\<open>isNeg1Sym\<close> returns a position below the one it was given, so the minimum in the
  recursion is that position.
\<close>

fun dist_scan :: "nat \<Rightarrow> nat \<Rightarrow> 'f Expr \<Rightarrow> (int list \<times> (int \<times> int \<times> int) list) outcome" where
  "dist_scan pos 0 terms = Ret ([], [])"
| "dist_scan pos (Suc n) terms =
     (let child = terms ! n; rdepth = m_depth (terms ! pos); at = (\<lambda>k. int pos - k) in
      if isEmpty child then dist_scan pos n terms
      else if m_depth child \<le> rdepth then Ret ([], [])
      else if m_depth child \<noteq> rdepth + 1 then dist_scan pos n terms
      else if isType child 48 then bind_out (dist_scan pos n terms) (\<lambda>(rel, sub). Ret (at (int n) # rel, sub))
      else bind_out (isNeg1Sym terms (int n) True) (\<lambda>r.
             case r of
               None \<Rightarrow> dist_scan pos n terms
             | Some (sy, neg1, m) \<Rightarrow>
                 bind_out (dist_scan pos (min n (nat (m + 1))) terms) (\<lambda>(rel, sub).
                   Ret (rel, (at sy, at neg1, at (int n)) # sub))))"

text \<open>The location a symbol or location term stands for; nothing for an external symbol.\<close>

definition term_loc :: "Env \<Rightarrow> 'f ExprTerm \<Rightarrow> Location option outcome" where
  "term_loc env t =
     (case t_data t of T_SYM s \<Rightarrow> Ret (env_label env s) | T_LOC loc \<Rightarrow> Ret (Some loc) | _ \<Rightarrow> Undefined)"

definition getSymbol :: "'f ExprTerm \<Rightarrow> nat option" where
  "getSymbol t = (case t_data t of T_SYM s \<Rightarrow> Some s | _ \<Rightarrow> None)"

type_synonym ('s, 'f) delta = "'s \<Rightarrow> 'f ExprTerm \<Rightarrow> Location \<Rightarrow> Location \<Rightarrow> ('f ExprTerm option \<times> 's) outcome"

definition drop_sub :: "nat \<Rightarrow> int \<times> int \<times> int \<Rightarrow> 'f Expr \<Rightarrow> 'f Expr" where
  "drop_sub pos p terms =
     (let i = (\<lambda>k. nat (int pos - k)) in
      upd_term (i (snd (snd p))) Zero (upd_term (i (fst (snd p))) Clear (upd_term (i (fst p)) Clear terms)))"

text \<open>The inner loop: the subtracted symbols afterwards, the terms and the functor's state.\<close>

fun match_sub :: "Env \<Rightarrow> ('s, 'f) delta \<Rightarrow> nat \<Rightarrow> nat \<Rightarrow> (int \<times> int \<times> int) list \<Rightarrow> 's \<Rightarrow> 'f Expr \<Rightarrow>
    ((int \<times> int \<times> int) list \<times> 's \<times> 'f Expr) outcome" where
  "match_sub env D pos rel [] s terms = Ret ([], s, terms)"
| "match_sub env D pos rel (p # sub) s terms =
     (let next = (\<lambda>s'. bind_out (match_sub env D pos rel sub s' terms) (\<lambda>(sub', s'', ts). Ret (p # sub', s'', ts)));
          relterm = terms ! rel; subterm = terms ! nat (int pos - fst p); matched = (255, snd p) in
      if fst p = 255 then next s
      else if getSymbol relterm \<noteq> None \<and> getSymbol relterm = getSymbol subterm
      then Ret (matched # sub, s, drop_sub pos p (upd_term rel Zero terms))
      else bind_out (term_loc env relterm) (\<lambda>r. case r of None \<Rightarrow> next s | Some rel_loc \<Rightarrow>
           bind_out (term_loc env subterm) (\<lambda>q. case q of None \<Rightarrow> next s | Some sub_loc \<Rightarrow>
             (case (loc_bc rel_loc, loc_bc sub_loc) of
                (Some b, Some c) \<Rightarrow>
                  if env_container env b \<noteq> env_container env c then next s
                  else bind_out (D s relterm sub_loc rel_loc) (\<lambda>(t, s').
                         case t of
                           None \<Rightarrow> next s'
                         | Some t' \<Rightarrow> Ret (matched # sub, s', drop_sub pos p (terms[rel := t'])))
              | _ \<Rightarrow> Undefined))))"

fun match_all :: "Env \<Rightarrow> ('s, 'f) delta \<Rightarrow> nat \<Rightarrow> int list \<Rightarrow> (int \<times> int \<times> int) list \<Rightarrow> 's \<Rightarrow> 'f Expr \<Rightarrow> ('f Expr \<times> 's) outcome" where
  "match_all env D pos [] sub s terms = Ret (terms, s)"
| "match_all env D pos (r # rels) sub s terms =
     bind_out (match_sub env D pos (nat (int pos - r)) sub s terms) (\<lambda>(sub', s', terms').
       match_all env D pos rels sub' s' terms')"

definition TransformDist :: "Env \<Rightarrow> ('s, 'f) delta \<Rightarrow> ('s, 'f) dist_functor" where
  "TransformDist env D s terms pos =
     (if \<not> isOp_of (terms ! pos) Op_ADD then Ret (terms, s)
      else bind_out (dist_scan pos pos terms) (\<lambda>(rel, sub). match_all env D pos rel sub s terms))"

text \<open>The three functors: the distance, the distance inside a bytecode, and a numbered placeholder.\<close>

definition CalcDist_delta :: "Env \<Rightarrow> (unit, 'f) delta" where
  "CalcDist_delta env s t loc loc2 =
     bind_out (CalcDist env loc loc2) (\<lambda>r. Ret (map_option (\<lambda>d. mk_term (T_INT d) (m_depth t)) r, s))"

definition CalcDistNoBC_delta :: "(unit, 'f) delta" where
  "CalcDistNoBC_delta s t loc loc2 =
     bind_out (CalcDistNoBC loc loc2) (\<lambda>r. Ret (map_option (\<lambda>d. mk_term (T_INT d) (m_depth t)) r, s))"

definition SubstDist_delta :: "((Location \<times> Location) list, 'f) delta" where
  "SubstDist_delta s t loc loc2 = Ret (Some (mk_term (T_SUBST (length s)) (m_depth t)), s @ [(loc, loc2)])"

definition SimplifyCalcDist :: "'f float_ops \<Rightarrow> Env \<Rightarrow> 'f Expr \<Rightarrow> ('f Expr \<times> diag list) outcome" where
  "SimplifyCalcDist F env e =
     bind_out (Simplify_with F (TransformDist env (CalcDist_delta env)) True () e) (\<lambda>(e', s, ds). Ret (e', ds))"

definition SimplifyCalcDistNoBC :: "'f float_ops \<Rightarrow> Env \<Rightarrow> 'f Expr \<Rightarrow> ('f Expr \<times> diag list) outcome" where
  "SimplifyCalcDistNoBC F env e =
     bind_out (Simplify_with F (TransformDist env CalcDistNoBC_delta) True () e) (\<lambda>(e', s, ds). Ret (e', ds))"

text \<open>The expression, the locations in the order of their numbers and the messages.\<close>

definition SubstDist :: "'f float_ops \<Rightarrow> Env \<Rightarrow> 'f Expr \<Rightarrow> ('f Expr \<times> (Location \<times> Location) list \<times> diag list) outcome" where
  "SubstDist F env e = Simplify_with F (TransformDist env SubstDist_delta) True [] e"

end
