(* ===== verification/Contents.thy ===== *)
theory Contents
  imports Value X86Common Leb128 Simplify
begin

text \<open>
  The kinds of bytecode contents: \<^verbatim>\<open>AlignBytecode.cpp\<close>, \<^verbatim>\<open>OrgBytecode.cpp\<close>,
  \<^verbatim>\<open>GapBytecode\<close> of \<^verbatim>\<open>BytecodeContainer.cpp\<close>, \<^verbatim>\<open>Leb128Bytecode.cpp\<close>, \<^verbatim>\<open>FillBytecode\<close> of
  \<^verbatim>\<open>MultipleBytecode.cpp\<close> and \<^verbatim>\<open>X86Jmp.cpp\<close>, with their three virtual operations: the
  initial length and the spans it depends on (\<open>CalcLen\<close>), the length after a span has changed
  (\<open>Expand\<close>), and the output.  Lengths and offsets are \<^verbatim>\<open>unsigned long\<close>, span values \<^verbatim>\<open>long\<close>.
\<close>

unbundle bit_operations_syntax

section \<open>Contents\<close>

record 'f Multiple =
  mul_expr :: "'f Expr"
  mul_int :: int

datatype X86JmpOpcodeSel = X86_JMP_NONE | X86_JMP_SHORT | X86_JMP_NEAR

record 'f X86Jmp =
  j_common :: X86Common
  j_shortop :: X86Opcode
  j_nearop :: X86Opcode
  j_target :: "'f Value"
  j_op_sel :: X86JmpOpcodeSel

text \<open>
  An empty expression is an absent one.  The code fill of an alignment is the table of
  instruction sequences by length, a null pointer being no table.
\<close>

datatype 'f Contents =
    AlignBytecode "'f Expr" "'f Expr" "'f Expr" "byte list option list option"
  | OrgBytecode "'f Expr" "'f Expr"
  | GapBytecode int
  | LEB128Bytecode "'f Value"
  | FillBytecode "'f Multiple" "'f Value" bool
  | X86JmpContents "'f X86Jmp"

text \<open>A span asked for by \<open>CalcLen\<close>.\<close>

record 'f span_req =
  sr_id :: int
  sr_value :: "'f Value"
  sr_neg :: int
  sr_pos :: int

datatype SpecialType = SPECIAL_NONE | SPECIAL_OFFSET

fun Contents_getSpecial :: "'f Contents \<Rightarrow> SpecialType" where
  "Contents_getSpecial (AlignBytecode _ _ _ _) = SPECIAL_OFFSET"
| "Contents_getSpecial (OrgBytecode _ _) = SPECIAL_OFFSET"
| "Contents_getSpecial _ = SPECIAL_NONE"

section \<open>Expansion\<close>

text \<open>
  The parameters a call of \<open>Expand\<close> may change: the length, whether the bytecode still
  depends on the span, and the thresholds.
\<close>

record expand_io =
  ex_len :: int
  ex_keep :: bool
  ex_neg :: int
  ex_pos :: int

text \<open>\<open>align_end\<close> is the first multiple of the boundary from an offset on, as the code computes it.\<close>

definition align_end :: "int \<Rightarrow> int \<Rightarrow> int" where
  "align_end boundary off =
     (if off AND (boundary - 1) \<noteq> 0 then to_u64 ((off AND NOT (boundary - 1)) + boundary) else off)"

definition Align_Expand :: "'f Expr \<Rightarrow> 'f Expr \<Rightarrow> int \<Rightarrow> expand_io \<Rightarrow> expand_io outcome" where
  "Align_Expand m_boundary m_maxskip new_val io =
     bind_out (expr_int m_boundary) (\<lambda>bn.
       let boundary = getUInt bn in
       if boundary = 0 then Ret (io\<lparr>ex_len := 0, ex_pos := new_val, ex_keep := False\<rparr>)
       else
         let off = to_u64 new_val; end' = align_end boundary off; len = to_u64 (end' - off);
             io1 = io\<lparr>ex_pos := to_s64 end', ex_len := len\<rparr> in
         bind_out
           (if m_maxskip = [] then Ret io1
            else bind_out (expr_int m_maxskip) (\<lambda>ms.
                   let maxskip = getUInt ms in
                   if len > maxskip then
                     if to_s64 (to_u64 (end' - maxskip)) = LONG_MIN then Undefined
                     else Ret (io1\<lparr>ex_pos := to_s64 (to_u64 (end' - maxskip)) - 1, ex_len := 0\<rparr>)
                   else Ret io1))
           (\<lambda>io2. Ret (io2\<lparr>ex_keep := True\<rparr>)))"

text \<open>\<open>None\<close> is the reported overlap.\<close>

definition Org_Expand :: "'f Expr \<Rightarrow> int \<Rightarrow> expand_io \<Rightarrow> expand_io option outcome" where
  "Org_Expand m_start new_val io =
     bind_out (expr_int m_start) (\<lambda>sn.
       let start = getUInt sn in
       if to_u64 new_val > start then Ret None
       else Ret (Some (io\<lparr>ex_len := to_u64 (start - new_val), ex_keep := True\<rparr>)))"

text \<open>The shifts of \<open>LEB128_Expand\<close> are done in \<^verbatim>\<open>int\<close>.\<close>

definition LEB128_Expand :: "'f Value \<Rightarrow> int \<Rightarrow> expand_io \<Rightarrow> ('f Value \<times> expand_io) outcome" where
  "LEB128_Expand m_value new_val io =
     (let sz = SizeLEB128 (set_s new_val) (v_sign m_value);
          grows = (sz > int (v_size m_value));
          v' = (if grows then Value_setSize (nat sz) m_value else m_value);
          len' = (if grows then to_u64 (ex_len io + (sz - int (v_size m_value))) else ex_len io);
          bits = nat (if v_sign m_value then sz * 7 - 1 else sz * 7) in
      if bits > 30 then Undefined
      else Ret (v', io\<lparr>ex_len := len',
                       ex_neg := (if v_sign m_value then - (push_bit bits 1) else 0),
                       ex_pos := push_bit bits 1 - 1, ex_keep := True\<rparr>))"

text \<open>The product of a size in bytes and a repeat count is one of two \<^verbatim>\<open>long\<close>s.\<close>

definition fill_len :: "'f Value \<Rightarrow> int \<Rightarrow> int outcome" where
  "fill_len m_value n =
     (let p = int (v_size m_value div 8) * n in if long_range p then Ret (to_u64 p) else Undefined)"

definition Fill_Expand :: "'f Multiple \<Rightarrow> 'f Value \<Rightarrow> int \<Rightarrow> int \<Rightarrow> expand_io \<Rightarrow> ('f Multiple \<times> expand_io) outcome" where
  "Fill_Expand m_multiple m_value span new_val io =
     (let (mul, io1) = (if span < 0 then (m_multiple\<lparr>mul_int := new_val\<rparr>, io\<lparr>ex_keep := True\<rparr>)
                        else (m_multiple, io)) in
      bind_out (fill_len m_value (mul_int mul)) (\<lambda>len. Ret (mul, io1\<lparr>ex_len := len\<rparr>)))"

definition jmp_near_disp :: "'f X86Jmp \<Rightarrow> int" where
  "jmp_near_disp j = (if m_opersize (j_common j) = 16 then 2 else 4)"

definition Jmp_Expand :: "'f X86Jmp \<Rightarrow> int \<Rightarrow> expand_io \<Rightarrow> ('f X86Jmp \<times> expand_io) outcome" where
  "Jmp_Expand j span io =
     (if span \<noteq> 1 \<or> j_op_sel j = X86_JMP_NEAR then Undefined
      else
        let len1 = to_u64 (ex_len io - (int (m_len (j_shortop j)) + 1));
            len2 = to_u64 (len1 + int (m_len (j_nearop j)));
            len3 = to_u64 (len2 + jmp_near_disp j) in
        Ret (j\<lparr>j_op_sel := X86_JMP_NEAR\<rparr>, io\<lparr>ex_len := len3, ex_keep := False\<rparr>))"

text \<open>
  The virtual call: the contents afterwards, the parameters (nothing when the call reports an
  error and returns false) and the diagnostics.  A gap has no spans; its base class asserts.
\<close>

fun Contents_Expand :: "'f Contents \<Rightarrow> int \<Rightarrow> int \<Rightarrow> expand_io \<Rightarrow>
    ('f Contents \<times> expand_io option \<times> diag list) outcome" where
  "Contents_Expand (AlignBytecode b f ms cf) span new_val io =
     bind_out (Align_Expand b ms new_val io) (\<lambda>io'. Ret (AlignBytecode b f ms cf, Some io', []))"
| "Contents_Expand (OrgBytecode s f) span new_val io =
     bind_out (Org_Expand s new_val io) (\<lambda>r.
       Ret (OrgBytecode s f, r, if r = None then [err_org_overlap] else []))"
| "Contents_Expand (GapBytecode sz) span new_val io = Undefined"
| "Contents_Expand (LEB128Bytecode v) span new_val io =
     bind_out (LEB128_Expand v new_val io) (\<lambda>(v', io'). Ret (LEB128Bytecode v', Some io', []))"
| "Contents_Expand (FillBytecode mul v skip) span new_val io =
     bind_out (Fill_Expand mul v span new_val io) (\<lambda>(mul', io'). Ret (FillBytecode mul' v skip, Some io', []))"
| "Contents_Expand (X86JmpContents j) span new_val io =
     bind_out (Jmp_Expand j span io) (\<lambda>(j', io'). Ret (X86JmpContents j', Some io', []))"

section \<open>Initial lengths\<close>

text \<open>
  The result of \<open>CalcLen\<close>: the contents, the length (nothing when it reports an error and
  returns false), the spans added and the diagnostics.
\<close>

type_synonym 'f calclen = "('f Contents \<times> int option \<times> 'f span_req list \<times> diag list) outcome"

definition Multiple_CalcLen :: "'f Multiple \<Rightarrow> ('f Multiple \<times> bool \<times> 'f span_req list \<times> diag list) outcome" where
  "Multiple_CalcLen m =
     (if isIntNum (mul_expr m) then
        bind_out (expr_int (mul_expr m)) (\<lambda>num.
          if getSign num < 0 then Ret (m\<lparr>mul_int := 0\<rparr>, False, [], [err_multiple_negative])
          else Ret (m\<lparr>mul_int := getInt num\<rparr>, True, [], []))
      else
        bind_out (Contains (mul_expr m) 8 (-1)) (\<lambda>flt.
          if flt then Ret (m\<lparr>mul_int := 0\<rparr>, False, [], [err_expr_contains_float])
          else Ret (m\<lparr>mul_int := 0\<rparr>, True,
                    [\<lparr>sr_id = -1, sr_value = Value_of_expr 0 (mul_expr m), sr_neg = 0, sr_pos = 0\<rparr>], [])))"

definition LEB128_CalcLen :: "'f Value \<Rightarrow> 'f calclen" where
  "LEB128_CalcLen m_value =
     (case v_abs m_value of
        None \<Rightarrow> Ret (LEB128Bytecode (Value_setSize 1 m_value), Some 1, [], [])
      | Some e \<Rightarrow>
          if isIntNum e then
            bind_out (expr_int e) (\<lambda>n.
              let len = SizeLEB128 n (v_sign m_value) in
              Ret (LEB128Bytecode (Value_setSize (nat len) m_value), Some len, [], []))
          else
            let v = Value_setSize 1 m_value in
            Ret (LEB128Bytecode v, Some 1,
                 [if v_sign v then \<lparr>sr_id = 2, sr_value = v, sr_neg = -64, sr_pos = 63\<rparr>
                  else \<lparr>sr_id = 2, sr_value = v, sr_neg = 0, sr_pos = 127\<rparr>], []))"

definition jmp_short_len :: "'f X86Jmp \<Rightarrow> int" where
  "jmp_short_len j = int (Common_getLen (j_common j)) + (int (m_len (j_shortop j)) + 1)"

definition jmp_near_len :: "'f X86Jmp \<Rightarrow> int" where
  "jmp_near_len j = int (Common_getLen (j_common j)) + int (m_len (j_nearop j)) + jmp_near_disp j"

definition Jmp_CalcLen :: "'f X86Jmp \<Rightarrow> 'f calclen" where
  "Jmp_CalcLen j =
     (if j_op_sel j = X86_JMP_NEAR then Ret (X86JmpContents j, Some (jmp_near_len j), [], [])
      else let ilen = jmp_short_len j in
           Ret (X86JmpContents j, Some ilen,
                [\<lparr>sr_id = 1, sr_value = j_target j, sr_neg = -128 + ilen, sr_pos = 127 + ilen\<rparr>], []))"

definition initial_io :: "int \<Rightarrow> expand_io" where
  "initial_io pos = \<lparr>ex_len = 0, ex_keep = False, ex_neg = 0, ex_pos = pos\<rparr>"

text \<open>\<open>tail\<close> is the offset of the bytecode's tail.\<close>

definition Align_CalcLen :: "int \<Rightarrow> 'f Expr \<Rightarrow> 'f Expr \<Rightarrow> 'f Expr \<Rightarrow> byte list option list option \<Rightarrow> 'f calclen" where
  [simp]: "Align_CalcLen tail b f ms cf =
     bind_out (Align_Expand b ms (to_s64 tail) (initial_io 0)) (\<lambda>io.
       Ret (AlignBytecode b f ms cf, Some (ex_len io), [], []))"

definition Org_CalcLen :: "int \<Rightarrow> 'f Expr \<Rightarrow> 'f Expr \<Rightarrow> 'f calclen" where
  [simp]: "Org_CalcLen tail s f =
     bind_out (Org_Expand s (to_s64 tail) (initial_io 0)) (\<lambda>r.
       Ret (OrgBytecode s f, map_option ex_len r, [], if r = None then [err_org_overlap] else []))"

definition Gap_CalcLen :: "int \<Rightarrow> 'f calclen" where
  [simp]: "Gap_CalcLen sz = Ret (GapBytecode sz, Some sz, [], [])"

definition Fill_CalcLen :: "'f Multiple \<Rightarrow> 'f Value \<Rightarrow> bool \<Rightarrow> 'f calclen" where
  [simp]: "Fill_CalcLen mul v skip =
     bind_out (Multiple_CalcLen mul) (\<lambda>(mul', ok, spans, ds).
       if \<not> ok then Ret (FillBytecode mul' v skip, None, spans, ds)
       else bind_out (fill_len v (mul_int mul')) (\<lambda>len. Ret (FillBytecode mul' v skip, Some len, spans, ds)))"

fun Contents_CalcLen :: "int \<Rightarrow> 'f Contents \<Rightarrow> 'f calclen" where
  "Contents_CalcLen tail (AlignBytecode b f ms cf) = Align_CalcLen tail b f ms cf"
| "Contents_CalcLen tail (OrgBytecode s f) = Org_CalcLen tail s f"
| "Contents_CalcLen tail (GapBytecode sz) = Gap_CalcLen sz"
| "Contents_CalcLen tail (LEB128Bytecode v) = LEB128_CalcLen v"
| "Contents_CalcLen tail (FillBytecode mul v skip) = Fill_CalcLen mul v skip"
| "Contents_CalcLen tail (X86JmpContents j) = Jmp_CalcLen j"

section \<open>Output\<close>

text \<open>
  \<^verbatim>\<open>BytecodeOutput\<close>: what has been output, the number of bytes and gap bytes, the byte order
  of the scratch buffer and the diagnostics.  An object format supplies whether its section
  holds bits and the conversion of a value to bytes (a success flag, the numeric output and
  diagnostics); \<open>oi_floats\<close> is the floating-point arithmetic.
\<close>

datatype out_item = Out_bytes "byte list" | Out_gap int

record BytecodeOutput =
  bo_items :: "out_item list"
  bo_num :: int
  bo_big :: bool
  bo_diags :: "diag list"

record 'f output_iface =
  oi_bits :: bool
  oi_convert :: "'f Value \<Rightarrow> Location \<Rightarrow> NumericOutput \<Rightarrow> (bool \<times> NumericOutput \<times> diag list) outcome"
  oi_floats :: "'f float_ops"

definition OutputGap :: "int \<Rightarrow> BytecodeOutput \<Rightarrow> BytecodeOutput" where
  "OutputGap sz out = out\<lparr>bo_items := bo_items out @ [Out_gap sz], bo_num := to_u64 (bo_num out + sz)\<rparr>"

definition OutputBytes :: "byte list \<Rightarrow> BytecodeOutput \<Rightarrow> BytecodeOutput" where
  "OutputBytes bs out =
     out\<lparr>bo_items := bo_items out @ [Out_bytes bs], bo_num := to_u64 (bo_num out + int (length bs))\<rparr>"

definition out_diag :: "diag list \<Rightarrow> BytecodeOutput \<Rightarrow> BytecodeOutput" where
  "out_diag ds out = out\<lparr>bo_diags := bo_diags out @ ds\<rparr>"

definition OutputValue :: "'f output_iface \<Rightarrow> 'f Value \<Rightarrow> Location \<Rightarrow> NumericOutput \<Rightarrow> BytecodeOutput \<Rightarrow>
    (bool \<times> BytecodeOutput) outcome" where
  "OutputValue I v loc num_out out =
     bind_out (oi_convert I v loc num_out) (\<lambda>(ok, num', ds).
       if \<not> ok then Ret (False, out_diag ds out)
       else Ret (True, out_diag (EmitWarnings num') (OutputBytes (contents (m_bytes num')) (out_diag ds out))))"

text \<open>
  The table has an entry for every length up to 15; \<open>code_fill\<close> repeats the longest sequence
  while more than its length is to be filled.
\<close>

definition code_at :: "byte list option list \<Rightarrow> nat \<Rightarrow> byte list option" where
  "code_at cf n = (if n < length cf then cf ! n else None)"

fun code_max :: "byte list option list \<Rightarrow> nat \<Rightarrow> nat" where
  "code_max cf 0 = 0"
| "code_max cf (Suc n) = (if code_at cf (Suc n) = None then code_max cf n else Suc n)"

function code_fill :: "nat \<Rightarrow> byte list \<Rightarrow> nat \<Rightarrow> byte list \<times> nat" where
  "code_fill maxlen seq len =
     (if maxlen > 0 \<and> len > maxlen
      then let (bs, rest) = code_fill maxlen seq (len - maxlen) in (take maxlen seq @ bs, rest)
      else ([], len))"
  by pat_completeness auto
termination by (relation "measure (\<lambda>(maxlen, seq, len). len)") auto

declare code_fill.simps [simp del]

definition Align_bytes :: "'f Expr \<Rightarrow> byte list option list option \<Rightarrow> nat \<Rightarrow> (byte list + diag) outcome" where
  "Align_bytes m_fill m_code_fill len =
     (if m_fill \<noteq> [] then
        bind_out (expr_int m_fill) (\<lambda>n. Ret (Inl (replicate len (word_of_int (getUInt n)))))
      else case m_code_fill of
             None \<Rightarrow> Ret (Inl (replicate len 0))
           | Some cf \<Rightarrow>
               (let maxlen = code_max cf 15 in
                if maxlen = 0 then Ret (Inr err_align_code_not_found)
                else
                  let (bs, rest) = code_fill maxlen (the (code_at cf maxlen)) len in
                  case code_at cf rest of
                    None \<Rightarrow> Ret (Inr (err_align_invalid_code_size rest))
                  | Some seq \<Rightarrow> Ret (Inl (bs @ take rest seq))))"

definition Align_Output :: "bool \<Rightarrow> int \<Rightarrow> 'f Expr \<Rightarrow> 'f Expr \<Rightarrow> 'f Expr \<Rightarrow> byte list option list option \<Rightarrow>
    BytecodeOutput \<Rightarrow> (bool \<times> BytecodeOutput) outcome" where
  "Align_Output bits tail m_boundary m_fill m_maxskip m_code_fill out =
     bind_out (expr_int m_boundary) (\<lambda>bn.
       let boundary = getUInt bn; len = to_u64 (align_end boundary tail - tail) in
       if boundary = 0 \<or> len = 0 then Ret (True, out)
       else
         bind_out (if m_maxskip = [] then Ret False
                   else bind_out (expr_int m_maxskip) (\<lambda>ms. Ret (len > getUInt ms))) (\<lambda>skip.
         if skip then Ret (True, out)
         else if \<not> bits then Ret (True, OutputGap len out)
         else bind_out (Align_bytes m_fill m_code_fill (nat len)) (\<lambda>r.
                case r of
                  Inl bs \<Rightarrow> Ret (True, OutputBytes bs out)
                | Inr d \<Rightarrow> Ret (False, out_diag [d] out))))"

definition Org_Output :: "bool \<Rightarrow> int \<Rightarrow> 'f Expr \<Rightarrow> 'f Expr \<Rightarrow> BytecodeOutput \<Rightarrow> (bool \<times> BytecodeOutput) outcome" where
  "Org_Output bits tail m_start m_fill out =
     bind_out (expr_int m_start) (\<lambda>sn.
       let start = getUInt sn in
       if tail > start then Ret (False, out_diag [err_org_overlap] out)
       else
         let len = start - tail in
         if \<not> bits then Ret (True, OutputGap len out)
         else bind_out (if m_fill = [] then Ret 0 else bind_out (expr_int m_fill) (\<lambda>n. Ret (word_of_int (getUInt n)))) (\<lambda>v.
                Ret (True, OutputBytes (replicate (nat len) v) out)))"

definition LEB128_Output :: "'f output_iface \<Rightarrow> Env \<Rightarrow> 'f Value \<Rightarrow> BytecodeOutput \<Rightarrow> (bool \<times> BytecodeOutput) outcome" where
  "LEB128_Output I env m_value out =
     (case v_abs m_value of
        None \<Rightarrow> Ret (True, OutputBytes [0] out)
      | Some e \<Rightarrow>
          bind_out (Evaluate (oi_floats I) env [] True False e) (\<lambda>(r, ds).
            case Option.bind r getIntNum of
              None \<Rightarrow> Ret (False, out_diag (ds @ [err_leb128_too_complex]) out)
            | Some intn \<Rightarrow>
                let warn = (if getSign intn < 0 \<and> \<not> v_sign m_value then [warn_negative_uleb128] else []);
                    pad = nat (int (v_size m_value) - SizeLEB128 intn (v_sign m_value));
                    padding = replicate pad (if v_sign m_value \<and> getSign intn < 0 then 0xff else 0x80) in
                bind_out (WriteLEB128 \<lparr>m_bigendian = bo_big out, contents = padding\<rparr> intn (v_sign m_value)) (\<lambda>(n, bytes).
                  Ret (True, OutputBytes (contents bytes) (out_diag (ds @ warn) out)))))"

definition Multiple_CalcForOutput :: "'f output_iface \<Rightarrow> Env \<Rightarrow> 'f Multiple \<Rightarrow> ('f Multiple \<times> bool \<times> diag list) outcome" where
  "Multiple_CalcForOutput I env m =
     bind_out (SimplifyCalcDist (oi_floats I) env (mul_expr m)) (\<lambda>(e, ds).
      let m1 = m\<lparr>mul_expr := e\<rparr> in
      if \<not> isIntNum e then Ret (m1, False, ds @ [err_multiple_unknown])
      else bind_out (expr_int e) (\<lambda>num.
             if getSign num < 0 then Ret (m1, False, ds @ [err_multiple_negative])
             else if mul_int m \<noteq> getInt num then Undefined
             else Ret (m1\<lparr>mul_int := getInt num\<rparr>, True, ds)))"

definition Fill_Output :: "'f output_iface \<Rightarrow> Env \<Rightarrow> nat \<Rightarrow> 'f Multiple \<Rightarrow> 'f Value \<Rightarrow> bool \<Rightarrow> BytecodeOutput \<Rightarrow>
    ('f Multiple \<times> bool \<times> BytecodeOutput) outcome" where
  "Fill_Output I env bc m_multiple m_value m_skip out =
     bind_out (Multiple_CalcForOutput I env m_multiple) (\<lambda>(mul, ok, ds).
       if \<not> ok then Ret (mul, False, out_diag ds out)
       else if m_skip then
         bind_out (fill_len m_value (mul_int mul)) (\<lambda>len. Ret (mul, True, OutputGap len (out_diag ds out)))
       else
         let num_out = ConfigureOutput m_value (NumericOutput_init
               \<lparr>m_bigendian = bo_big out, contents = replicate (v_size m_value div 8) 0\<rparr>) in
         bind_out (oi_convert I m_value \<lparr>loc_bc = Some bc, loc_off = 0\<rparr> num_out) (\<lambda>(okc, num', ds').
           if \<not> okc then Ret (mul, False, out_diag (ds @ ds') out)
           else Ret (mul, True,
                  (OutputBytes (contents (m_bytes num')) ^^ nat (mul_int mul))
                    (out_diag (ds @ ds' @ EmitWarnings num') out))))"

text \<open>\<open>fixed\<close> is the length of the bytecode's fixed part.\<close>

definition Jmp_Output :: "'f output_iface \<Rightarrow> nat \<Rightarrow> int \<Rightarrow> 'f X86Jmp \<Rightarrow> BytecodeOutput \<Rightarrow>
    ('f X86Jmp \<times> bool \<times> BytecodeOutput) outcome" where
  "Jmp_Output I bc fixed j out =
     (let short = (j_op_sel j = X86_JMP_SHORT);
          sz = (if short then 1 else nat (jmp_near_disp j));
          bytes = Opcode_ToBytes (Common_ToBytes \<lparr>m_bigendian = False, contents = []\<rparr> None (j_common j))
                    (if short then j_shortop j else j_nearop j);
          pos = length (contents bytes);
          out1 = (OutputBytes (contents bytes) out)\<lparr>bo_big := False\<rparr> in
      bind_out (AddAbs_int (set_s (- int (pos + sz))) (j_target j)) (\<lambda>t.
        let t1 = setNextInsn 0 (setInsnStart pos (Value_setSize (sz * 8) t));
            num_out = ConfigureOutput t1 (NumericOutput_init \<lparr>m_bigendian = False, contents = replicate sz 0\<rparr>) in
        bind_out (OutputValue I t1 \<lparr>loc_bc = Some bc, loc_off = fixed + int pos\<rparr> num_out out1) (\<lambda>(ok, out2).
          Ret (j\<lparr>j_target := t1\<rparr>, ok, out2))))"

text \<open>The bytecode's number, its fixed length and the offset of its tail are passed along.\<close>

definition Gap_Output :: "int \<Rightarrow> BytecodeOutput \<Rightarrow> ('f Contents \<times> bool \<times> BytecodeOutput) outcome" where
  [simp]: "Gap_Output sz out = Ret (GapBytecode sz, True, OutputGap sz out)"

fun Contents_Output :: "'f output_iface \<Rightarrow> Env \<Rightarrow> nat \<Rightarrow> int \<Rightarrow> int \<Rightarrow> 'f Contents \<Rightarrow> BytecodeOutput \<Rightarrow>
    ('f Contents \<times> bool \<times> BytecodeOutput) outcome" where
  "Contents_Output I env bc fixed tail (AlignBytecode b f ms cf) out =
     bind_out (Align_Output (oi_bits I) tail b f ms cf out) (\<lambda>(ok, out'). Ret (AlignBytecode b f ms cf, ok, out'))"
| "Contents_Output I env bc fixed tail (OrgBytecode s f) out =
     bind_out (Org_Output (oi_bits I) tail s f out) (\<lambda>(ok, out'). Ret (OrgBytecode s f, ok, out'))"
| "Contents_Output I env bc fixed tail (GapBytecode sz) out = Gap_Output sz out"
| "Contents_Output I env bc fixed tail (LEB128Bytecode v) out =
     bind_out (LEB128_Output I env v out) (\<lambda>(ok, out'). Ret (LEB128Bytecode v, ok, out'))"
| "Contents_Output I env bc fixed tail (FillBytecode mul v skip) out =
     bind_out (Fill_Output I env bc mul v skip out) (\<lambda>(mul', ok, out'). Ret (FillBytecode mul' v skip, ok, out'))"
| "Contents_Output I env bc fixed tail (X86JmpContents j) out =
     bind_out (Jmp_Output I bc fixed j out) (\<lambda>(j', ok, out'). Ret (X86JmpContents j', ok, out'))"

end
