(* ===== verification/Contents_Correct.thy ===== *)
theory Contents_Correct
  imports Contents
begin

text \<open>
  What the bytecodes rely on of their contents.  \<open>claims_len\<close> says which length contents
  announce at a tail offset; \<open>CalcLen\<close> and \<open>Expand\<close> establish it and a successful output
  emits exactly that many bytes (\<open>emits\<close>).  \<open>bytecode_contents\<close> is the contract, interpreted
  on the contents of the model.
\<close>

unbundle bit_operations_syntax

section \<open>Alignment\<close>

lemma and_pow2_minus: "(off :: int) AND (2 ^ k - 1) = off mod 2 ^ k" "off AND NOT (2 ^ k - 1) = off - off mod 2 ^ k"
proof -
  show "off AND (2 ^ k - 1) = off mod 2 ^ k" by (metis mask_eq_exp_minus_1 take_bit_eq_mask take_bit_eq_mod)
  have "off AND NOT (mask k) = push_bit k (drop_bit k off)"
    by (rule bit_eqI) (auto simp: bit_simps)
  then show "off AND NOT (2 ^ k - 1) = off - off mod 2 ^ k"
    by (simp add: mask_eq_exp_minus_1 push_bit_eq_mult drop_bit_eq_div minus_mod_eq_mult_div mult.commute)
qed

lemma align_end_pow2:
  assumes "0 \<le> off" "off + 2 ^ k \<le> ULONG_MAX"
  shows "off \<le> align_end (2 ^ k) off" "align_end (2 ^ k) off < off + 2 ^ k" "2 ^ k dvd align_end (2 ^ k) off"
    "align_end (2 ^ k) off \<le> ULONG_MAX"
proof -
  have m: "0 \<le> off mod 2 ^ k" "off mod 2 ^ k < 2 ^ k" by simp_all
  have d: "2 ^ k dvd off - off mod 2 ^ k" by (simp add: minus_mod_eq_mult_div)
  have "0 \<le> off - off mod 2 ^ k + 2 ^ k" "off - off mod 2 ^ k + 2 ^ k \<le> ULONG_MAX"
    using m assms by linarith+
  then have r: "to_u64 (off - off mod 2 ^ k + 2 ^ k) = off - off mod 2 ^ k + 2 ^ k" by (rule to_u64_id)
  have a: "align_end (2 ^ k) off = (if off mod 2 ^ k = 0 then off else off - off mod 2 ^ k + 2 ^ k)"
    using r by (auto simp: align_end_def and_pow2_minus)
  obtain M where M: "M = off mod 2 ^ k" by blast
  note facts = a [folded M] m [folded M] d [folded M] assms
  show "off \<le> align_end (2 ^ k) off" "align_end (2 ^ k) off < off + 2 ^ k" "align_end (2 ^ k) off \<le> ULONG_MAX"
    using facts by (simp_all split: if_splits)
  show "2 ^ k dvd align_end (2 ^ k) off"
    using facts by (auto split: if_splits intro: dvd_add)
qed

lemma Align_Expand_value:
  assumes "expr_int b = Ret bn" "getUInt bn = 2 ^ k" "0 \<le> new_val" "new_val + 2 ^ k \<le> LONG_MAX"
    "ms = [] \<or> (\<exists>mn. expr_int ms = Ret mn)"
  defines "gap \<equiv> align_end (2 ^ k) new_val - new_val"
    and "skipped \<equiv> ms \<noteq> [] \<and> (\<exists>mn. expr_int ms = Ret mn \<and> getUInt mn < align_end (2 ^ k) new_val - new_val)"
  shows "\<exists>io'. Align_Expand b ms new_val io = Ret io' \<and> ex_keep io' \<and>
     ex_len io' = (if skipped then 0 else gap) \<and> 0 \<le> gap \<and> gap < 2 ^ k \<and> 2 ^ k dvd new_val + gap \<and>
     (if skipped then new_val < ex_pos io' + 1 \<and> ex_pos io' < new_val + gap else ex_pos io' = new_val + gap)"
proof -
  have p: "(0 :: int) < 2 ^ k" by simp
  have off: "new_val + 2 ^ k \<le> ULONG_MAX" using assms(4) by (simp add: limits)
  have "new_val \<le> ULONG_MAX" using off p by linarith
  then have u: "to_u64 new_val = new_val" using assms(3) by (simp add: to_u64_id)
  note al = align_end_pow2 [OF assms(3) off]
  have e: "align_end (2 ^ k) new_val \<le> LONG_MAX" using al(2) assms(4) by simp
  have s: "to_s64 (align_end (2 ^ k) new_val) = align_end (2 ^ k) new_val"
    using al(1) e assms(3) by (intro to_s64_id) (simp add: long_range_def limits)
  have g: "to_u64 gap = gap" using al e assms(3) by (intro to_u64_id) (simp_all add: gap_def limits)
  have m: "to_u64 (align_end (2 ^ k) new_val - mn) = align_end (2 ^ k) new_val - mn"
    "to_s64 (align_end (2 ^ k) new_val - mn) = align_end (2 ^ k) new_val - mn"
    if "0 \<le> mn" "mn < gap" for mn
    using that al e assms(3) by (auto intro!: to_u64_id to_s64_id simp: gap_def long_range_def limits)
  have nn: "0 \<le> getUInt mn" for mn by (cases mn) (auto simp: limits)
  show ?thesis
  proof (cases skipped)
    case True
    then obtain mn where mn: "ms \<noteq> []" "expr_int ms = Ret mn" "getUInt mn < gap" by (auto simp: skipped_def gap_def)
    show ?thesis using True mn al e assms(1,2,3) u s g p m [OF nn mn(3)] nn [of mn]
      by (auto simp: Align_Expand_def Let_def gap_def long_range_def limits)
  next
    case False
    then show ?thesis using al e assms(1,2,3,5) u s g p
      by (auto simp: Align_Expand_def Let_def gap_def skipped_def)
  qed
qed


section \<open>The contract of the contents\<close>

definition int_expr :: "'f Expr \<Rightarrow> bool" where
  "int_expr e \<longleftrightarrow> (\<exists>n. expr_int e = Ret n \<and> wf_IntNum n)"

definition code_table_ok :: "byte list option list \<Rightarrow> bool" where
  "code_table_ok cf \<longleftrightarrow> list_all (\<lambda>n. case code_at cf n of None \<Rightarrow> True | Some bs \<Rightarrow> length bs = n) [0..<16]"

fun wf_contents :: "'f Contents \<Rightarrow> bool" where
  "wf_contents (AlignBytecode b f ms cf) \<longleftrightarrow>
     int_expr b \<and> (f = [] \<or> int_expr f) \<and> (ms = [] \<or> int_expr ms) \<and>
     (case cf of None \<Rightarrow> True | Some t \<Rightarrow> code_table_ok t)"
| "wf_contents (OrgBytecode s f) \<longleftrightarrow> int_expr s \<and> (f = [] \<or> int_expr f)"
| "wf_contents (GapBytecode sz) \<longleftrightarrow> 0 \<le> sz \<and> sz \<le> ULONG_MAX"
| "wf_contents (LEB128Bytecode v) \<longleftrightarrow> v_size v < 256"
| "wf_contents (FillBytecode mul v skip) \<longleftrightarrow> True"
| "wf_contents (X86JmpContents j) \<longleftrightarrow> opcode_ok (j_shortop j) \<and> opcode_ok (j_nearop j) \<and> j_op_sel j \<noteq> X86_JMP_NONE"

fun claims_len :: "int \<Rightarrow> 'f Contents \<Rightarrow> int \<Rightarrow> bool" where
  "claims_len tail (AlignBytecode b f ms cf) len =
     (case Align_Expand b ms (to_s64 tail) (initial_io 0) of Ret io \<Rightarrow> len = ex_len io | _ \<Rightarrow> False)"
| "claims_len tail (OrgBytecode s f) len =
     (case Org_Expand s (to_s64 tail) (initial_io 0) of Ret (Some io) \<Rightarrow> len = ex_len io | _ \<Rightarrow> False)"
| "claims_len tail (GapBytecode sz) len = (len = sz)"
| "claims_len tail (LEB128Bytecode v) len = (len = int (v_size v))"
| "claims_len tail (FillBytecode mul v skip) len = (fill_len v (mul_int mul) = Ret len)"
| "claims_len tail (X86JmpContents j) len =
     (len = (if j_op_sel j = X86_JMP_NEAR then jmp_near_len j else jmp_short_len j))"

text \<open>
  What the output of a LEB128 number needs of the optimizer: that the number it evaluates to
  fits the size it was given.
\<close>

fun settled :: "'f output_iface \<Rightarrow> Env \<Rightarrow> 'f Contents \<Rightarrow> bool" where
  "settled I env (LEB128Bytecode v) \<longleftrightarrow>
     (case v_abs v of
        None \<Rightarrow> v_size v = 1
      | Some e \<Rightarrow>
          (case Evaluate (oi_floats I) env [] True False e of
             Ret (Some t, ds) \<Rightarrow>
               (case getIntNum t of
                  Some n \<Rightarrow> canonical n \<and> leb128_bits n (v_sign v) \<le> 252 \<and> SizeLEB128 n (v_sign v) \<le> int (v_size v)
                | None \<Rightarrow> True)
           | _ \<Rightarrow> True))"
| "settled I env c \<longleftrightarrow> True"

definition convert_ok :: "'f output_iface \<Rightarrow> bool" where
  "convert_ok I \<longleftrightarrow> (\<forall>v loc num num' ds. oi_convert I v loc num = Ret (True, num', ds) \<longrightarrow>
     length (contents (m_bytes num')) = length (contents (m_bytes num)))"

lemma convert_okD:
  "convert_ok I \<Longrightarrow> oi_convert I v loc num = Ret (True, num', ds) \<Longrightarrow>
     length (contents (m_bytes num')) = length (contents (m_bytes num))"
  unfolding convert_ok_def by blast

fun item_size :: "out_item \<Rightarrow> int" where
  "item_size (Out_bytes bs) = int (length bs)"
| "item_size (Out_gap n) = n"

definition emits :: "BytecodeOutput \<Rightarrow> BytecodeOutput \<Rightarrow> int \<Rightarrow> bool" where
  "emits out out' len \<longleftrightarrow>
     (\<exists>items. bo_items out' = bo_items out @ items \<and> sum_list (List.map item_size items) = len) \<and>
     to_u64 (bo_num out') = to_u64 (bo_num out + len)"

lemma emits_refl [simp]: "emits out out 0"
  by (simp add: emits_def)

lemma emits_trans: "emits a b m \<Longrightarrow> emits b c n \<Longrightarrow> emits a c (m + n)"
  unfolding emits_def
  by (elim conjE exE, intro conjI, force)
    (metis (no_types, opaque_lifting) add.assoc take_bit_add)

lemma emits_diag [simp]: "emits (out_diag ds a) b n = emits a b n" "emits a (out_diag ds b) n = emits a b n"
  by (simp_all add: emits_def out_diag_def)

lemma emits_big [simp]: "emits a (b\<lparr>bo_big := x\<rparr>) n = emits a b n" "emits (a\<lparr>bo_big := x\<rparr>) b n = emits a b n"
  by (simp_all add: emits_def)

lemma emits_OutputBytes: "emits out (OutputBytes bs out) (int (length bs))"
  by (simp add: emits_def OutputBytes_def)

lemma emits_OutputGap: "emits out (OutputGap n out) n"
  by (simp add: emits_def OutputGap_def)

lemma emits_repeat: "emits out ((OutputBytes bs ^^ n) out) (int n * int (length bs))"
proof (induction n)
  case (Suc n)
  then show ?case using emits_trans [OF Suc emits_OutputBytes [of _ bs]] by (simp add: algebra_simps)
qed simp

lemma Align_Expand_len_indep:
  "Align_Expand b ms new_val io = Ret io1 \<Longrightarrow> \<exists>io2. Align_Expand b ms new_val io' = Ret io2 \<and> ex_len io2 = ex_len io1"
  by (cases "expr_int b"; cases "expr_int ms") (auto simp: Align_Expand_def Let_def split: if_splits)

lemma Org_Expand_len_indep:
  "Org_Expand s new_val io = Ret (Some io1) \<Longrightarrow> \<exists>io2. Org_Expand s new_val io' = Ret (Some io2) \<and> ex_len io2 = ex_len io1"
  by (auto simp: Org_Expand_def Let_def bind_out_Ret_iff split: if_splits)

lemma SizeLEB128_range: "0 \<le> SizeLEB128 x sg \<and> SizeLEB128 x sg \<le> 37"
proof -
  have "getActiveBits (getBV x) \<le> 256"
    using getActiveBits_le_iff [of "getBV x" 256] uint_bounded [of "getBV x"] by simp
  moreover have "getMinSignedBits (getBV x) \<le> 256"
    using min_signed_bits_le_iff [of "sint (getBV x)" 255] bv_range_sint [of "getBV x"]
    by (simp add: getMinSignedBits_def bv_range_def)
  ultimately have "leb128_bits x sg \<le> 256" by (simp add: leb128_bits_def)
  then show ?thesis by (auto simp: SizeLEB128_def)
qed

lemma SizeLEB128_mod [simp]: "int (nat (SizeLEB128 x sg) mod 256) = SizeLEB128 x sg"
proof -
  have "nat (SizeLEB128 x sg) mod 256 = nat (SizeLEB128 x sg)" using SizeLEB128_range [of x sg] by (intro mod_less) linarith
  then show ?thesis using SizeLEB128_range [of x sg] by simp
qed

lemma CalcLen_claims:
  assumes "Contents_CalcLen tail c = Ret (c', Some len, sp, ds)" "wf_contents c"
  shows "wf_contents c' \<and> claims_len tail c' len"
proof (cases c)
  case (LEB128Bytecode v)
  then show ?thesis using assms
    by (auto simp: LEB128_CalcLen_def Value_setSize_def Let_def bind_out_Ret_iff nat_less_iff split: option.splits if_splits)
next
  case (FillBytecode m v sk)
  then show ?thesis using assms
    by (auto simp: bind_out_Ret_iff split: if_splits)
next
  case (X86JmpContents j)
  then show ?thesis using assms
    by (auto simp: Jmp_CalcLen_def Let_def split: if_splits)
qed (use assms in \<open>auto simp: bind_out_Ret_iff split: if_splits\<close>)

lemma Expand_claims:
  assumes "Contents_Expand c span new_val io = Ret (c', Some io', ds)" "wf_contents c"
    and "Contents_getSpecial c = SPECIAL_NONE \<Longrightarrow> claims_len tail c (ex_len io)"
    and "Contents_getSpecial c = SPECIAL_OFFSET \<Longrightarrow> new_val = to_s64 tail"
  shows "wf_contents c' \<and> claims_len tail c' (ex_len io') \<and> Contents_getSpecial c' = Contents_getSpecial c"
proof (cases c)
  case (AlignBytecode b f ms cf)
  then obtain io1 where "Align_Expand b ms (to_s64 tail) io = Ret io1" "io' = io1" "c' = c"
    using assms(1,4) by (auto simp: bind_out_Ret_iff)
  then show ?thesis using Align_Expand_len_indep [of b ms "to_s64 tail" io io1 "initial_io 0"] assms(2) AlignBytecode by auto
next
  case (OrgBytecode s f)
  then obtain io1 where "Org_Expand s (to_s64 tail) io = Ret (Some io1)" "io' = io1" "c' = c"
    using assms(1,4) by (auto simp: bind_out_Ret_iff)
  then show ?thesis using Org_Expand_len_indep [of s "to_s64 tail" io io1 "initial_io 0"] assms(2) OrgBytecode by auto
next
  case (LEB128Bytecode v)
  then show ?thesis using assms SizeLEB128_range [of "set_s new_val" "v_sign v"]
    by (auto simp: LEB128_Expand_def Value_setSize_def Let_def bind_out_Ret_iff nat_less_iff to_u64_id limits split: if_splits)
next
  case (FillBytecode m v sk)
  then show ?thesis using assms by (auto simp: Fill_Expand_def bind_out_Ret_iff split: if_splits)
next
  case (X86JmpContents j)
  have n: "m_len (j_shortop j) \<le> 3" "m_len (j_nearop j) \<le> 3" using assms(2) X86JmpContents by (auto simp: opcode_ok_def)
  have c: "Common_getLen (j_common j) \<le> 4" by (simp add: Common_getLen_def)
  show ?thesis using assms X86JmpContents n c
    by (auto simp: Jmp_Expand_def Let_def jmp_short_len_def jmp_near_len_def jmp_near_disp_def to_u64_id limits split: if_splits)
qed (use assms in auto)


lemma code_max_Some: "code_max cf n \<noteq> 0 \<Longrightarrow> code_at cf (code_max cf n) \<noteq> None \<and> code_max cf n \<le> n"
  by (induction n) (auto split: if_splits)

lemma code_fill_length:
  "0 < maxlen \<Longrightarrow> length seq = maxlen \<Longrightarrow> code_fill maxlen seq len = (bs, rest) \<Longrightarrow>
     length bs + rest = len \<and> rest \<le> max len maxlen \<and> (len > 0 \<longrightarrow> rest \<le> maxlen)"
proof (induction maxlen seq len arbitrary: bs rest rule: code_fill.induct)
  case (1 maxlen seq len)
  show ?case
  proof (cases "len > maxlen")
    case True
    obtain bs' rest' where r: "code_fill maxlen seq (len - maxlen) = (bs', rest')" by fastforce
    then have "bs = seq @ bs'" "rest = rest'" using 1(2-4) True by (auto simp: code_fill.simps [of maxlen seq len])
    then show ?thesis using 1(1) [OF _ _ _ r] 1(2,3) True by auto
  next
    case False
    then show ?thesis using 1(4) by (auto simp: code_fill.simps [of maxlen seq len])
  qed
qed

lemma Align_bytes_length:
  assumes "Align_bytes f cf len = Ret (Inl bs)" "case cf of None \<Rightarrow> True | Some t \<Rightarrow> code_table_ok t"
  shows "length bs = len"
proof (cases "f \<noteq> [] \<or> cf = None")
  case True
  then show ?thesis using assms(1) by (auto simp: Align_bytes_def bind_out_Ret_iff split: if_splits option.splits)
next
  case False
  then obtain t where t: "cf = Some t" "code_table_ok t" using assms(2) by auto
  define m where "m = code_max t 15"
  obtain bs' rest where r: "code_fill m (the (code_at t m)) len = (bs', rest)" by fastforce
  have m: "m \<noteq> 0" using assms(1) False t by (cases "code_max t 15 = 0") (auto simp: Align_bytes_def m_def)
  then have tm: "code_at t m \<noteq> None" "m < 16" using code_max_Some [of t 15] by (auto simp: m_def)
  have tab: "\<And>n seq. n < 16 \<Longrightarrow> code_at t n = Some seq \<Longrightarrow> length seq = n"
    using t(2) by (force simp: code_table_ok_def list_all_iff)
  have lr: "length bs' + rest = len" "rest < 16"
    using code_fill_length [OF _ _ r] m tm tab by (auto simp: code_fill.simps [of m "the (code_at t m)" len] r)
  obtain seq where seq: "code_at t rest = Some seq" "bs = bs' @ take rest seq"
    using assms(1) False t m r by (auto simp: Align_bytes_def Let_def m_def [symmetric] split: option.splits)
  show ?thesis using lr seq tab [OF lr(2) seq(1)] by simp
qed

lemma tail_conv: "0 \<le> tail \<Longrightarrow> tail \<le> ULONG_MAX \<Longrightarrow> to_u64 (to_s64 tail) = tail"
  by (simp add: take_bit_signed_take_bit to_u64_id)

lemma Align_claim:
  assumes "Align_Expand b ms (to_s64 tail) io = Ret io'" "expr_int b = Ret bn" "0 \<le> tail" "tail \<le> ULONG_MAX"
  shows "ex_len io' = (if getUInt bn = 0 \<or> (ms \<noteq> [] \<and> (\<exists>mn. expr_int ms = Ret mn \<and> getUInt mn < to_u64 (align_end (getUInt bn) tail - tail)))
     then 0 else to_u64 (align_end (getUInt bn) tail - tail))"
  using assms(1) tail_conv [OF assms(3,4)]
  by (cases "expr_int ms") (auto simp: Align_Expand_def assms(2) Let_def split: if_splits)

lemma Align_emits:
  assumes "Align_Output bits tail b f ms cf out = Ret (True, out')" "wf_contents (AlignBytecode b f ms cf)"
    "claims_len tail (AlignBytecode b f ms cf) len" "0 \<le> tail" "tail \<le> ULONG_MAX"
  shows "emits out out' len"
proof -
  obtain bn where bn: "expr_int b = Ret bn" using assms(2) by (auto simp: int_expr_def)
  obtain io where io: "Align_Expand b ms (to_s64 tail) (initial_io 0) = Ret io" "len = ex_len io"
    using assms(3) by (auto split: outcome.splits)
  note len = Align_claim [OF io(1) bn assms(4,5)]
  let ?len = "to_u64 (align_end (getUInt bn) tail - tail)"
  show ?thesis
  proof (cases "getUInt bn = 0 \<or> ?len = 0")
    case True
    then have "out' = out" using assms(1) bn by (auto simp: Align_Output_def Let_def)
    then show ?thesis using True len io(2) by (auto split: if_splits)
  next
    case False
    then have "bind_out (if ms = [] then Ret False else bind_out (expr_int ms) (\<lambda>mn. Ret (?len > getUInt mn)))
        (\<lambda>skip. if skip then Ret (True, out) else if \<not> bits then Ret (True, OutputGap ?len out)
          else bind_out (Align_bytes f cf (nat ?len)) (\<lambda>r. case r of Inl bs \<Rightarrow> Ret (True, OutputBytes bs out)
            | Inr d \<Rightarrow> Ret (False, out_diag [d] out))) = Ret (True, out')"
      using assms(1) bn by (simp add: Align_Output_def Let_def)
    then obtain skip where skip: "(if ms = [] then Ret False else bind_out (expr_int ms) (\<lambda>mn. Ret (?len > getUInt mn))) = Ret skip"
      and rest: "(if skip then Ret (True, out) else if \<not> bits then Ret (True, OutputGap ?len out)
          else bind_out (Align_bytes f cf (nat ?len)) (\<lambda>r. case r of Inl bs \<Rightarrow> Ret (True, OutputBytes bs out)
            | Inr d \<Rightarrow> Ret (False, out_diag [d] out))) = Ret (True, out')"
      by (auto simp only: bind_out_Ret_iff)
    have l: "len = (if skip then 0 else ?len)"
      using skip len io(2) False by (cases "expr_int ms") (auto split: if_splits)
    show ?thesis
    proof (cases "skip \<or> \<not> bits")
      case True
      then show ?thesis using rest l emits_OutputGap [of out ?len] by (auto split: if_splits)
    next
      case False
      then obtain r where r: "Align_bytes f cf (nat ?len) = Ret r" using rest by (cases "Align_bytes f cf (nat ?len)") auto
      then obtain bs where bs: "r = Inl bs" "out' = OutputBytes bs out" using rest False by (cases r) auto
      have "int (length bs) = ?len" using Align_bytes_length [of f cf "nat ?len" bs] r bs assms(2) by simp
      then show ?thesis using bs l False emits_OutputBytes [of out bs] by simp
    qed
  qed
qed

lemma Org_emits:
  assumes "Org_Output bits tail st f out = Ret (True, out')" "wf_contents (OrgBytecode st f)"
    "claims_len tail (OrgBytecode st f) len" "0 \<le> tail" "tail \<le> ULONG_MAX"
  shows "emits out out' len"
proof -
  obtain sn where sn: "expr_int st = Ret sn" "wf_IntNum sn" using assms(2) by (auto simp: int_expr_def)
  obtain fv where fv: "(if f = [] then Ret 0 else bind_out (expr_int f) (\<lambda>n. Ret (word_of_int (getUInt n)))) = Ret (fv :: byte)"
    using assms(2) by (cases "f = []") (auto simp: int_expr_def)
  have le: "tail \<le> getUInt sn" using assms(1) sn by (auto simp: Org_Output_def Let_def split: if_splits)
  have "to_u64 (getUInt sn - to_s64 tail) = to_u64 (getUInt sn - to_u64 (to_s64 tail))"
    by (simp add: take_bit_eq_mod mod_diff_right_eq)
  also have "\<dots> = getUInt sn - tail"
    using tail_conv [OF assms(4,5)] le assms(4) getUInt_value [OF sn(2)] by (auto intro!: to_u64_id simp: limits)
  finally have len: "len = getUInt sn - tail"
    using assms(3) sn le tail_conv [OF assms(4,5)] by (auto simp: Org_Expand_def Let_def)
  show ?thesis using assms(1) sn le len fv emits_OutputGap [of out len] emits_OutputBytes [of out "replicate (nat len) fv"]
    by (auto simp: Org_Output_def Let_def split: if_splits)
qed


lemma LEB128_emits:
  assumes "LEB128_Output I env v out = Ret (True, out')" "settled I env (LEB128Bytecode v)"
  shows "emits out out' (int (v_size v))"
proof (cases "v_abs v")
  case None
  then show ?thesis using assms emits_OutputBytes [of out "[0]"] by (simp add: LEB128_Output_def)
next
  case (Some e)
  obtain r ds where ev: "Evaluate (oi_floats I) env [] True False e = Ret (r, ds)"
    using assms(1) Some by (auto simp: LEB128_Output_def bind_out_Ret_iff)
  then obtain t n where t: "r = Some t" "getIntNum t = Some n"
    using assms(1) Some by (auto simp: LEB128_Output_def bind_eq_Some_conv split: option.splits)
  have n: "canonical n" "leb128_bits n (v_sign v) \<le> 252" "SizeLEB128 n (v_sign v) \<le> int (v_size v)"
    using assms(2) Some ev t by auto
  define pad where "pad = replicate (nat (int (v_size v) - SizeLEB128 n (v_sign v)))
    (if v_sign v \<and> getSign n < 0 then 255 else 128 :: byte)"
  have "contents (Write_array \<lparr>m_bigendian = bo_big out, contents = pad\<rparr> (leb_groups (nat (SizeLEB128 n (v_sign v))) (intnum_val n))) =
     pad @ leb_groups (nat (SizeLEB128 n (v_sign v))) (intnum_val n)" by (simp add: Write_array_def)
  moreover have "int (length (pad @ leb_groups (nat (SizeLEB128 n (v_sign v))) (intnum_val n))) = int (v_size v)"
    using n(3) SizeLEB128_range [of n "v_sign v"] by (simp add: pad_def)
  ultimately show ?thesis
    using assms(1) Some ev t WriteLEB128_value [OF n(1,2)]
      emits_OutputBytes [of "out_diag (ds @ (if getSign n < 0 \<and> \<not> v_sign v then [warn_negative_uleb128] else [])) out"
        "pad @ leb_groups (nat (SizeLEB128 n (v_sign v))) (intnum_val n)"]
    by (auto simp: LEB128_Output_def Let_def pad_def [symmetric])
qed

lemma getInt_nonneg: "\<not> getSign n < 0 \<Longrightarrow> 0 \<le> getInt n"
  by (cases n) (auto simp: limits isNegative_def split: if_splits)

lemma CalcForOutput_value:
  assumes "Multiple_CalcForOutput I env m = Ret (m', True, ds)"
  shows "mul_int m' = mul_int m \<and> 0 \<le> mul_int m"
proof -
  obtain e ds0 where e: "SimplifyCalcDist (oi_floats I) env (mul_expr m) = Ret (e, ds0)"
    using assms by (auto simp: Multiple_CalcForOutput_def bind_out_Ret_iff)
  then obtain num where num: "expr_int e = Ret num" using assms by (cases "isIntNum e"; cases "expr_int e") (auto simp: Multiple_CalcForOutput_def)
  then show ?thesis using assms e getInt_nonneg [of num]
    by (cases "isIntNum e"; cases "getSign num < 0"; cases "mul_int m = getInt num") (auto simp: Multiple_CalcForOutput_def)
qed

lemma fill_len_value: "fill_len v n = Ret len \<Longrightarrow> 0 \<le> n \<Longrightarrow> len = int (v_size v div 8) * n"
  by (auto simp: fill_len_def Let_def long_range_def limits split: if_splits intro!: to_u64_id)

lemma Fill_emits:
  assumes "Fill_Output I env bc mul v sk out = Ret (mul', True, out')" "fill_len v (mul_int mul) = Ret len" "convert_ok I"
  shows "emits out out' len"
proof -
  obtain m1 okm ds where m: "Multiple_CalcForOutput I env mul = Ret (m1, okm, ds)"
    using assms(1) by (auto simp: Fill_Output_def bind_out_Ret_iff)
  then have okm using assms(1) by (cases okm) (auto simp: Fill_Output_def)
  then have m1: "mul_int m1 = mul_int mul" "0 \<le> mul_int mul" using CalcForOutput_value [of I env mul m1 ds] m by auto
  show ?thesis
  proof (cases sk)
    case True
    then show ?thesis using assms(1,2) m \<open>okm\<close> m1 emits_OutputGap [of "out_diag ds out" len] by (auto simp: Fill_Output_def)
  next
    case False
    define num where "num = ConfigureOutput v (NumericOutput_init \<lparr>m_bigendian = bo_big out, contents = replicate (v_size v div 8) 0\<rparr>)"
    have len0: "length (contents (m_bytes num)) = v_size v div 8" by (simp add: num_def ConfigureOutput_def NumericOutput_init_def)
    obtain okc num' ds' where c: "oi_convert I v \<lparr>loc_bc = Some bc, loc_off = 0\<rparr> num = Ret (okc, num', ds')"
      using assms(1) m \<open>okm\<close> False by (auto simp: Fill_Output_def bind_out_Ret_iff num_def [symmetric])
    then have okc using assms(1) m \<open>okm\<close> False by (cases okc) (auto simp: Fill_Output_def num_def [symmetric])
    then have "length (contents (m_bytes num')) = v_size v div 8" using convert_okD [OF assms(3), of v] c len0 \<open>okc\<close> by fastforce
    then show ?thesis using assms(1,2) m \<open>okm\<close> False c \<open>okc\<close> m1 fill_len_value [OF assms(2) m1(2)]
        emits_repeat [where out = "out_diag (ds @ ds' @ EmitWarnings num') out" and bs = "contents (m_bytes num')" and n = "nat (mul_int mul)"]
      by (auto simp: Fill_Output_def num_def [symmetric] mult.commute)
  qed
qed

lemma Jmp_emits:
  assumes "Jmp_Output I bc fixed j out = Ret (j', True, out')" "wf_contents (X86JmpContents j)"
    "claims_len tail (X86JmpContents j) len" "convert_ok I"
  shows "emits out out' len"
proof -
  define short where "short \<longleftrightarrow> j_op_sel j = X86_JMP_SHORT"
  define sz where "sz = (if short then 1 else nat (jmp_near_disp j))"
  define bytes where "bytes = Opcode_ToBytes (Common_ToBytes \<lparr>m_bigendian = False, contents = []\<rparr> None (j_common j))
                    (if short then j_shortop j else j_nearop j)"
  define out1 where "out1 = (OutputBytes (contents bytes) out)\<lparr>bo_big := False\<rparr>"
  have pos: "length (contents bytes) = Common_getLen (j_common j) + m_len (if short then j_shortop j else j_nearop j)"
    using assms(2) by (simp add: bytes_def Opcode_ToBytes_len Common_ToBytes_len)
  have len: "len = int (length (contents bytes)) + int sz"
    using assms(2,3) pos by (cases "j_op_sel j") (auto simp: short_def sz_def jmp_short_len_def jmp_near_len_def jmp_near_disp_def)
  obtain t where t: "AddAbs_int (set_s (- int (length (contents bytes) + sz))) (j_target j) = Ret t"
    using assms(1) unfolding Jmp_Output_def Let_def short_def [symmetric] sz_def [symmetric] bytes_def [symmetric] by (auto simp: bind_out_Ret_iff)
  define t1 where "t1 = setNextInsn 0 (setInsnStart (length (contents bytes)) (Value_setSize (sz * 8) t))"
  define num where "num = ConfigureOutput t1 (NumericOutput_init \<lparr>m_bigendian = False, contents = replicate sz 0\<rparr>)"
  have len0: "length (contents (m_bytes num)) = sz" by (simp add: num_def ConfigureOutput_def NumericOutput_init_def)
  have out': "OutputValue I t1 \<lparr>loc_bc = Some bc, loc_off = fixed + int (length (contents bytes))\<rparr> num out1 = Ret (True, out')"
    using assms(1) t unfolding Jmp_Output_def Let_def short_def [symmetric] sz_def [symmetric] bytes_def [symmetric] out1_def [symmetric]
    by (auto simp: bind_out_Ret_iff t1_def num_def)
  then obtain num' ds where c: "oi_convert I t1 \<lparr>loc_bc = Some bc, loc_off = fixed + int (length (contents bytes))\<rparr> num = Ret (True, num', ds)"
    and o: "out' = out_diag (EmitWarnings num') (OutputBytes (contents (m_bytes num')) (out_diag ds out1))"
    by (auto simp: OutputValue_def bind_out_Ret_iff split: if_splits)
  have "length (contents (m_bytes num')) = sz" using convert_okD [OF assms(4) c] len0 by simp
  then have "emits out1 out' (int sz)" using emits_OutputBytes [of "out_diag ds out1" "contents (m_bytes num')"] by (simp add: o)
  moreover have "emits out out1 (int (length (contents bytes)))" using emits_OutputBytes by (simp add: out1_def)
  ultimately show ?thesis using emits_trans len by blast
qed

lemma Output_emits:
  assumes "Contents_Output I env bc fixed tail c out = Ret (c', True, out')" "wf_contents c" "claims_len tail c len"
    "settled I env c" "convert_ok I" "0 \<le> tail" "tail \<le> ULONG_MAX"
  shows "emits out out' len"
proof (cases c)
  case (AlignBytecode b f ms cf)
  then show ?thesis using assms Align_emits [of "oi_bits I" tail b f ms cf out out' len] by (auto simp: bind_out_Ret_iff simp del: wf_contents.simps claims_len.simps)
next
  case (OrgBytecode s f)
  then show ?thesis using assms Org_emits [of "oi_bits I" tail s f out out' len] by (auto simp: bind_out_Ret_iff simp del: wf_contents.simps claims_len.simps)
next
  case (GapBytecode sz)
  then show ?thesis using assms emits_OutputGap by auto
next
  case (LEB128Bytecode v)
  then show ?thesis using assms LEB128_emits [of I env v out out'] by (auto simp: bind_out_Ret_iff simp del: settled.simps)
next
  case (FillBytecode mul v sk)
  then show ?thesis using assms Fill_emits [of I env bc mul v sk out _ out' len] by (auto simp: bind_out_Ret_iff)
next
  case (X86JmpContents j)
  then show ?thesis using assms Jmp_emits [of I bc fixed j out _ out' tail len] by (auto simp: bind_out_Ret_iff simp del: wf_contents.simps claims_len.simps)
qed

section \<open>The interface\<close>

locale bytecode_contents =
  fixes calc :: "int \<Rightarrow> 'c \<Rightarrow> ('c \<times> int option \<times> 'r list \<times> diag list) outcome"
    and expand :: "'c \<Rightarrow> int \<Rightarrow> int \<Rightarrow> expand_io \<Rightarrow> ('c \<times> expand_io option \<times> diag list) outcome"
    and emit :: "'x \<Rightarrow> int \<Rightarrow> 'c \<Rightarrow> BytecodeOutput \<Rightarrow> ('c \<times> bool \<times> BytecodeOutput) outcome"
    and special :: "'c \<Rightarrow> SpecialType"
    and wf :: "'c \<Rightarrow> bool"
    and claims :: "int \<Rightarrow> 'c \<Rightarrow> int \<Rightarrow> bool"
    and ready :: "'x \<Rightarrow> 'c \<Rightarrow> bool"
  assumes calc_claims: "calc tail c = Ret (c', Some len, sp, ds) \<Longrightarrow> wf c \<Longrightarrow> wf c' \<and> claims tail c' len"
    and expand_claims: "expand c span new_val io = Ret (c', Some io', ds) \<Longrightarrow> wf c \<Longrightarrow>
      (special c = SPECIAL_NONE \<Longrightarrow> claims tail c (ex_len io)) \<Longrightarrow>
      (special c = SPECIAL_OFFSET \<Longrightarrow> new_val = to_s64 tail) \<Longrightarrow>
      wf c' \<and> claims tail c' (ex_len io') \<and> special c' = special c"
    and output_emits: "emit x tail c out = Ret (c', True, out') \<Longrightarrow> wf c \<Longrightarrow> claims tail c len \<Longrightarrow> ready x c \<Longrightarrow>
      0 \<le> tail \<Longrightarrow> tail \<le> ULONG_MAX \<Longrightarrow> emits out out' len"
begin

lemma output_after_calc:
  assumes "calc tail c = Ret (c', Some len, sp, ds)" "wf c" "emit x tail c' out = Ret (c'', True, out')"
    "ready x c'" "0 \<le> tail" "tail \<le> ULONG_MAX"
  shows "emits out out' len"
  using calc_claims [OF assms(1,2)] output_emits [OF assms(3)] assms(4-6) by blast

text \<open>A length that depends on the offset is computed anew when the bytecode moves.\<close>

lemma output_after_move:
  assumes "expand c span (to_s64 tail) io = Ret (c', Some io', ds)" "wf c" "special c = SPECIAL_OFFSET"
    "emit x tail c' out = Ret (c'', True, out')" "ready x c'" "0 \<le> tail" "tail \<le> ULONG_MAX"
  shows "emits out out' (ex_len io')"
proof -
  have "wf c' \<and> claims tail c' (ex_len io')" using expand_claims [OF assms(1,2), of tail] assms(3) by simp
  then show ?thesis using output_emits [OF assms(4)] assms(5-7) by blast
qed

end

definition output_ready :: "'f output_iface \<times> Env \<times> nat \<times> int \<Rightarrow> 'f Contents \<Rightarrow> bool" where
  "output_ready x c \<longleftrightarrow> (case x of (I, env, bc, fixed) \<Rightarrow> settled I env c \<and> convert_ok I)"

interpretation contents: bytecode_contents Contents_CalcLen Contents_Expand
  "\<lambda>(I, env, bc, fixed). Contents_Output I env bc fixed" Contents_getSpecial wf_contents claims_len output_ready
proof
  fix x :: "'f output_iface \<times> Env \<times> nat \<times> int" and tail c out c' out' len
  assume a: "(case x of (I, env, bc, fixed) \<Rightarrow> Contents_Output I env bc fixed) tail c out = Ret (c', True, out')"
    "wf_contents c" "claims_len tail c len" "output_ready x c" "0 \<le> tail" "tail \<le> ULONG_MAX"
  obtain I env bc fixed where x: "x = (I, env, bc, fixed)" by (cases x)
  show "emits out out' len" using Output_emits [of I env bc fixed tail c out c' out' len] a by (simp add: x output_ready_def)
qed (rule CalcLen_claims, assumption+, rule Expand_claims, assumption+)

section \<open>Thresholds\<close>

lemma SizeLEB128_le_iff:
  assumes "sv_range x" "0 < k" "sg \<or> 0 \<le> x"
  shows "SizeLEB128 (SV x) sg \<le> int k \<longleftrightarrow>
    (if sg then - (2 ^ (7 * k - 1)) \<le> x \<and> x < 2 ^ (7 * k - 1) else x < 2 ^ (7 * k))"
proof (cases "x = 0")
  case False
  have "leb128_bits (SV x) sg \<le> 7 * k \<longleftrightarrow>
    (if sg then - (2 ^ (7 * k - 1)) \<le> x \<and> x < 2 ^ (7 * k - 1) else x < 2 ^ (7 * k))"
  proof (cases sg)
    case True
    then show ?thesis using min_signed_bits_le_iff [of x "7 * k - 1"] leb128_bits_value [of "SV x"] assms by simp
  next
    case False
    then have "uint (getBV (SV x)) = x" using assms by (simp add: uint_word_of_int sv_range_def limits)
    then show ?thesis using False getActiveBits_le_iff [of "getBV (SV x)" "7 * k"] by (simp add: leb128_bits_def)
  qed
  moreover have "SizeLEB128 (SV x) sg \<le> int k \<longleftrightarrow> leb128_bits (SV x) sg \<le> 7 * k"
    using False by (auto simp: SizeLEB128_def isZero_def)
  ultimately show ?thesis by simp
qed (use assms in \<open>auto simp: SizeLEB128_def isZero_def\<close>)

lemma LEB128_Expand_thresholds:
  assumes "LEB128_Expand v new_val io = Ret (v', io')" "long_range new_val" "long_range x" "v_sign v \<or> 0 \<le> x"
  shows "ex_neg io' \<le> x \<and> x \<le> ex_pos io' \<longleftrightarrow> SizeLEB128 (SV x) (v_sign v) \<le> SizeLEB128 (set_s new_val) (v_sign v)"
proof -
  define k where "k = nat (SizeLEB128 (set_s new_val) (v_sign v))"
  have sv: "sv_range new_val" "sv_range x" using assms(2,3) by (simp_all add: sv_range_def long_range_def limits)
  have k: "0 < k" using leb128_bits_pos [of "SV new_val" "v_sign v"] sv(1)
    by (auto simp: k_def SizeLEB128_def set_s_def canonical_def)
  then have kk: "SizeLEB128 (set_s new_val) (v_sign v) = int k" by (simp add: k_def)
  have io: "ex_neg io' = (if v_sign v then - (2 ^ (7 * k - 1)) else 0)"
    "ex_pos io' = (if v_sign v then 2 ^ (7 * k - 1) - 1 else 2 ^ (7 * k) - 1)"
  proof -
    have "nat (int k * 7 - 1) = 7 * k - 1" "nat (int k * 7) = 7 * k" using k by linarith+
    then show "ex_neg io' = (if v_sign v then - (2 ^ (7 * k - 1)) else 0)"
      "ex_pos io' = (if v_sign v then 2 ^ (7 * k - 1) - 1 else 2 ^ (7 * k) - 1)"
      using assms(1) by (auto simp: LEB128_Expand_def Let_def kk push_bit_eq_mult split: if_splits)
  qed
  show ?thesis using SizeLEB128_le_iff [OF sv(2) k assms(4)] assms(4) by (auto simp: kk io)
qed

section \<open>Properties\<close>

text \<open>
  C12. An alignment to a power of two fills up to the next multiple of the boundary, with fewer
  bytes than the boundary, unless that takes more than the maximum skip, when it fills
  nothing.  The threshold it asks to be recomputed at is that multiple, or the last offset
  at which the skip is still too long.
\<close>

theorem Align_Expand_correct:
  assumes "expr_int b = Ret bn" "getUInt bn = 2 ^ k" "0 \<le> new_val" "new_val + 2 ^ k \<le> LONG_MAX"
    "ms = [] \<or> (\<exists>mn. expr_int ms = Ret mn)"
  shows "\<exists>io' gap. Align_Expand b ms new_val io = Ret io' \<and> ex_keep io' \<and>
     0 \<le> gap \<and> gap < 2 ^ k \<and> 2 ^ k dvd new_val + gap \<and>
     (if ms \<noteq> [] \<and> (\<exists>mn. expr_int ms = Ret mn \<and> getUInt mn < gap)
      then ex_len io' = 0 \<and> new_val \<le> ex_pos io' \<and> ex_pos io' < new_val + gap
      else ex_len io' = gap \<and> ex_pos io' = new_val + gap)"
proof -
  obtain io' where "Align_Expand b ms new_val io = Ret io' \<and> ex_keep io' \<and>
     ex_len io' = (if ms \<noteq> [] \<and> (\<exists>mn. expr_int ms = Ret mn \<and> getUInt mn < align_end (2 ^ k) new_val - new_val)
       then 0 else align_end (2 ^ k) new_val - new_val) \<and>
     0 \<le> align_end (2 ^ k) new_val - new_val \<and> align_end (2 ^ k) new_val - new_val < 2 ^ k \<and>
     2 ^ k dvd new_val + (align_end (2 ^ k) new_val - new_val) \<and>
     (if ms \<noteq> [] \<and> (\<exists>mn. expr_int ms = Ret mn \<and> getUInt mn < align_end (2 ^ k) new_val - new_val)
      then new_val < ex_pos io' + 1 \<and> ex_pos io' < new_val + (align_end (2 ^ k) new_val - new_val)
      else ex_pos io' = new_val + (align_end (2 ^ k) new_val - new_val))"
    using Align_Expand_value [OF assms, of io] by blast
  then show ?thesis
    by (intro exI [of _ io'] exI [of _ "align_end (2 ^ k) new_val - new_val"]) (simp split: if_splits)
qed

theorem Align_Expand_correct_witness:
  "\<exists>io' gap. Align_Expand [mk_term (T_INT (SV 16)) 0] ([] :: unit Expr) 35 (initial_io 0) = Ret io' \<and> ex_keep io' \<and>
     0 \<le> gap \<and> gap < 2 ^ 4 \<and> 2 ^ 4 dvd 35 + gap \<and> ex_len io' = gap \<and> ex_pos io' = 35 + gap"
  using Align_Expand_correct [of "[mk_term (T_INT (SV 16)) 0] :: unit Expr" "SV 16" 4 35 "[]" "initial_io 0"]
  by (simp add: expr_int_def isIntNum_def isType_def mk_term_def getIntNum_def limits)

text \<open>
  C11. Whatever its kind, contents whose length was just computed output exactly that many
  bytes and gap bytes after what had been output before: the assertion at the end of
  \<^verbatim>\<open>Bytecode::Output\<close>.  The object format's conversion keeps the length of its buffer and a
  LEB128 number fits the size the optimizer settled on.
\<close>

theorem Output_matches_CalcLen:
  assumes "Contents_CalcLen tail c = Ret (c', Some len, sp, ds)" "wf_contents c"
    "Contents_Output I env bc fixed tail c' out = Ret (c'', True, out')"
    "settled I env c'" "convert_ok I" "0 \<le> tail" "tail \<le> ULONG_MAX"
  shows "\<exists>items. bo_items out' = bo_items out @ items \<and> sum_list (List.map item_size items) = len"
  using contents.output_after_calc [OF assms(1,2), of "(I, env, bc, fixed)" out c'' out'] assms(3-7)
  by (simp add: output_ready_def emits_def)

theorem Output_matches_CalcLen_witness:
  "\<exists>items. [Out_bytes [7], Out_bytes [0, 0, 0, 0, 0]] = [Out_bytes [7]] @ items \<and> sum_list (List.map item_size items) = 5"
proof -
  let ?c = "AlignBytecode [mk_term (T_INT (SV 8)) 0] [] [] None :: unit Contents"
  let ?I = "\<lparr>oi_bits = True, oi_convert = \<lambda>v loc num. Ret (True, num, []),
        oi_floats = \<lparr>fo_arith = \<lambda>oper a b. ((), 0), fo_neg = id, fo_promote = \<lambda>w. id, fo_nonzero = \<lambda>f. True\<rparr>\<rparr>"
  let ?env = "\<lparr>env_label = \<lambda>s. None, env_offset = \<lambda>bc. 0, env_container = \<lambda>bc. 0\<rparr>"
  have calc: "Contents_CalcLen 3 ?c = Ret (?c, Some 5, [], [])" by code_simp
  have out: "Contents_Output ?I ?env 1 3 3 ?c \<lparr>bo_items = [Out_bytes [7]], bo_num = 1, bo_big = False, bo_diags = []\<rparr> =
      Ret (?c, True, \<lparr>bo_items = [Out_bytes [7], Out_bytes [0, 0, 0, 0, 0]], bo_num = 6, bo_big = False, bo_diags = []\<rparr>)"
    by code_simp
  have "wf_contents ?c"
    by (simp add: int_expr_def expr_int_def isIntNum_def isType_def mk_term_def getIntNum_def sv_range_def limits)
  then show ?thesis using Output_matches_CalcLen [OF calc _ out] by (simp add: convert_ok_def limits)
qed

text \<open>
  C13. The thresholds a LEB128 number asks for are exactly the values that need no more bytes
  than it has: a \<^verbatim>\<open>long\<close> lies between them iff its encoding is not longer than the one of
  the value just seen.
\<close>

theorem LEB128_thresholds:
  assumes "LEB128_Expand v new_val io = Ret (v', io')" "long_range new_val" "long_range x" "v_sign v \<or> 0 \<le> x"
  shows "ex_neg io' \<le> x \<and> x \<le> ex_pos io' \<longleftrightarrow> SizeLEB128 (SV x) (v_sign v) \<le> SizeLEB128 (set_s new_val) (v_sign v)"
  by (rule LEB128_Expand_thresholds [OF assms])

theorem LEB128_thresholds_witness:
  "(-8192 \<le> (5000 :: int) \<and> 5000 \<le> (8191 :: int)) = (SizeLEB128 (SV 5000) True \<le> SizeLEB128 (set_s 100) True)"
proof -
  have sz: "SizeLEB128 (set_s 100) True = 2" by code_simp
  have "LEB128_Expand ((Value_of_size 1)\<lparr>v_sign := True\<rparr> :: unit Value) 100 (initial_io 0) =
     Ret ((Value_of_size 2)\<lparr>v_sign := True\<rparr>, \<lparr>ex_len = 1, ex_keep = True, ex_neg = -8192, ex_pos = 8191\<rparr>)"
    by (simp add: LEB128_Expand_def sz Value_of_size_def Value_setSize_def initial_io_def take_bit_eq_mod push_bit_eq_mult)
  from LEB128_thresholds [OF this, of 5000] show ?thesis
    by (simp add: long_range_def limits Value_of_size_def)
qed

text \<open>
  C14. The thresholds of a short jump are those of its displacement: the distance from the start
  of the instruction to the target lies between them iff the distance from the end of the
  short form to the target is a signed byte.  A jump that leaves them becomes a near jump of
  exactly the near length and no longer depends on the span.
\<close>

theorem Jmp_thresholds:
  assumes "wf_contents (X86JmpContents j)" "j_op_sel j = X86_JMP_SHORT"
  shows "\<exists>r. Jmp_CalcLen j = Ret (X86JmpContents j, Some (jmp_short_len j), [r], []) \<and> sr_value r = j_target j \<and>
     (\<forall>dist. sr_neg r \<le> dist \<and> dist \<le> sr_pos r \<longleftrightarrow> int_fits 1 8 (dist - jmp_short_len j)) \<and>
     (\<exists>j' io'. Jmp_Expand j (sr_id r) \<lparr>ex_len = jmp_short_len j, ex_keep = keep, ex_neg = sr_neg r, ex_pos = sr_pos r\<rparr> = Ret (j', io') \<and>
        j' = j\<lparr>j_op_sel := X86_JMP_NEAR\<rparr> \<and> ex_len io' = jmp_near_len j \<and> \<not> ex_keep io')"
proof -
  let ?r = "\<lparr>sr_id = 1, sr_value = j_target j, sr_neg = -128 + jmp_short_len j, sr_pos = 127 + jmp_short_len j\<rparr>"
  have "Contents_Expand (X86JmpContents j) 1 0 \<lparr>ex_len = jmp_short_len j, ex_keep = keep, ex_neg = sr_neg ?r, ex_pos = sr_pos ?r\<rparr> =
      Ret (X86JmpContents (j\<lparr>j_op_sel := X86_JMP_NEAR\<rparr>), Some io', ds) \<Longrightarrow> ex_len io' = jmp_near_len (j\<lparr>j_op_sel := X86_JMP_NEAR\<rparr>)" for io' ds
    using Expand_claims [of "X86JmpContents j" 1 0] assms by fastforce
  moreover have "jmp_near_len (j\<lparr>j_op_sel := X86_JMP_NEAR\<rparr>) = jmp_near_len j" by (simp add: jmp_near_len_def jmp_near_disp_def)
  ultimately show ?thesis using assms(2)
    by (intro exI [of _ ?r]) (auto simp: Jmp_CalcLen_def Jmp_Expand_def int_fits_def Let_def)
qed

theorem Jmp_thresholds_witness:
  "\<exists>r. Jmp_CalcLen \<lparr>j_common = X86Common_init\<lparr>m_mode_bits := 64, m_opersize := 32\<rparr>, j_shortop = \<lparr>m_opcode = [0xeb, 0, 0], m_len = 1\<rparr>,
        j_nearop = \<lparr>m_opcode = [0xe9, 0, 0], m_len = 1\<rparr>, j_target = Value_of_size 0 :: unit Value, j_op_sel = X86_JMP_SHORT\<rparr> =
      Ret (X86JmpContents \<lparr>j_common = X86Common_init\<lparr>m_mode_bits := 64, m_opersize := 32\<rparr>, j_shortop = \<lparr>m_opcode = [0xeb, 0, 0], m_len = 1\<rparr>,
        j_nearop = \<lparr>m_opcode = [0xe9, 0, 0], m_len = 1\<rparr>, j_target = Value_of_size 0, j_op_sel = X86_JMP_SHORT\<rparr>, Some 2, [r], []) \<and>
      (\<forall>dist. sr_neg r \<le> dist \<and> dist \<le> sr_pos r \<longleftrightarrow> int_fits 1 8 (dist - 2))"
  using Jmp_thresholds [of "\<lparr>j_common = X86Common_init\<lparr>m_mode_bits := 64, m_opersize := 32\<rparr>, j_shortop = \<lparr>m_opcode = [0xeb, 0, 0], m_len = 1\<rparr>,
        j_nearop = \<lparr>m_opcode = [0xe9, 0, 0], m_len = 1\<rparr>, j_target = Value_of_size 0 :: unit Value, j_op_sel = X86_JMP_SHORT\<rparr>"]
  by (auto simp: opcode_ok_def jmp_short_len_def Common_getLen_def X86Common_init_def)

text \<open>
  Padding a LEB128 number at its front changes it: a size of two bytes writes 3 as
  \<^verbatim>\<open>0x80 0x03\<close>, which reads back as 384.
\<close>

theorem LEB128_Output_padded:
  "LEB128_Output \<lparr>oi_bits = True, oi_convert = \<lambda>v loc num. Ret (True, num, []),
       oi_floats = \<lparr>fo_arith = \<lambda>oper a b. ((), 0), fo_neg = id, fo_promote = \<lambda>w. id, fo_nonzero = \<lambda>f. True\<rparr>\<rparr>
     \<lparr>env_label = \<lambda>s. None, env_offset = \<lambda>bc. 0, env_container = \<lambda>bc. 0\<rparr> (Value_of_expr 2 [mk_term (T_INT (SV 3)) 0])
     \<lparr>bo_items = [], bo_num = 0, bo_big = False, bo_diags = []\<rparr> =
     Ret (True, \<lparr>bo_items = [Out_bytes [0x80, 3]], bo_num = 2, bo_big = False, bo_diags = []\<rparr>) \<and>
   ReadLEB128 \<lparr>m_bigendian = False, m_data = [0x80, 3], m_pos = 0\<rparr> False =
     Ret (SV 384, 2, \<lparr>m_bigendian = False, m_data = [0x80, 3], m_pos = 2\<rparr>)"
  by code_simp

end
