(* ===== verification/Bytecode.thy ===== *)
theory Bytecode
  imports Contents_Correct
begin

text \<open>
  \<^verbatim>\<open>lib/yasmx/Bytecode.cpp\<close> and \<^verbatim>\<open>lib/yasmx/BytecodeContainer.cpp\<close>: a bytecode is a fixed
  part with fixups and a tail of contents; a container is the list of the bytecodes of a
  section, which a bytecode is named by its position in.
\<close>

unbundle bit_operations_syntax

section \<open>Bytecodes\<close>

record 'f Fixup =
  fx_off :: nat
  fx_value :: "'f Value"

record 'f Bytecode =
  bc_fixed :: "byte list"
  bc_fixups :: "'f Fixup list"
  bc_contents :: "'f Contents option"
  bc_len :: int
  bc_offset :: int
  bc_index :: int

definition Bytecode_new :: "'f Bytecode" where
  "Bytecode_new = \<lparr>bc_fixed = [], bc_fixups = [], bc_contents = None, bc_len = 0, bc_offset = 0, bc_index = ULONG_MAX\<rparr>"

definition Transform :: "'f Contents \<Rightarrow> 'f Bytecode \<Rightarrow> 'f Bytecode" where
  "Transform c bc = bc\<lparr>bc_contents := Some c\<rparr>"

definition hasContents :: "'f Bytecode \<Rightarrow> bool" where
  "hasContents bc \<longleftrightarrow> bc_contents bc \<noteq> None"

definition getFixedLen :: "'f Bytecode \<Rightarrow> int" where
  "getFixedLen bc = int (length (bc_fixed bc))"

definition getTotalLen :: "'f Bytecode \<Rightarrow> int" where
  "getTotalLen bc = to_u64 (getFixedLen bc + bc_len bc)"

definition getTailOffset :: "'f Bytecode \<Rightarrow> int" where
  "getTailOffset bc = to_u64 (bc_offset bc + getFixedLen bc)"

definition getNextOffset :: "'f Bytecode \<Rightarrow> int" where
  "getNextOffset bc = to_u64 (bc_offset bc + getTotalLen bc)"

definition getSpecial :: "'f Bytecode \<Rightarrow> SpecialType" where
  "getSpecial bc = (case bc_contents bc of None \<Rightarrow> SPECIAL_NONE | Some c \<Rightarrow> Contents_getSpecial c)"

text \<open>The result, the spans and the diagnostics; the length is stored only on success.\<close>

definition Bytecode_CalcLen :: "'f Bytecode \<Rightarrow> ('f Bytecode \<times> bool \<times> 'f span_req list \<times> diag list) outcome" where
  "Bytecode_CalcLen bc =
     (case bc_contents bc of
        None \<Rightarrow> Ret (bc\<lparr>bc_len := 0\<rparr>, True, [], [])
      | Some c \<Rightarrow>
          bind_out (Contents_CalcLen (getTailOffset bc) c) (\<lambda>(c', r, spans, ds).
            case r of
              None \<Rightarrow> Ret (bc\<lparr>bc_contents := Some c'\<rparr>, False, spans, ds)
            | Some len \<Rightarrow> Ret (bc\<lparr>bc_contents := Some c', bc_len := len\<rparr>, True, spans, ds)))"

text \<open>
  \<open>io\<close> holds the caller's flag and thresholds; the length it carries is the bytecode's.  Without
  contents nothing is touched.
\<close>

definition Bytecode_Expand :: "int \<Rightarrow> int \<Rightarrow> expand_io \<Rightarrow> 'f Bytecode \<Rightarrow>
    ('f Bytecode \<times> expand_io option \<times> diag list) outcome" where
  "Bytecode_Expand span new_val io bc =
     (case bc_contents bc of
        None \<Rightarrow> Ret (bc, Some io, [])
      | Some c \<Rightarrow>
          bind_out (Contents_Expand c span new_val (io\<lparr>ex_len := bc_len bc\<rparr>)) (\<lambda>(c', r, ds).
            case r of
              None \<Rightarrow> Ret (bc\<lparr>bc_contents := Some c'\<rparr>, None, ds)
            | Some io' \<Rightarrow> Ret (bc\<lparr>bc_contents := Some c', bc_len := ex_len io'\<rparr>, Some io', ds)))"

definition UpdateOffset :: "int \<Rightarrow> 'f Bytecode \<Rightarrow> ('f Bytecode \<times> int \<times> diag list) outcome" where
  "UpdateOffset off bc =
     bind_out
       (if getSpecial bc = SPECIAL_OFFSET
        then bind_out (Bytecode_Expand 1 (to_s64 (to_u64 (off + getFixedLen bc))) (initial_io (to_s64 (getNextOffset bc))) bc)
               (\<lambda>(bc', r, ds). Ret (bc', ds))
        else Ret (bc, []))
       (\<lambda>(bc', ds). let bc'' = bc'\<lparr>bc_offset := off\<rparr> in Ret (bc'', getNextOffset bc'', ds))"

definition AppendFixed :: "'f Value \<Rightarrow> 'f Bytecode \<Rightarrow> 'f Bytecode" where
  "AppendFixed v bc =
     bc\<lparr>bc_fixups := bc_fixups bc @ [\<lparr>fx_off = length (bc_fixed bc), fx_value = v\<rparr>],
        bc_fixed := bc_fixed bc @ replicate (v_size v div 8) 0\<rparr>"

text \<open>
  One fixup: the bytes it covers are converted and put back.  The scratch buffer has the
  output's byte order.
\<close>

definition apply_fixup :: "'f output_iface \<Rightarrow> nat \<Rightarrow> bool \<Rightarrow> 'f Fixup \<Rightarrow> byte list \<Rightarrow>
    (byte list option \<times> diag list) outcome" where
  "apply_fixup I bc big fx fixed =
     (let off = fx_off fx; v = fx_value fx; sz = (v_size v + v_shift v + 7) div 8 in
      if off + sz > length fixed then Undefined
      else
        let num_out = ConfigureOutput v (NumericOutput_init \<lparr>m_bigendian = big, contents = take sz (drop off fixed)\<rparr>) in
        bind_out (oi_convert I v \<lparr>loc_bc = Some bc, loc_off = int off\<rparr> num_out) (\<lambda>(ok, num', ds).
          if \<not> ok then Ret (None, ds)
          else let bs = contents (m_bytes num') in
               if off + length bs > length fixed then Undefined
               else Ret (Some (take off fixed @ bs @ drop (off + length bs) fixed), ds @ EmitWarnings num')))"

fun apply_fixups :: "'f output_iface \<Rightarrow> nat \<Rightarrow> bool \<Rightarrow> 'f Fixup list \<Rightarrow> byte list \<Rightarrow>
    (byte list option \<times> diag list) outcome" where
  "apply_fixups I bc big [] fixed = Ret (Some fixed, [])"
| "apply_fixups I bc big (fx # fxs) fixed =
     bind_out (apply_fixup I bc big fx fixed) (\<lambda>(r, ds).
       case r of
         None \<Rightarrow> Ret (None, ds)
       | Some fixed' \<Rightarrow> bind_out (apply_fixups I bc big fxs fixed') (\<lambda>(r', ds'). Ret (r', ds @ ds')))"

text \<open>The assertions on the numbers of bytes output are part of the code.\<close>

definition Bytecode_Output :: "'f output_iface \<Rightarrow> Env \<Rightarrow> nat \<Rightarrow> 'f Bytecode \<Rightarrow> BytecodeOutput \<Rightarrow>
    ('f Bytecode \<times> bool \<times> BytecodeOutput) outcome" where
  "Bytecode_Output I env i bc out =
     bind_out (apply_fixups I i (bo_big out) (bc_fixups bc) (bc_fixed bc)) (\<lambda>(r, ds).
       case r of
         None \<Rightarrow> Ret (bc, False, out_diag ds out)
       | Some fixed \<Rightarrow>
           let out1 = OutputBytes fixed (out_diag ds out) in
           if to_u64 (bo_num out1 - bo_num out) \<noteq> getFixedLen bc then Undefined
           else
             bind_out
               (case bc_contents bc of
                  None \<Rightarrow> Ret (bc, True, out1)
                | Some c \<Rightarrow>
                    bind_out (Contents_Output I env i (getFixedLen bc) (getTailOffset bc) c out1) (\<lambda>(c', ok, out2).
                      Ret (bc\<lparr>bc_contents := Some c'\<rparr>, ok, out2)))
               (\<lambda>(bc', ok, out2).
                  if ok \<and> to_u64 (bo_num out2 - bo_num out) \<noteq> getTotalLen bc then Undefined
                  else Ret (bc', ok, out2)))"

section \<open>Containers\<close>

record 'f BytecodeContainer =
  m_bcs :: "'f Bytecode list"
  m_last_gap :: bool

definition StartBytecode :: "'f BytecodeContainer \<Rightarrow> 'f BytecodeContainer" where
  "StartBytecode c = c\<lparr>m_bcs := m_bcs c @ [Bytecode_new], m_last_gap := False\<rparr>"

definition BytecodeContainer_new :: "'f BytecodeContainer" where
  "BytecodeContainer_new = StartBytecode \<lparr>m_bcs = [], m_last_gap = False\<rparr>"

definition AppendBytecode :: "'f Bytecode option \<Rightarrow> 'f BytecodeContainer \<Rightarrow> 'f BytecodeContainer" where
  "AppendBytecode b c =
     (case b of None \<Rightarrow> c | Some bc \<Rightarrow> c\<lparr>m_bcs := m_bcs c @ [bc]\<rparr>)\<lparr>m_last_gap := False\<rparr>"

text \<open>The bytecode \<open>FreshBytecode\<close> returns is the last one afterwards.\<close>

definition FreshBytecode :: "'f BytecodeContainer \<Rightarrow> 'f BytecodeContainer" where
  "FreshBytecode c = (if hasContents (last (m_bcs c)) then StartBytecode c else c)"

definition update_last :: "('f Bytecode \<Rightarrow> 'f Bytecode) \<Rightarrow> 'f BytecodeContainer \<Rightarrow> 'f BytecodeContainer" where
  "update_last f c = c\<lparr>m_bcs := butlast (m_bcs c) @ [f (last (m_bcs c))]\<rparr>"

definition gap_extend :: "int \<Rightarrow> 'f Bytecode \<Rightarrow> 'f Bytecode" where
  "gap_extend sz bc =
     (case bc_contents bc of Some (GapBytecode n) \<Rightarrow> bc\<lparr>bc_contents := Some (GapBytecode (to_u64 (n + sz)))\<rparr> | _ \<Rightarrow> bc)"

definition AppendGap :: "int \<Rightarrow> 'f BytecodeContainer \<Rightarrow> 'f BytecodeContainer" where
  "AppendGap sz c =
     (if m_last_gap c then update_last (gap_extend sz) c
      else (update_last (Transform (GapBytecode sz)) (FreshBytecode c))\<lparr>m_last_gap := True\<rparr>)"

text \<open>The location of the end, in the container as \<open>FreshBytecode\<close> leaves it.\<close>

definition getEndLoc :: "'f BytecodeContainer \<Rightarrow> Location \<times> 'f BytecodeContainer" where
  "getEndLoc c =
     (let c' = FreshBytecode c in
      (\<lparr>loc_bc = Some (length (m_bcs c') - 1), loc_off = getFixedLen (last (m_bcs c'))\<rparr>, c'))"

text \<open>The other users of \<open>FreshBytecode\<close>: contents and fixed bytes appended at the end.\<close>

definition AppendContents :: "'f Contents \<Rightarrow> 'f BytecodeContainer \<Rightarrow> 'f BytecodeContainer" where
  "AppendContents cs c = update_last (Transform cs) (FreshBytecode c)"

definition AppendLEB128_int :: "IntNum \<Rightarrow> bool \<Rightarrow> 'f BytecodeContainer \<Rightarrow> ('f BytecodeContainer \<times> diag list) outcome" where
  "AppendLEB128_int intn sign c =
     (let c' = FreshBytecode c; bc = last (m_bcs c') in
      bind_out (WriteLEB128 \<lparr>m_bigendian = False, contents = bc_fixed bc\<rparr> intn sign) (\<lambda>(n, bytes).
        Ret (update_last (\<lambda>b. b\<lparr>bc_fixed := contents bytes\<rparr>) c',
             if getSign intn < 0 \<and> \<not> sign then [warn_negative_uleb128] else [])))"

fun update_offsets :: "int \<Rightarrow> 'f Bytecode list \<Rightarrow> ('f Bytecode list \<times> diag list) outcome" where
  "update_offsets off [] = Ret ([], [])"
| "update_offsets off (bc # bcs) =
     bind_out (UpdateOffset off bc) (\<lambda>(bc', off', ds).
     bind_out (update_offsets off' bcs) (\<lambda>(bcs', ds'). Ret (bc' # bcs', ds @ ds')))"

definition UpdateOffsets :: "'f BytecodeContainer \<Rightarrow> ('f BytecodeContainer \<times> diag list) outcome" where
  "UpdateOffsets c =
     (case m_bcs c of
        [] \<Rightarrow> Undefined
      | b # bs \<Rightarrow> bind_out (update_offsets 0 (b\<lparr>bc_offset := 0\<rparr> # bs)) (\<lambda>(bcs', ds). Ret (c\<lparr>m_bcs := bcs'\<rparr>, ds)))"

text \<open>
  The loop of \<^verbatim>\<open>BinOutput::OutputSection\<close> outputs every bytecode whatever the previous ones
  returned; the flag is the conjunction of the results.  A bytecode writes nothing but its own
  contents, which are not read again.
\<close>

fun output_all :: "'f output_iface \<Rightarrow> Env \<Rightarrow> nat \<Rightarrow> 'f Bytecode list \<Rightarrow> BytecodeOutput \<Rightarrow> (bool \<times> BytecodeOutput) outcome" where
  "output_all I env i [] out = Ret (True, out)"
| "output_all I env i (bc # bcs) out =
     bind_out (Bytecode_Output I env i bc out) (\<lambda>(bc', ok, out').
     bind_out (output_all I env (Suc i) bcs out') (\<lambda>(ok', out''). Ret (ok \<and> ok', out'')))"

text \<open>\<^verbatim>\<open>BytecodeNoOutput\<close>, the output of a section without bits, converts nothing.\<close>

definition no_output_convert :: "'f Value \<Rightarrow> Location \<Rightarrow> NumericOutput \<Rightarrow> (bool \<times> NumericOutput \<times> diag list) outcome" where
  "no_output_convert v loc num_out = Ret (True, num_out, [])"

end
