(* ===== verification/Bytecode_Correct.thy ===== *)
theory Bytecode_Correct
  imports Bytecode
begin

text \<open>
  The containers the assembler builds (\<open>built\<close>) and their invariant; the layout that
  \<open>UpdateOffsets\<close> gives them (\<open>laid_out\<close>); the lengths that \<open>CalcLen\<close> and \<open>Expand\<close>
  keep right (\<open>bc_sized\<close>); and that the output of a bytecode has them.
\<close>

unbundle bit_operations_syntax

section \<open>The container's invariant\<close>

definition container_ok :: "'f BytecodeContainer \<Rightarrow> bool" where
  "container_ok c \<longleftrightarrow> m_bcs c \<noteq> [] \<and> (m_last_gap c \<longrightarrow> (\<exists>n. bc_contents (last (m_bcs c)) = Some (GapBytecode n)))"

inductive built :: "'f BytecodeContainer \<Rightarrow> bool" where
  new: "built BytecodeContainer_new"
| start: "built c \<Longrightarrow> built (StartBytecode c)"
| fresh: "built c \<Longrightarrow> built (FreshBytecode c)"
| end_loc: "built c \<Longrightarrow> built (snd (getEndLoc c))"
| bytecode: "built c \<Longrightarrow> built (AppendBytecode b c)"
| gap: "built c \<Longrightarrow> built (AppendGap n c)"
| contents: "built c \<Longrightarrow> built (AppendContents cs c)"
| fixed: "built c \<Longrightarrow> built (update_last (AppendFixed v) (FreshBytecode c))"
| leb128: "built c \<Longrightarrow> AppendLEB128_int intn sg c = Ret (c', ds) \<Longrightarrow> built c'"

definition gap_of_list :: "'f Bytecode list \<Rightarrow> int" where
  "gap_of_list bcs = sum_list (List.map (\<lambda>bc. case bc_contents bc of Some (GapBytecode n) \<Rightarrow> n | _ \<Rightarrow> 0) bcs)"

definition gap_total :: "'f BytecodeContainer \<Rightarrow> int" where
  "gap_total c = gap_of_list (m_bcs c)"

lemma FreshBytecode_last: "\<not> hasContents (last (m_bcs (FreshBytecode c)))"
  by (simp add: FreshBytecode_def StartBytecode_def hasContents_def Bytecode_new_def)

lemma container_ok_Fresh: "container_ok c \<Longrightarrow> container_ok (FreshBytecode c) \<and> \<not> m_last_gap (FreshBytecode c)"
  by (auto simp: container_ok_def FreshBytecode_def StartBytecode_def hasContents_def)

lemma container_ok_update_last: "container_ok c \<Longrightarrow> \<not> m_last_gap c \<Longrightarrow> container_ok (update_last f c)"
  by (simp add: container_ok_def update_last_def)

lemma container_ok_Start: "container_ok (StartBytecode c)"
  by (simp add: container_ok_def StartBytecode_def)

lemma built_ok: "built c \<Longrightarrow> container_ok c"
proof (induction rule: built.induct)
  case (leb128 c intn sg c' ds)
  then show ?case using container_ok_Fresh [of c]
    by (auto simp: AppendLEB128_int_def bind_out_Ret_iff Let_def intro: container_ok_update_last)
next
  case (gap c n)
  then show ?case
    using container_ok_Fresh [of c] by (auto simp: AppendGap_def container_ok_def update_last_def gap_extend_def Transform_def)
next
  case (bytecode c b)
  then show ?case by (auto simp: AppendBytecode_def container_ok_def split: option.splits)
qed (auto simp: container_ok_Start container_ok_Fresh container_ok_update_last AppendContents_def getEndLoc_def Let_def
       BytecodeContainer_new_def)

lemma gap_total_append: "gap_of_list (xs @ ys) = gap_of_list xs + gap_of_list ys"
  by (simp add: gap_of_list_def)

lemma gap_total_Fresh: "gap_of_list (m_bcs (FreshBytecode c)) = gap_of_list (m_bcs c)"
  by (simp add: FreshBytecode_def StartBytecode_def Bytecode_new_def gap_of_list_def)

lemma AppendGap_total:
  assumes "container_ok c" "0 \<le> n" "gap_total c + n \<le> ULONG_MAX" "\<forall>bc\<in>set (m_bcs c). \<forall>k. bc_contents bc = Some (GapBytecode k) \<longrightarrow> 0 \<le> k"
  shows "gap_total (AppendGap n c) = gap_total c + n"
proof (cases "m_last_gap c")
  case True
  then obtain k where k: "m_bcs c \<noteq> []" "bc_contents (last (m_bcs c)) = Some (GapBytecode k)" using assms(1) by (auto simp: container_ok_def)
  have split: "m_bcs c = butlast (m_bcs c) @ [last (m_bcs c)]" using k by simp
  have t: "gap_total c = gap_of_list (butlast (m_bcs c)) + k"
    by (subst gap_total_def, subst split, subst gap_total_append) (simp add: gap_of_list_def k)
  have "0 \<le> gap_of_list (butlast (m_bcs c))" unfolding gap_of_list_def
    using assms(4) by (intro sum_list_nonneg) (auto dest!: in_set_butlastD split: option.splits Contents.Contents.splits)
  moreover have "0 \<le> k" using assms(4) k by (meson last_in_set)
  ultimately have "to_u64 (k + n) = k + n" using assms(2,3) t by (intro to_u64_id) auto
  then show ?thesis using True t k by (simp add: AppendGap_def update_last_def gap_extend_def gap_total_def gap_total_append) (simp add: gap_of_list_def)
next
  case False
  define d where "d = FreshBytecode c"
  have "m_bcs d \<noteq> []" using container_ok_Fresh [OF assms(1)] by (simp add: d_def container_ok_def)
  then have split: "m_bcs d = butlast (m_bcs d) @ [last (m_bcs d)]" by simp
  have "gap_of_list (m_bcs d) = gap_of_list (butlast (m_bcs d))"
    by (subst split, subst gap_total_append) (use FreshBytecode_last [of c] in \<open>simp add: gap_of_list_def d_def hasContents_def\<close>)
  then show ?thesis using False gap_total_Fresh [of c]
    by (simp add: AppendGap_def update_last_def gap_total_def gap_total_append d_def [symmetric]) (simp add: gap_of_list_def Transform_def)
qed

section \<open>Layout\<close>

fun bc_claim :: "int \<Rightarrow> 'f Contents option \<Rightarrow> int \<Rightarrow> bool" where
  "bc_claim tail None len \<longleftrightarrow> len = 0"
| "bc_claim tail (Some c) len \<longleftrightarrow> wf_contents c \<and> claims_len tail c len \<and> 0 \<le> len"

definition bc_sized :: "'f Bytecode \<Rightarrow> bool" where
  "bc_sized bc \<longleftrightarrow> (case bc_contents bc of
      None \<Rightarrow> bc_len bc = 0
    | Some c \<Rightarrow> wf_contents c \<and> (Contents_getSpecial c = SPECIAL_NONE \<longrightarrow> 0 \<le> bc_len bc \<and> (\<forall>tail. claims_len tail c (bc_len bc))))"

fun laid_out :: "int \<Rightarrow> 'f Bytecode list \<Rightarrow> bool" where
  "laid_out off [] \<longleftrightarrow> off \<le> ULONG_MAX"
| "laid_out off (bc # bcs) \<longleftrightarrow>
     bc_offset bc = off \<and> 0 \<le> off \<and> bc_claim (off + getFixedLen bc) (bc_contents bc) (bc_len bc) \<and>
     laid_out (off + getFixedLen bc + bc_len bc) bcs"

lemma laid_out_max: "laid_out off bcs \<Longrightarrow> off \<le> ULONG_MAX"
proof (induction bcs arbitrary: off)
  case (Cons bc bcs)
  then have "0 \<le> bc_len bc" "off + getFixedLen bc + bc_len bc \<le> ULONG_MAX" by (cases "bc_contents bc"; auto)+
  then show ?case by (simp add: getFixedLen_def)
qed simp

definition size_sum :: "'f Bytecode list \<Rightarrow> int" where
  "size_sum bcs = sum_list (List.map (\<lambda>bc. getFixedLen bc + bc_len bc) bcs)"

lemma claims_len_nonneg: "claims_len tail c len \<Longrightarrow> wf_contents c \<Longrightarrow> Contents_getSpecial c = SPECIAL_OFFSET \<Longrightarrow> 0 \<le> len"
proof (cases c)
  case (AlignBytecode b f ms cf)
  assume "claims_len tail c len"
  then obtain io where "Align_Expand b ms (to_s64 tail) (initial_io 0) = Ret io" "len = ex_len io"
    using AlignBytecode by (auto split: outcome.splits)
  then show ?thesis by (cases "expr_int b"; cases "expr_int ms") (auto simp: Align_Expand_def Let_def split: if_splits)
next
  case (OrgBytecode s f)
  assume "claims_len tail c len"
  then show ?thesis using OrgBytecode by (cases "expr_int s") (auto simp: Org_Expand_def Let_def split: if_splits)
qed auto


lemma bind_out_cases:
  assumes "bind_out m f = Ret y"
  obtains x where "m = Ret x" "f x = Ret y"
  using assms by (auto simp: bind_out_Ret_iff)

text \<open>A move computes the length of an alignment or an origin anew and leaves the others alone.\<close>

lemma UpdateOffset_claim:
  assumes "UpdateOffset off bc = Ret (bc', off', [])" "bc_sized bc"
  shows "bc_offset bc' = off \<and> bc_claim (to_u64 (off + getFixedLen bc')) (bc_contents bc') (bc_len bc') \<and>
     off' = getNextOffset bc' \<and> bc_fixed bc' = bc_fixed bc \<and> 0 \<le> bc_len bc'"
proof (cases "getSpecial bc = SPECIAL_OFFSET")
  case False
  then show ?thesis using assms(1,2)
    by (cases "bc_contents bc"; cases "Contents_getSpecial (the (bc_contents bc))") (auto simp: UpdateOffset_def getSpecial_def bc_sized_def Let_def)
next
  case True
  then obtain c where c: "bc_contents bc = Some c" "Contents_getSpecial c = SPECIAL_OFFSET" "wf_contents c"
    using assms(2) by (auto simp: getSpecial_def bc_sized_def split: option.splits)
  obtain c' r where e: "Contents_Expand c 1 (to_s64 (to_u64 (off + getFixedLen bc)))
      ((initial_io (to_s64 (getNextOffset bc)))\<lparr>ex_len := bc_len bc\<rparr>) = Ret (c', r, [])"
    and bc': "bc' = (case r of None \<Rightarrow> bc\<lparr>bc_contents := Some c', bc_offset := off\<rparr>
       | Some io \<Rightarrow> bc\<lparr>bc_contents := Some c', bc_len := ex_len io, bc_offset := off\<rparr>)" "off' = getNextOffset bc'"
    using assms(1) True c(1) by (auto simp: UpdateOffset_def Bytecode_Expand_def Let_def bind_out_Ret_iff split: option.splits)
  obtain io where io: "r = Some io" using e c(2) by (cases c; cases r) (auto simp: bind_out_Ret_iff)
  have "wf_contents c' \<and> claims_len (to_u64 (off + getFixedLen bc)) c' (ex_len io) \<and> Contents_getSpecial c' = Contents_getSpecial c"
    by (rule Expand_claims [OF e [unfolded io] c(3)]) (use c(2) in auto)
  moreover from this have "0 \<le> ex_len io" using claims_len_nonneg c(2) by metis
  ultimately show ?thesis by (simp add: bc' io getFixedLen_def)
qed

lemma UpdateOffset_next:
  assumes "UpdateOffset off bc = Ret (bc', off', [])" "bc_sized bc" "0 \<le> off" "off + getFixedLen bc' + bc_len bc' \<le> ULONG_MAX"
  shows "bc_claim (off + getFixedLen bc') (bc_contents bc') (bc_len bc') \<and> off' = off + getFixedLen bc' + bc_len bc'"
proof -
  have f: "0 \<le> getFixedLen bc'" by (simp add: getFixedLen_def)
  note c = UpdateOffset_claim [OF assms(1,2)]
  then have "to_u64 (off + getFixedLen bc') = off + getFixedLen bc'" using assms(3,4) f by (intro to_u64_id) auto
  moreover have "getNextOffset bc' = off + getFixedLen bc' + bc_len bc'"
    using assms(3,4) f c by (simp add: getNextOffset_def getTotalLen_def to_u64_id algebra_simps)
  ultimately show ?thesis using c by simp
qed

lemma update_offsets_nonneg:
  "update_offsets off bcs = Ret (bcs', []) \<Longrightarrow> \<forall>bc\<in>set bcs. bc_sized bc \<Longrightarrow> 0 \<le> size_sum bcs'"
  by (induction off bcs arbitrary: bcs' rule: update_offsets.induct)
    (auto simp: size_sum_def bind_out_Ret_iff getFixedLen_def dest!: UpdateOffset_claim)

lemma update_offsets_laid_out: "update_offsets off bcs = Ret (bcs', []) \<Longrightarrow> \<forall>bc\<in>set bcs. bc_sized bc \<Longrightarrow> 0 \<le> off \<Longrightarrow>
   off + size_sum bcs' \<le> ULONG_MAX \<Longrightarrow> laid_out off bcs'"
proof (induction bcs arbitrary: off bcs')
  case (Cons bc bcs)
  obtain bc1 off1 bcs1 where u: "UpdateOffset off bc = Ret (bc1, off1, [])" "update_offsets off1 bcs = Ret (bcs1, [])" "bcs' = bc1 # bcs1"
    using Cons(2) by (auto simp: bind_out_Ret_iff)
  have "0 \<le> size_sum bcs1" using update_offsets_nonneg [OF u(2)] Cons(3) by simp
  then have s: "off + getFixedLen bc1 + bc_len bc1 \<le> ULONG_MAX" using Cons(5) u(3) by (simp add: size_sum_def)
  note m = UpdateOffset_claim [OF u(1)] UpdateOffset_next [OF u(1) _ Cons(4) s]
  have "0 \<le> off1" "off1 + size_sum bcs1 \<le> ULONG_MAX" using m Cons(3-5) u(3) s by (auto simp: size_sum_def getFixedLen_def)
  then have "laid_out off1 bcs1" using Cons(1) [OF u(2)] Cons(3) u(3) by auto
  then show ?case using m Cons(3,4) u(3) by simp
qed (auto simp: size_sum_def)

section \<open>Output\<close>

lemma apply_fixup_length:
  assumes "apply_fixup I i big fx fixed = Ret (Some fixed', ds)"
  shows "length fixed' = length fixed"
  using assms by (auto simp: apply_fixup_def Let_def bind_out_Ret_iff split: if_splits)

lemma apply_fixups_length: "apply_fixups I i big fxs fixed = Ret (Some fixed', ds) \<Longrightarrow> length fixed' = length fixed"
  by (induction fxs arbitrary: fixed ds) (auto simp: bind_out_Ret_iff split: option.splits dest!: apply_fixup_length)

definition bc_settled :: "'f output_iface \<Rightarrow> Env \<Rightarrow> 'f Bytecode \<Rightarrow> bool" where
  "bc_settled I env bc \<longleftrightarrow> (case bc_contents bc of None \<Rightarrow> True | Some c \<Rightarrow> settled I env c)"

lemma emits_num: "emits a b n \<Longrightarrow> to_u64 (bo_num b - bo_num a) = to_u64 n"
  unfolding emits_def take_bit_eq_mod by (metis add_diff_cancel_left' mod_diff_left_eq)

text \<open>
  A bytecode whose length is right outputs its fixed part and then that many bytes; neither
  assertion of \<^verbatim>\<open>Bytecode::Output\<close> fails.
\<close>

lemma Bytecode_Output_emits:
  assumes "Bytecode_Output I env i bc out = Ret (bc', True, out')"
    "bc_claim (getTailOffset bc) (bc_contents bc) (bc_len bc)" "bc_settled I env bc" "convert_ok I"
  shows "emits out out' (getFixedLen bc + bc_len bc)"
proof -
  obtain fixed ds where fx: "apply_fixups I i (bo_big out) (bc_fixups bc) (bc_fixed bc) = Ret (Some fixed, ds)"
    using assms(1) by (auto simp: Bytecode_Output_def bind_out_Ret_iff split: option.splits)
  define out1 where "out1 = OutputBytes fixed (out_diag ds out)"
  have e1: "emits out out1 (getFixedLen bc)"
    using emits_OutputBytes [of "out_diag ds out" fixed] apply_fixups_length [OF fx] by (simp add: out1_def getFixedLen_def)
  have tail: "0 \<le> getTailOffset bc" "getTailOffset bc \<le> ULONG_MAX"
    using take_bit_int_less_exp [of 64 "bc_offset bc + getFixedLen bc"] by (simp_all add: getTailOffset_def limits)
  have "emits out1 out' (bc_len bc)"
  proof (cases "bc_contents bc")
    case None
    then show ?thesis using assms(1,2) fx by (auto simp: Bytecode_Output_def Let_def out1_def split: if_splits)
  next
    case (Some c)
    then obtain c' where "Contents_Output I env i (getFixedLen bc) (getTailOffset bc) c out1 = Ret (c', True, out')"
      using assms(1) fx by (auto simp: Bytecode_Output_def Let_def out1_def bind_out_Ret_iff split: if_splits)
    then show ?thesis using Some assms(2-4) tail by (intro Output_emits) (auto simp: bc_settled_def)
  qed
  then show ?thesis using emits_trans [OF e1] by blast
qed

lemma Bytecode_Output_asserts:
  assumes "apply_fixups I i (bo_big out) (bc_fixups bc) (bc_fixed bc) = Ret (Some fixed, ds)"
    "bc_contents bc = Some c" 
    "Contents_Output I env i (getFixedLen bc) (getTailOffset bc) c (OutputBytes fixed (out_diag ds out)) = Ret (c', True, out')"
    "bc_claim (getTailOffset bc) (bc_contents bc) (bc_len bc)" "bc_settled I env bc" "convert_ok I"
    "getFixedLen bc \<le> ULONG_MAX"
  shows "Bytecode_Output I env i bc out = Ret (bc\<lparr>bc_contents := Some c'\<rparr>, True, out')"
proof -
  define out1 where "out1 = OutputBytes fixed (out_diag ds out)"
  have e1: "emits out out1 (getFixedLen bc)"
    using emits_OutputBytes [of "out_diag ds out" fixed] apply_fixups_length [OF assms(1)] by (simp add: out1_def getFixedLen_def)
  have tail: "0 \<le> getTailOffset bc" "getTailOffset bc \<le> ULONG_MAX"
    using take_bit_int_less_exp [of 64 "bc_offset bc + getFixedLen bc"] by (simp_all add: getTailOffset_def limits)
  have "emits out1 out' (bc_len bc)" using assms tail by (intro Output_emits [OF assms(3) [folded out1_def]]) (auto simp: bc_settled_def)
  then have "emits out out' (getFixedLen bc + bc_len bc)" using emits_trans [OF e1] by blast
  then have "to_u64 (bo_num out' - bo_num out) = getTotalLen bc" by (simp add: emits_num getTotalLen_def)
  moreover have "to_u64 (bo_num out1 - bo_num out) = getFixedLen bc"
    using emits_num [OF e1] assms(7) by (simp add: to_u64_id getFixedLen_def)
  ultimately show ?thesis using assms(1-3) by (simp add: Bytecode_Output_def out1_def [symmetric] Let_def)
qed

section \<open>Lengths\<close>

lemma claims_len_shift:
  "Contents_getSpecial c = SPECIAL_NONE \<Longrightarrow> claims_len tail c len \<Longrightarrow> claims_len tail' c len"
  by (cases c) auto

lemma claims_len_unsigned:
  "claims_len tail c len \<Longrightarrow> wf_contents c \<Longrightarrow> 0 \<le> len"
proof (cases "Contents_getSpecial c")
  case SPECIAL_NONE
  assume "claims_len tail c len" "wf_contents c"
  then show ?thesis using SPECIAL_NONE
    by (cases c) (auto simp: fill_len_def Let_def jmp_short_len_def jmp_near_len_def jmp_near_disp_def split: if_splits)
qed (rule claims_len_nonneg)

text \<open>\<open>CalcLen\<close> gives a bytecode its length and \<open>Expand\<close> keeps it right.\<close>

definition bc_wf :: "'f Bytecode \<Rightarrow> bool" where
  "bc_wf bc \<longleftrightarrow> (case bc_contents bc of None \<Rightarrow> True | Some c \<Rightarrow> wf_contents c)"

lemma CalcLen_special: "Contents_CalcLen tail c = Ret (c', r, sp, ds) \<Longrightarrow> Contents_getSpecial c' = Contents_getSpecial c"
  by (cases c) (auto simp: bind_out_Ret_iff LEB128_CalcLen_def Jmp_CalcLen_def Let_def split: option.splits if_splits)

lemma Bytecode_CalcLen_sized:
  assumes "Bytecode_CalcLen bc = Ret (bc', True, sp, ds)" "bc_wf bc"
  shows "bc_sized bc' \<and> bc_offset bc' = bc_offset bc \<and> bc_fixed bc' = bc_fixed bc \<and> getSpecial bc' = getSpecial bc"
proof (cases "bc_contents bc")
  case None
  then show ?thesis using assms by (auto simp: Bytecode_CalcLen_def bc_sized_def getSpecial_def)
next
  case (Some c)
  then obtain c' len where e: "Contents_CalcLen (getTailOffset bc) c = Ret (c', Some len, sp, ds)" "bc' = bc\<lparr>bc_contents := Some c', bc_len := len\<rparr>"
    using assms(1) by (auto simp: Bytecode_CalcLen_def bind_out_Ret_iff split: option.splits)
  have "wf_contents c' \<and> claims_len (getTailOffset bc) c' len" using CalcLen_claims [OF e(1)] assms(2) Some by (simp add: bc_wf_def)
  then show ?thesis using CalcLen_special [OF e(1)] Some e(2) claims_len_unsigned claims_len_shift
    by (fastforce simp: bc_sized_def getSpecial_def)
qed

lemma Expand_special: "Contents_Expand c span nv io = Ret (c', r, ds) \<Longrightarrow> Contents_getSpecial c' = Contents_getSpecial c"
  by (cases c) (auto simp: bind_out_Ret_iff)

lemma Expand_wf: "Contents_Expand c span nv io = Ret (c', r, ds) \<Longrightarrow> wf_contents c \<Longrightarrow> wf_contents c'"
  by (cases c) (use SizeLEB128_range in \<open>auto simp: bind_out_Ret_iff LEB128_Expand_def Jmp_Expand_def Value_setSize_def Let_def split: if_splits\<close>)

lemma Bytecode_Expand_sized:
  assumes "Bytecode_Expand span nv io bc = Ret (bc', r, ds)" "bc_sized bc"
  shows "bc_sized bc' \<and> bc_offset bc' = bc_offset bc \<and> bc_fixed bc' = bc_fixed bc \<and> getSpecial bc' = getSpecial bc"
proof (cases "bc_contents bc")
  case None
  then show ?thesis using assms by (auto simp: Bytecode_Expand_def)
next
  case (Some c)
  then obtain c' where e: "Contents_Expand c span nv (io\<lparr>ex_len := bc_len bc\<rparr>) = Ret (c', r, ds)"
    "bc' = (case r of None \<Rightarrow> bc\<lparr>bc_contents := Some c'\<rparr> | Some io \<Rightarrow> bc\<lparr>bc_contents := Some c', bc_len := ex_len io\<rparr>)"
    using assms(1) by (auto simp: Bytecode_Expand_def bind_out_Ret_iff split: option.splits)
  have w: "wf_contents c" "Contents_getSpecial c = SPECIAL_NONE \<Longrightarrow> claims_len tail c (bc_len bc)" for tail
    using assms(2) Some by (auto simp: bc_sized_def)
  have s: "Contents_getSpecial c' = Contents_getSpecial c" "wf_contents c'" using Expand_special Expand_wf w e(1) by blast+
  show ?thesis
  proof (cases "Contents_getSpecial c")
    case SPECIAL_NONE
    then obtain io' where r: "r = Some io'" using e(1) by (cases c; cases r) (auto simp: bind_out_Ret_iff)
    have "claims_len tail c' (ex_len io')" for tail
      using Expand_claims [OF e(1) [unfolded r] w(1), of tail] w(2) SPECIAL_NONE by auto
    then show ?thesis using e(2) r s Some claims_len_unsigned by (fastforce simp: bc_sized_def getSpecial_def)
  next
    case SPECIAL_OFFSET
    then show ?thesis using e(2) s Some by (auto simp: bc_sized_def getSpecial_def split: option.splits)
  qed
qed

section \<open>Properties\<close>

text \<open>
  C10. Whatever is appended to a container, it keeps at least one bytecode, and the flag that
  lets gaps be merged is set only while the last bytecode is a gap.  An appended gap then
  reserves exactly its size, merged or not.
\<close>

theorem AppendGap_correct:
  assumes "built c" "0 \<le> n" "gap_total c + n \<le> ULONG_MAX"
    "\<forall>bc\<in>set (m_bcs c). \<forall>k. bc_contents bc = Some (GapBytecode k) \<longrightarrow> 0 \<le> k"
  shows "container_ok (AppendGap n c) \<and> gap_total (AppendGap n c) = gap_total c + n \<and>
     length (m_bcs (AppendGap n c)) =
       length (m_bcs c) + (if \<not> m_last_gap c \<and> hasContents (last (m_bcs c)) then 1 else 0)"
proof -
  have ok: "container_ok c" "container_ok (AppendGap n c)" using assms(1) built_ok built.gap by blast+
  then have "m_bcs c \<noteq> []" by (simp add: container_ok_def)
  then have "length (m_bcs (AppendGap n c)) = length (m_bcs c) + (if \<not> m_last_gap c \<and> hasContents (last (m_bcs c)) then 1 else 0)"
    by (auto simp: AppendGap_def update_last_def FreshBytecode_def StartBytecode_def)
  then show ?thesis using ok AppendGap_total [OF ok(1) assms(2-4)] by blast
qed

theorem AppendGap_correct_witness:
  "container_ok (AppendGap 5 (AppendGap 3 (BytecodeContainer_new :: unit BytecodeContainer))) \<and>
   gap_total (AppendGap 5 (AppendGap 3 (BytecodeContainer_new :: unit BytecodeContainer))) = 8"
proof -
  let ?c = "AppendGap 3 (BytecodeContainer_new :: unit BytecodeContainer)"
  have c: "m_bcs ?c = [Bytecode_new\<lparr>bc_contents := Some (GapBytecode 3)\<rparr>]"
    by (simp add: AppendGap_def BytecodeContainer_new_def StartBytecode_def FreshBytecode_def hasContents_def
        update_last_def Transform_def Bytecode_new_def)
  have "built ?c" by (intro built.gap built.new)
  moreover have "gap_total ?c = 3" by (simp add: gap_total_def gap_of_list_def c)
  ultimately show ?thesis using AppendGap_correct [of ?c 5] by (simp add: c limits)
qed

text \<open>
  C9. When \<^verbatim>\<open>UpdateOffsets\<close> reports nothing, the bytecodes are laid out without holes: the
  first is at 0, each begins where the previous one ends, and each has the length its
  contents claim at the place where it ends up (an alignment or an origin is computed anew).
\<close>

theorem UpdateOffsets_laid_out:
  assumes "UpdateOffsets c = Ret (c', [])" "\<forall>bc\<in>set (m_bcs c). bc_sized bc" "size_sum (m_bcs c') \<le> ULONG_MAX"
  shows "laid_out 0 (m_bcs c')"
proof -
  obtain b bs bcs' where u: "m_bcs c = b # bs" "update_offsets 0 (b\<lparr>bc_offset := 0\<rparr> # bs) = Ret (bcs', [])" "c' = c\<lparr>m_bcs := bcs'\<rparr>"
    using assms(1) by (auto simp: UpdateOffsets_def bind_out_Ret_iff split: list.splits)
  have "\<forall>bc\<in>set (b\<lparr>bc_offset := 0\<rparr> # bs). bc_sized bc" using assms(2) u(1) by (auto simp: bc_sized_def split: option.splits)
  then show ?thesis using update_offsets_laid_out [OF u(2)] assms(3) u(3) by simp
qed

text \<open>A section of three bytes, an alignment to 8, one byte and a gap of four.\<close>

definition sample_bcs :: "int \<Rightarrow> int \<Rightarrow> unit Bytecode list" where
  "sample_bcs len off =
     [Bytecode_new\<lparr>bc_fixed := [1, 2, 3], bc_contents := Some (AlignBytecode [mk_term (T_INT (SV 8)) 0] [] [] None), bc_len := len\<rparr>,
      Bytecode_new\<lparr>bc_fixed := [9], bc_contents := Some (GapBytecode 4), bc_len := 4, bc_offset := off\<rparr>]"

lemma sample_align_wf: "wf_contents (AlignBytecode [mk_term (T_INT (SV 8)) 0] [] [] None :: unit Contents)"
  by (simp add: int_expr_def expr_int_def isIntNum_def isType_def mk_term_def getIntNum_def sv_range_def limits)

lemma sample_align_claim: "claims_len 3 (AlignBytecode [mk_term (T_INT (SV 8)) 0] [] [] None :: unit Contents) 5"
  by code_simp

lemma sample_laid_out: "laid_out 0 (sample_bcs 5 8)"
  using sample_align_wf sample_align_claim
  by (simp add: sample_bcs_def Bytecode_new_def getFixedLen_def limits del: claims_len.simps(1) wf_contents.simps(1))

theorem UpdateOffsets_laid_out_witness: "laid_out 0 (sample_bcs 5 8)"
proof -
  have u: "UpdateOffsets \<lparr>m_bcs = sample_bcs 0 0, m_last_gap = True\<rparr> = Ret (\<lparr>m_bcs = sample_bcs 5 8, m_last_gap = True\<rparr>, [])"
    by code_simp
  have "\<forall>bc\<in>set (sample_bcs 0 0). bc_sized bc"
    using sample_align_wf by (simp add: sample_bcs_def bc_sized_def limits del: wf_contents.simps(1))
  moreover have "size_sum (sample_bcs 5 8) \<le> ULONG_MAX" by (simp add: size_sum_def sample_bcs_def Bytecode_new_def getFixedLen_def limits)
  ultimately show ?thesis using UpdateOffsets_laid_out [OF u] by simp
qed

end
