(* ===== verification/IntervalTree.thy ===== *)
theory IntervalTree
  imports Prelude "HOL-Library.Multiset"
begin

text \<open>
  \<^verbatim>\<open>include/yasmx/Support/IntervalTree.h\<close>: the red-black tree of closed intervals the
  optimizer keeps its span terms in.  The nodes' parent pointers are a zipper: a node is a
  subtree together with the frames above it, the innermost first, and the sentinel below the
  leaves is \<open>ITNil\<close>.  The sentinel above the root is the end of the frames.
\<close>

datatype 'a itree =
    ITNil
  | ITNode (it_red: bool) (it_left: "'a itree") (it_low: int) (it_high: int) (it_max: int) (it_data: 'a)
      (it_right: "'a itree")

fun maxHigh :: "'a itree \<Rightarrow> int" where
  "maxHigh ITNil = LONG_MIN"
| "maxHigh (ITNode c l lo hi m d r) = m"

fun is_red :: "'a itree \<Rightarrow> bool" where
  "is_red ITNil = False"
| "is_red (ITNode c l lo hi m d r) = c"

fun paint :: "bool \<Rightarrow> 'a itree \<Rightarrow> 'a itree" where
  "paint c ITNil = ITNil"
| "paint c (ITNode c' l lo hi m d r) = ITNode c l lo hi m d r"

section \<open>Nodes, rotations and the way up\<close>

definition IntervalTreeNode :: "int \<Rightarrow> int \<Rightarrow> 'a \<Rightarrow> 'a itree" where
  "IntervalTreeNode l h d =
     (if l < h then ITNode True ITNil l h h d ITNil else ITNode True ITNil h l h d ITNil)"

definition it_Max :: "int \<Rightarrow> int \<Rightarrow> int" where
  "it_Max a b = (if a > b then a else b)"

definition Overlap :: "int \<Rightarrow> int \<Rightarrow> int \<Rightarrow> int \<Rightarrow> bool" where
  "Overlap a1 a2 b1 b2 =
     (let a1 = to_s32 a1; a2 = to_s32 a2; b1 = to_s32 b1; b2 = to_s32 b2 in
      if a1 \<le> b1 then b1 \<le> a2 else a1 \<le> b2)"

text \<open>Rotations; a node without the child to be rotated up is not rotated by the code.\<close>

fun LeftRotate :: "'a itree \<Rightarrow> 'a itree" where
  "LeftRotate (ITNode xc a xlo xhi xm xd (ITNode yc b ylo yhi ym yd c)) =
     (let xm' = it_Max (maxHigh a) (it_Max (maxHigh b) xhi);
          ym' = it_Max xm' (it_Max (maxHigh c) yhi) in
      ITNode yc (ITNode xc a xlo xhi xm' xd b) ylo yhi ym' yd c)"
| "LeftRotate t = t"

fun RightRotate :: "'a itree \<Rightarrow> 'a itree" where
  "RightRotate (ITNode yc (ITNode xc a xlo xhi xm xd b) ylo yhi ym yd c) =
     (let ym' = it_Max (maxHigh b) (it_Max (maxHigh c) yhi);
          xm' = it_Max (maxHigh a) (it_Max ym' xhi) in
      ITNode xc a xlo xhi xm' xd (ITNode yc b ylo yhi ym' yd c))"
| "RightRotate t = t"

text \<open>\<open>LeftOf\<close> is a parent the focus is the left child of, with the parent's other fields.\<close>

datatype 'a frame =
    LeftOf (f_red: bool) int int int 'a "'a itree"
  | RightOf (f_red: bool) "'a itree" int int int 'a

fun up :: "'a itree \<Rightarrow> 'a frame \<Rightarrow> 'a itree" where
  "up t (LeftOf c lo hi m d r) = ITNode c t lo hi m d r"
| "up t (RightOf c l lo hi m d) = ITNode c l lo hi m d t"

fun plug :: "'a itree \<Rightarrow> 'a frame list \<Rightarrow> 'a itree" where
  "plug t [] = t"
| "plug t (f # fs) = plug (up t f) fs"

section \<open>Insertion\<close>

fun TreeInsertHelp :: "int \<Rightarrow> 'a itree \<Rightarrow> 'a frame list \<Rightarrow> 'a frame list" where
  "TreeInsertHelp z ITNil fs = fs"
| "TreeInsertHelp z (ITNode c l lo hi m d r) fs =
     (if lo > z then TreeInsertHelp z l (LeftOf c lo hi m d r # fs)
      else TreeInsertHelp z r (RightOf c l lo hi m d # fs))"

fun FixUpMaxHigh :: "int \<Rightarrow> 'a frame list \<Rightarrow> 'a frame list" where
  "FixUpMaxHigh below [] = []"
| "FixUpMaxHigh below (LeftOf c lo hi m d r # fs) =
     (let m' = it_Max hi (it_Max below (maxHigh r)) in LeftOf c lo hi m' d r # FixUpMaxHigh m' fs)"
| "FixUpMaxHigh below (RightOf c l lo hi m d # fs) =
     (let m' = it_Max hi (it_Max (maxHigh l) below) in RightOf c l lo hi m' d # FixUpMaxHigh m' fs)"

text \<open>
  The recolouring loop of \<open>Insert\<close>: the focus is \<open>x\<close>, the first frame its parent and the
  second its grandparent.  The parent of a root is the black sentinel; a root is black
  whenever the loop starts, so a single frame ends it.
\<close>

fun insert_fixup :: "'a itree \<Rightarrow> 'a frame list \<Rightarrow> 'a itree" where
  "insert_fixup x [] = x"
| "insert_fixup x [p] = plug x [p]"
| "insert_fixup x (p # LeftOf gc glo ghi gm gd y # fs) =
     (if \<not> f_red p then plug x (p # LeftOf gc glo ghi gm gd y # fs)
      else if is_red y then
        insert_fixup (ITNode True (paint False (up x p)) glo ghi gm gd (paint False y)) fs
      else
        let q = (case p of RightOf _ _ _ _ _ _ \<Rightarrow> LeftRotate (up x p) | _ \<Rightarrow> up x p) in
        plug (RightRotate (ITNode True (paint False q) glo ghi gm gd y)) fs)"
| "insert_fixup x (p # RightOf gc y glo ghi gm gd # fs) =
     (if \<not> f_red p then plug x (p # RightOf gc y glo ghi gm gd # fs)
      else if is_red y then
        insert_fixup (ITNode True (paint False y) glo ghi gm gd (paint False (up x p))) fs
      else
        let q = (case p of LeftOf _ _ _ _ _ _ \<Rightarrow> RightRotate (up x p) | _ \<Rightarrow> up x p) in
        plug (LeftRotate (ITNode True y glo ghi gm gd (paint False q))) fs)"

definition Insert :: "int \<Rightarrow> int \<Rightarrow> 'a \<Rightarrow> 'a itree \<Rightarrow> 'a itree" where
  "Insert low high data t =
     (let z = IntervalTreeNode low high data in
      paint False (insert_fixup z (FixUpMaxHigh (maxHigh z) (TreeInsertHelp (it_low z) t []))))"

section \<open>Enumeration\<close>

record 'a RecursionNode =
  start_node :: "'a itree"
  parentIndex :: nat
  tryRightBranch :: bool

definition mark_right :: "nat \<Rightarrow> 'a RecursionNode list \<Rightarrow> 'a RecursionNode list" where
  "mark_right i stack = stack[i := (stack ! i)\<lparr>tryRightBranch := True\<rparr>]"

text \<open>The inner loop pops the stack until a right branch is to be tried.\<close>

function pop_loop :: "'a itree \<Rightarrow> 'a RecursionNode list \<Rightarrow> nat \<Rightarrow> 'a itree \<times> 'a RecursionNode list \<times> nat" where
  "pop_loop x stack currentParent =
     (if x = ITNil \<and> 1 < length stack then
        let top = last stack; stack' = butlast stack in
        if tryRightBranch top
        then pop_loop (it_right (start_node top)) (mark_right (parentIndex top) stack') (parentIndex top)
        else pop_loop x stack' currentParent
      else (x, stack, currentParent))"
  by pat_completeness auto
termination by (relation "measure (\<lambda>(x, stack, cp). length stack)") (auto simp: mark_right_def)

declare pop_loop.simps [simp del]

text \<open>The work left: the nodes below the current one and below the pending right branches.\<close>

fun it_size :: "'a itree \<Rightarrow> nat" where
  "it_size ITNil = 0"
| "it_size (ITNode c l lo hi m d r) = Suc (it_size l + it_size r)"

definition pending :: "'a RecursionNode list \<Rightarrow> nat" where
  "pending stack = sum_list (List.map (\<lambda>e. Suc (2 * it_size (it_right (start_node e)))) (tl stack))"

lemma pending_mark [simp]: "pending (mark_right i stack) = pending stack"
proof -
  have "List.map (\<lambda>e. it_right (start_node e)) (mark_right i stack) = List.map (\<lambda>e. it_right (start_node e)) stack"
    by (rule nth_equalityI; cases "i < length stack") (auto simp: mark_right_def nth_list_update)
  then have "List.map (\<lambda>r. Suc (2 * it_size r)) (tl (List.map (\<lambda>e. it_right (start_node e)) (mark_right i stack))) =
    List.map (\<lambda>r. Suc (2 * it_size r)) (tl (List.map (\<lambda>e. it_right (start_node e)) stack))" by simp
  then show ?thesis by (simp add: pending_def map_tl comp_def)
qed

lemma pending_snoc: "stack \<noteq> [] \<Longrightarrow> pending (stack @ [e]) = pending stack + Suc (2 * it_size (it_right (start_node e)))"
  by (cases stack) (simp_all add: pending_def)

lemma mark_right_Nil_iff [simp]: "mark_right i stack = [] \<longleftrightarrow> stack = []"
  by (simp add: mark_right_def)

lemma pop_loop_simps:
  "x \<noteq> ITNil \<Longrightarrow> pop_loop x stack cp = (x, stack, cp)"
  "stack \<noteq> [] \<Longrightarrow> pop_loop ITNil (stack @ [e]) cp =
     (if tryRightBranch e
      then pop_loop (it_right (start_node e)) (mark_right (parentIndex e) stack) (parentIndex e)
      else pop_loop ITNil stack cp)"
  "length stack \<le> 1 \<Longrightarrow> pop_loop x stack cp = (x, stack, cp)"
  by (subst pop_loop.simps; simp add: Let_def)+

lemma pop_loop_work:
  "stack \<noteq> [] \<Longrightarrow> pop_loop x stack cp = (x', stack', cp') \<Longrightarrow>
     2 * it_size x' + pending stack' \<le> 2 * it_size x + pending stack \<and> stack' \<noteq> []"
proof (induction "length stack" arbitrary: x stack cp)
  case (Suc n)
  show ?case
  proof (cases "x = ITNil \<and> 1 < length stack")
    case True
    then obtain e st where st: "stack = st @ [e]" "st \<noteq> []" by (cases stack rule: rev_cases) auto
    then have n: "n = length st" "n = length (mark_right (parentIndex e) st)" using Suc by (simp_all add: mark_right_def)
    show ?thesis
    proof (cases "tryRightBranch e")
      case True
      then show ?thesis
        using Suc(1) [OF n(2)] Suc.prems st \<open>x = ITNil \<and> _\<close> by (fastforce simp: pop_loop_simps pending_snoc)
    next
      case False
      then show ?thesis
        using Suc(1) [OF n(1)] Suc.prems st \<open>x = ITNil \<and> _\<close> by (fastforce simp: pop_loop_simps pending_snoc)
    qed
  next
    case False
    then show ?thesis using Suc.prems by (cases "x = ITNil") (auto simp: pop_loop_simps not_less)
  qed
qed simp

text \<open>
  The outer loop.  The result is the list of the data the callback is called with, in order;
  the callbacks of the optimizer leave the tree alone.  A stack without the entry made at
  the start does not occur.
\<close>

function enum_loop :: "int \<Rightarrow> int \<Rightarrow> 'a itree \<Rightarrow> 'a RecursionNode list \<Rightarrow> nat \<Rightarrow> 'a list" where
  "enum_loop low high ITNil stack currentParent = []"
| "enum_loop low high (ITNode c l lo hi m d r) stack currentParent =
     (if stack = [] then [] else
      let hit = Overlap low high lo hi;
          stack1 = (if hit then mark_right currentParent stack else stack);
          (x2, stack2, cp2) =
            (if maxHigh l \<ge> low
             then (l, stack1 @ [\<lparr>start_node = ITNode c l lo hi m d r, parentIndex = currentParent,
                                 tryRightBranch = False\<rparr>], length stack1)
             else (r, stack1, currentParent));
          (x3, stack3, cp3) = pop_loop x2 stack2 cp2 in
      (if hit then [d] else []) @ enum_loop low high x3 stack3 cp3)"
  by pat_completeness auto
termination
proof (relation "measure (\<lambda>(low, high, x, stack, cp). 2 * it_size x + pending stack)")
  fix low high lo hi m :: int and c :: bool and l r :: "'a itree" and d :: 'a and stack cp hit stack1 p x2 q stack2 cp2 p' x3 q' stack3 cp3
  assume ne: "stack \<noteq> []" and hit: "hit = Overlap low high lo hi"
    and s1: "stack1 = (if hit then mark_right cp stack else stack)"
    and p: "p = (if maxHigh l \<ge> low
             then (l, stack1 @ [\<lparr>start_node = ITNode c l lo hi m d r, parentIndex = cp, tryRightBranch = False\<rparr>], length stack1)
             else (r, stack1, cp))" "(x2, q) = p" "(stack2, cp2) = q"
    and p': "p' = pop_loop x2 stack2 cp2" "(x3, q') = p'" "(stack3, cp3) = q'"
  have s1': "stack1 \<noteq> []" "pending stack1 = pending stack" using ne s1 by auto
  have "stack2 \<noteq> []" "2 * it_size x2 + pending stack2 < 2 * it_size (ITNode c l lo hi m d r) + pending stack"
    using p s1' by (auto simp: pending_snoc split: if_splits)
  moreover have "2 * it_size x3 + pending stack3 \<le> 2 * it_size x2 + pending stack2"
    using pop_loop_work [of stack2 x2 cp2 x3 stack3 cp3] p' calculation(1) by simp
  ultimately show "((low, high, x3, stack3, cp3), low, high, ITNode c l lo hi m d r, stack, cp) \<in>
      measure (\<lambda>(low, high, x, stack, cp). 2 * it_size x + pending stack)"
    by simp
qed simp

definition Enumerate :: "int \<Rightarrow> int \<Rightarrow> 'a itree \<Rightarrow> 'a list" where
  "Enumerate low high t =
     enum_loop low high t [\<lparr>start_node = ITNil, parentIndex = 0, tryRightBranch = False\<rparr>] 0"

end
