(* ===== verification/IntervalTree_Correct.thy ===== *)
theory IntervalTree_Correct
  imports IntervalTree
begin

text \<open>
  The interval tree against a multiset of intervals.  \<open>inorder\<close> lists the intervals of a
  tree; the invariants (order, greatest high ends, colours) are stated for trees and for the
  frames above a focus, and \<open>plug\<close> relates the two.  \<open>interval_store\<close> is the interface the
  optimizer uses, interpreted on the tree.
\<close>

section \<open>Contents and order\<close>

fun inorder :: "'a itree \<Rightarrow> (int \<times> int \<times> 'a) list" where
  "inorder ITNil = []"
| "inorder (ITNode c l lo hi m d r) = inorder l @ (lo, hi, d) # inorder r"

fun f_before :: "'a frame \<Rightarrow> (int \<times> int \<times> 'a) list" where
  "f_before (LeftOf c lo hi m d r) = []"
| "f_before (RightOf c l lo hi m d) = inorder l @ [(lo, hi, d)]"

fun f_after :: "'a frame \<Rightarrow> (int \<times> int \<times> 'a) list" where
  "f_after (LeftOf c lo hi m d r) = (lo, hi, d) # inorder r"
| "f_after (RightOf c l lo hi m d) = []"

definition before :: "'a frame list \<Rightarrow> (int \<times> int \<times> 'a) list" where
  "before fs = concat (rev (List.map f_before fs))"

definition after :: "'a frame list \<Rightarrow> (int \<times> int \<times> 'a) list" where
  "after fs = concat (List.map f_after fs)"

fun max_ok :: "'a itree \<Rightarrow> bool" where
  "max_ok ITNil = True"
| "max_ok (ITNode c l lo hi m d r) \<longleftrightarrow> m = max hi (max (maxHigh l) (maxHigh r)) \<and> max_ok l \<and> max_ok r"

fun f_max_ok :: "int \<Rightarrow> 'a frame list \<Rightarrow> bool" where
  "f_max_ok below [] = True"
| "f_max_ok below (LeftOf c lo hi m d r # fs) \<longleftrightarrow>
     m = max hi (max below (maxHigh r)) \<and> max_ok r \<and> f_max_ok m fs"
| "f_max_ok below (RightOf c l lo hi m d # fs) \<longleftrightarrow>
     m = max hi (max (maxHigh l) below) \<and> max_ok l \<and> f_max_ok m fs"

fun invc :: "'a itree \<Rightarrow> bool" where
  "invc ITNil = True"
| "invc (ITNode c l lo hi m d r) \<longleftrightarrow> (c \<longrightarrow> \<not> is_red l \<and> \<not> is_red r) \<and> invc l \<and> invc r"

fun bheight :: "'a itree \<Rightarrow> nat" where
  "bheight ITNil = 0"
| "bheight (ITNode c l lo hi m d r) = bheight l + (if c then 0 else 1)"

fun invh :: "'a itree \<Rightarrow> bool" where
  "invh ITNil = True"
| "invh (ITNode c l lo hi m d r) \<longleftrightarrow> bheight l = bheight r \<and> invh l \<and> invh r"

fun f_invc :: "bool \<Rightarrow> 'a frame list \<Rightarrow> bool" where
  "f_invc below [] = True"
| "f_invc below (LeftOf c lo hi m d r # fs) \<longleftrightarrow> (c \<longrightarrow> \<not> below \<and> \<not> is_red r) \<and> invc r \<and> f_invc c fs"
| "f_invc below (RightOf c l lo hi m d # fs) \<longleftrightarrow> (c \<longrightarrow> \<not> below \<and> \<not> is_red l) \<and> invc l \<and> f_invc c fs"

fun f_invh :: "nat \<Rightarrow> 'a frame list \<Rightarrow> bool" where
  "f_invh below [] = True"
| "f_invh below (LeftOf c lo hi m d r # fs) \<longleftrightarrow>
     below = bheight r \<and> invh r \<and> f_invh (below + (if c then 0 else 1)) fs"
| "f_invh below (RightOf c l lo hi m d # fs) \<longleftrightarrow>
     bheight l = below \<and> invh l \<and> f_invh (bheight l + (if c then 0 else 1)) fs"

definition rb_ok :: "'a itree \<Rightarrow> bool" where
  "rb_ok t \<longleftrightarrow> invc t \<and> invh t \<and> \<not> is_red t"

definition itree_ok :: "'a itree \<Rightarrow> bool" where
  "itree_ok t \<longleftrightarrow> sorted (List.map fst (inorder t)) \<and> max_ok t \<and> rb_ok t \<and>
     list_all (\<lambda>(lo, hi, d). LONG_MIN \<le> lo \<and> lo \<le> hi) (inorder t)"

lemma it_Max_eq [simp]: "it_Max a b = max a b"
  by (simp add: it_Max_def max_def)

lemma paint_simps [simp]:
  "inorder (paint c t) = inorder t" "maxHigh (paint c t) = maxHigh t" "max_ok (paint c t) = max_ok t"
  "invh (paint c t) = invh t" "invc t \<Longrightarrow> invc (paint False t)" "\<not> is_red (paint False t)" 
  by (cases t; simp)+

lemma inorder_up [simp]: "inorder (up t f) = f_before f @ inorder t @ f_after f"
  by (cases f) auto

lemma before_after_simps [simp]: "before [] = []" "after [] = []"
  "before (f # fs) = before fs @ f_before f" "after (f # fs) = f_after f @ after fs"
  by (simp_all add: before_def after_def)

lemma inorder_plug: "inorder (plug t fs) = before fs @ inorder t @ after fs"
  by (induction fs arbitrary: t) auto

lemma inorder_rotate [simp]: "inorder (LeftRotate t) = inorder t" "inorder (RightRotate t) = inorder t"
  by (cases t rule: LeftRotate.cases; simp add: Let_def) (cases t rule: RightRotate.cases; simp add: Let_def)

lemma inorder_insert_fixup: "inorder (insert_fixup x fs) = before fs @ inorder x @ after fs"
  by (induction x fs rule: insert_fixup.induct) (auto simp: inorder_plug Let_def split: frame.splits)

lemma before_after_FixUpMaxHigh [simp]: "before (FixUpMaxHigh b fs) = before fs" "after (FixUpMaxHigh b fs) = after fs"
  by (induction b fs rule: FixUpMaxHigh.induct) (auto simp: Let_def)

lemma plug_TreeInsertHelp: "plug ITNil (TreeInsertHelp z t fs) = plug t fs"
  by (induction z t fs rule: TreeInsertHelp.induct) auto

lemma sorted_around:
  assumes "sorted (List.map f (ps @ (xs @ y # zs) @ qs))"
  shows "\<forall>e\<in>set xs. f e \<le> f y" "\<forall>e\<in>set zs. f y \<le> f e"
  using assms by (simp_all add: sorted_append)

lemma TreeInsertHelp_order:
  assumes "sorted (List.map fst (before fs @ inorder t @ after fs))"
    "\<forall>e\<in>set (before fs). fst e \<le> z" "\<forall>e\<in>set (after fs). z < fst e"
  shows "(\<forall>e\<in>set (before (TreeInsertHelp z t fs)). fst e \<le> z) \<and> (\<forall>e\<in>set (after (TreeInsertHelp z t fs)). z < fst e)"
  using assms
proof (induction z t fs rule: TreeInsertHelp.induct)
  case (2 z c l lo hi m d r fs)
  show ?case
  proof (cases "lo > z")
    case True
    let ?f = "LeftOf c lo hi m d r"
    have so: "sorted (List.map fst (before (?f # fs) @ inorder l @ after (?f # fs)))" using 2(3) by simp
    have "\<forall>e\<in>set (inorder r). lo \<le> fst e" using sorted_around(2) [OF 2(3) [unfolded inorder.simps]] by simp
    then have after: "\<forall>e\<in>set (after (?f # fs)). z < fst e" using True 2(5) by auto
    have before: "\<forall>e\<in>set (before (?f # fs)). fst e \<le> z" using 2(4) by simp
    show ?thesis using 2(1) [OF True so before after] True by simp
  next
    case False
    let ?f = "RightOf c l lo hi m d"
    have so: "sorted (List.map fst (before (?f # fs) @ inorder r @ after (?f # fs)))" using 2(3) by simp
    have "\<forall>e\<in>set (inorder l). fst e \<le> lo" using sorted_around(1) [OF 2(3) [unfolded inorder.simps]] by simp
    then have before: "\<forall>e\<in>set (before (?f # fs)). fst e \<le> z" using False 2(4) by auto
    have after: "\<forall>e\<in>set (after (?f # fs)). z < fst e" using 2(5) by simp
    show ?thesis using 2(2) [OF False so before after] False by simp
  qed
qed simp

lemma inorder_Insert:
  assumes "sorted (List.map fst (inorder t))"
  shows "\<exists>xs ys. inorder t = xs @ ys \<and> inorder (Insert low high d t) = xs @ (min low high, max low high, d) # ys \<and>
    (\<forall>e\<in>set xs. fst e \<le> min low high) \<and> (\<forall>e\<in>set ys. min low high < fst e)"
proof -
  define z where "z = IntervalTreeNode low high d"
  define fs where "fs = TreeInsertHelp (it_low z) t []"
  have z: "inorder z = [(min low high, max low high, d)]" "it_low z = min low high" by (auto simp: z_def IntervalTreeNode_def)
  have "inorder t = before fs @ after fs"
    using plug_TreeInsertHelp [of "it_low z" t "[]"] inorder_plug [of ITNil fs] by (simp add: fs_def)
  moreover have "inorder (Insert low high d t) = before fs @ inorder z @ after fs"
    by (simp add: Insert_def Let_def inorder_insert_fixup fs_def z_def)
  ultimately show ?thesis
    using TreeInsertHelp_order [of "[]" t "it_low z"] assms z by (intro exI [of _ "before fs"] exI [of _ "after fs"]) (simp add: fs_def)
qed

lemma max_ok_up: "max_ok (plug t fs) \<longleftrightarrow> max_ok t \<and> f_max_ok (maxHigh t) fs"
proof (induction fs arbitrary: t)
  case (Cons f fs) then show ?case by (cases f) auto
qed simp

lemma f_max_ok_FixUp: "f_max_ok a fs \<Longrightarrow> f_max_ok b (FixUpMaxHigh b fs)"
  by (induction b fs arbitrary: a rule: FixUpMaxHigh.induct) (auto simp: Let_def)

lemma max_ok_rotate:
  "max_ok t \<Longrightarrow> max_ok (LeftRotate t) \<and> maxHigh (LeftRotate t) = maxHigh t"
  "max_ok t \<Longrightarrow> max_ok (RightRotate t) \<and> maxHigh (RightRotate t) = maxHigh t"
  by (cases t rule: LeftRotate.cases; auto simp: Let_def max_def) (cases t rule: RightRotate.cases; auto simp: Let_def max_def)

lemma max_ok_insert_fixup: "max_ok x \<Longrightarrow> f_max_ok (maxHigh x) fs \<Longrightarrow> max_ok (insert_fixup x fs)"
proof (induction x fs rule: insert_fixup.induct)
  case (3 x p gc glo ghi gm gd y fs)
  have p: "max_ok (up x p) \<and> maxHigh (up x p) = maxHigh (up x p)" "f_max_ok (maxHigh (up x p)) (LeftOf gc glo ghi gm gd y # fs)"
    using 3(2,3) by (cases p; simp)+
  let ?q = "case p of RightOf _ _ _ _ _ _ \<Rightarrow> LeftRotate (up x p) | _ \<Rightarrow> up x p"
  have q: "max_ok ?q" "maxHigh ?q = maxHigh (up x p)" using max_ok_rotate(1) [of "up x p"] p by (cases p; simp)+
  have g: "max_ok (ITNode True (paint False ?q) glo ghi gm gd y)" using q p by simp
  show ?case
  proof (cases "f_red p \<and> \<not> is_red y")
    case True
    then show ?thesis using max_ok_rotate(2) [OF g] p by (auto simp: max_ok_up Let_def)
  next
    case False
    then show ?thesis using 3 p by (auto simp: max_ok_up)
  qed
next
  case (4 x p gc y glo ghi gm gd fs)
  have p: "max_ok (up x p) \<and> maxHigh (up x p) = maxHigh (up x p)" "f_max_ok (maxHigh (up x p)) (RightOf gc y glo ghi gm gd # fs)"
    using 4(2,3) by (cases p; simp)+
  let ?q = "case p of LeftOf _ _ _ _ _ _ \<Rightarrow> RightRotate (up x p) | _ \<Rightarrow> up x p"
  have q: "max_ok ?q" "maxHigh ?q = maxHigh (up x p)" using max_ok_rotate(2) [of "up x p"] p by (cases p; simp)+
  have g: "max_ok (ITNode True y glo ghi gm gd (paint False ?q))" using q p by simp
  show ?case
  proof (cases "f_red p \<and> \<not> is_red y")
    case True
    then show ?thesis using max_ok_rotate(1) [OF g] p by (auto simp: max_ok_up Let_def)
  next
    case False
    then show ?thesis using 4 p by (auto simp: max_ok_up)
  qed
next
  case (2 x p)
  then show ?case by (cases p) simp_all
qed simp

section \<open>Colours\<close>

lemma invc_plug: "invc (plug t fs) \<longleftrightarrow> invc t \<and> f_invc (is_red t) fs"
proof (induction fs arbitrary: t)
  case (Cons f fs) then show ?case by (cases f) auto
qed simp

lemma invh_plug: "invh (plug t fs) \<longleftrightarrow> invh t \<and> f_invh (bheight t) fs"
proof (induction fs arbitrary: t)
  case (Cons f fs) then show ?case by (cases f) auto
qed simp

lemma is_red_plug: "is_red (plug t fs) = (if fs = [] then is_red t else f_red (last fs))"
proof (induction fs arbitrary: t)
  case (Cons f fs) then show ?case by (cases f) auto
qed simp

lemma FixUpMaxHigh_colours [simp]:
  "f_invc c (FixUpMaxHigh b fs) = f_invc c fs" "f_invh n (FixUpMaxHigh b fs) = f_invh n fs"
  "(FixUpMaxHigh b fs = []) = (fs = [])"
  by (induction b fs arbitrary: c n rule: FixUpMaxHigh.induct) (auto simp: Let_def)

lemma FixUpMaxHigh_last [simp]: "fs \<noteq> [] \<Longrightarrow> f_red (last (FixUpMaxHigh b fs)) = f_red (last fs)"
  by (induction b fs rule: FixUpMaxHigh.induct) (auto simp: Let_def)

lemma bheight_paint: "t \<noteq> ITNil \<Longrightarrow> is_red t \<Longrightarrow> bheight (paint False t) = Suc (bheight t)"
  "is_red t \<Longrightarrow> bheight (paint False t) = Suc (bheight t)"
  by (cases t; simp)+

lemma f_inv_mono: "f_invc c fs \<Longrightarrow> f_invc False fs"
  by (cases "(c, fs)" rule: f_invc.cases) auto

lemma rb_insert_fixup:
  assumes "is_red x" "invc x" "invh x" "f_invc False fs" "f_invh (bheight x) fs" "fs \<noteq> [] \<longrightarrow> \<not> f_red (last fs)"
  shows "rb_ok (paint False (insert_fixup x fs))"
  using assms
proof (induction x fs rule: insert_fixup.induct)
  case (1 x)
  then show ?case by (simp add: rb_ok_def)
next
  case (2 x p)
  then show ?case by (cases p) (auto simp: rb_ok_def)
next
  case (3 x p gc glo ghi gm gd y fs)
  show ?case
  proof (cases "f_red p")
    case False
    then have "f_invc True (p # LeftOf gc glo ghi gm gd y # fs)" using 3 by (cases p) auto
    then show ?thesis using False 3 by (auto simp: rb_ok_def invc_plug invh_plug simp del: plug.simps)
  next
    case red: True
    note ih = 3(1)
    show ?thesis
    proof (cases "is_red y")
      case True
      then show ?thesis using red 3 bheight_paint(2) [of y]
        by (cases p) (auto simp: rb_ok_def split: if_splits)
    next
      case False
      obtain c l lo hi m d r where x: "x = ITNode c l lo hi m d r" using 3(2) by (cases x) auto
      show ?thesis using red False 3 x f_inv_mono [of False fs]
        by (cases p) (auto simp: rb_ok_def invc_plug invh_plug Let_def split: if_splits)
    qed
  qed
next
  case (4 x p gc y glo ghi gm gd fs)
  show ?case
  proof (cases "f_red p")
    case False
    then have "f_invc True (p # RightOf gc y glo ghi gm gd # fs)" using 4 by (cases p) auto
    then show ?thesis using False 4 by (auto simp: rb_ok_def invc_plug invh_plug simp del: plug.simps)
  next
    case red: True
    show ?thesis
    proof (cases "is_red y")
      case True
      then show ?thesis using red 4 bheight_paint(2) [of y]
        by (cases p) (auto simp: rb_ok_def split: if_splits)
    next
      case False
      obtain c l lo hi m d r where x: "x = ITNode c l lo hi m d r" using 4(2) by (cases x) auto
      show ?thesis using red False 4 x f_inv_mono [of False fs]
        by (cases p) (auto simp: rb_ok_def invc_plug invh_plug Let_def split: if_splits)
    qed
  qed
qed

lemma itree_ok_Insert:
  assumes "itree_ok t" "LONG_MIN \<le> low" "low \<le> high"
  shows "itree_ok (Insert low high d t)"
proof -
  define z where "z = IntervalTreeNode low high d"
  define fs where "fs = TreeInsertHelp (it_low z) t []"
  have z: "maxHigh z = high" "max_ok z" "is_red z" "invc z" "invh z" "bheight z = 0" using assms(2,3) by (auto simp: z_def IntervalTreeNode_def)
  have t: "plug ITNil fs = t" using plug_TreeInsertHelp [of "it_low z" t "[]"] by (simp add: fs_def)
  have "f_max_ok LONG_MIN fs" "f_invc False fs" "f_invh 0 fs" "fs \<noteq> [] \<longrightarrow> \<not> f_red (last fs)"
    using assms(1) unfolding itree_ok_def rb_ok_def t [symmetric] max_ok_up invc_plug invh_plug is_red_plug by auto
  then have "max_ok (insert_fixup z (FixUpMaxHigh (maxHigh z) fs))" "rb_ok (paint False (insert_fixup z (FixUpMaxHigh (maxHigh z) fs)))"
    using z by (auto intro!: max_ok_insert_fixup rb_insert_fixup f_max_ok_FixUp)
  then have "max_ok (Insert low high d t)" "rb_ok (Insert low high d t)" by (simp_all add: Insert_def Let_def z_def fs_def)
  moreover obtain xs ys where xs: "inorder t = xs @ ys" "inorder (Insert low high d t) = xs @ (low, high, d) # ys"
    "\<forall>e\<in>set xs. fst e \<le> low" "\<forall>e\<in>set ys. low < fst e"
    using inorder_Insert [of t low high d] assms by (auto simp: itree_ok_def min_absorb1 max_absorb2)
  ultimately show ?thesis using assms by (auto simp: itree_ok_def sorted_append)
qed

section \<open>Enumeration\<close>

fun visit :: "int \<Rightarrow> int \<Rightarrow> 'a itree \<Rightarrow> 'a list" where
  "visit low high ITNil = []"
| "visit low high (ITNode c l lo hi m d r) =
     (if Overlap low high lo hi then [d] else []) @
     (if maxHigh l \<ge> low
      then visit low high l @ (if visit low high l \<noteq> [] then visit low high r else [])
      else visit low high r)"

definition mark_if :: "bool \<Rightarrow> nat \<Rightarrow> 'a RecursionNode list \<Rightarrow> 'a RecursionNode list" where
  "mark_if b i stack = (if b then mark_right i stack else stack)"

definition resume :: "int \<Rightarrow> int \<Rightarrow> 'a itree \<Rightarrow> 'a RecursionNode list \<Rightarrow> 'a list" where
  "resume low high x stack =
     (let (x', stack', cp') = pop_loop x stack (length stack - 1) in enum_loop low high x' stack' cp')"

lemma length_mark_right [simp]: "length (mark_right i stack) = length stack"
  by (simp add: mark_right_def)

lemma mark_right_snoc:
  "mark_right (length stack) (stack @ [e]) = stack @ [e\<lparr>tryRightBranch := True\<rparr>]"
  by (simp add: mark_right_def)

lemma mark_right_idem: "mark_right i (mark_right i stack) = mark_right i stack"
  by (cases "i < length stack") (simp_all add: mark_right_def list_update_beyond)

lemma pop_loop_cp:
  "pop_loop ITNil stack cp = (x', stack', cp') \<Longrightarrow> x' \<noteq> ITNil \<Longrightarrow> pop_loop ITNil stack cp2 = (x', stack', cp')"
proof (induction stack arbitrary: cp cp2 rule: rev_induct)
  case (snoc e stack)
  then show ?case by (cases "stack = []") (auto simp: pop_loop_simps split: if_splits)
qed (auto simp: pop_loop_simps)

lemma enum_loop_ITNil_cp:
  fixes stack :: "'a RecursionNode list" and cp cpb :: nat and low high :: int
  shows "(case pop_loop ITNil stack cp of (x', stack', cp') \<Rightarrow> enum_loop low high x' stack' cp') =
   (case pop_loop ITNil stack cpb of (x', stack', cp') \<Rightarrow> enum_loop low high x' stack' cp')"
proof -
  obtain x' s' c' where 1: "pop_loop ITNil stack cp = (x', s', c')" by (metis prod_cases3)
  obtain x2 s2 c2 where 2: "pop_loop ITNil stack cpb = (x2, s2, c2)" by (metis prod_cases3)
  show ?thesis using pop_loop_cp [OF 1, of cpb] pop_loop_cp [OF 2, of cp] 1 2 by (cases "x' = ITNil"; cases "x2 = ITNil") auto
qed

lemma resume_visit:
  assumes "stack \<noteq> []" "\<forall>i < length stack. parentIndex (stack ! i) = i - 1"
  shows "resume low high x stack =
     visit low high x @ resume low high ITNil (mark_if (visit low high x \<noteq> []) (length stack - 1) stack)"
  using assms
proof (induction x arbitrary: stack)
  case ITNil
  then show ?case by (simp add: mark_if_def)
next
  case (ITNode c l lo hi m d r)
  let ?x = "ITNode c l lo hi m d r" and ?n = "length stack - 1" and ?hit = "Overlap low high lo hi"
  define s1 where "s1 = mark_if ?hit ?n stack"
  have s1: "s1 \<noteq> []" "length s1 = length stack" "\<forall>i < length s1. parentIndex (s1 ! i) = i - 1"
    using ITNode(3,4) by (auto simp: s1_def mark_if_def mark_right_def nth_list_update)
  define e where "e = \<lparr>start_node = ?x, parentIndex = ?n, tryRightBranch = False\<rparr>"
  have s2: "\<forall>i < length (s1 @ [e]). parentIndex ((s1 @ [e]) ! i) = i - 1"
    using s1 ITNode(3) by (auto simp: nth_append e_def)
  have step: "resume low high ?x stack = (if ?hit then [d] else []) @
     (if maxHigh l \<ge> low then resume low high l (s1 @ [e]) else resume low high r s1)"
    using ITNode(3) s1(2) by (simp add: resume_def pop_loop_simps mark_if_def s1_def e_def Let_def split: prod.split)
  have marks: "mark_right ?n s1 = mark_right ?n stack" by (simp add: s1_def mark_if_def mark_right_idem)
  show ?case
  proof (cases "maxHigh l \<ge> low")
    case True
    have "resume low high l (s1 @ [e]) = visit low high l @ resume low high ITNil (mark_if (visit low high l \<noteq> []) (length s1) (s1 @ [e]))"
      using ITNode.IH(1) [OF _ s2] by simp
    also have "resume low high ITNil (mark_if (visit low high l \<noteq> []) (length s1) (s1 @ [e])) =
      (if visit low high l \<noteq> [] then resume low high r (mark_right ?n s1) else resume low high ITNil s1)"
      using s1 mark_right_snoc [of s1] enum_loop_ITNil_cp [where stack = s1 and cp = "length s1" and cpb = "length s1 - 1"]
      by (simp add: resume_def mark_if_def pop_loop_simps e_def)
    finally have l: "resume low high l (s1 @ [e]) = visit low high l @
      (if visit low high l \<noteq> [] then resume low high r (mark_right ?n s1) else resume low high ITNil s1)" .
    have "\<forall>i < length (mark_right ?n s1). parentIndex (mark_right ?n s1 ! i) = i - 1"
      using s1 by (auto simp: mark_right_def nth_list_update)
    then have r: "resume low high r (mark_right ?n s1) = visit low high r @ resume low high ITNil (mark_right ?n s1)"
      using ITNode.IH(2) [of "mark_right ?n s1"] s1 by (auto simp: mark_if_def mark_right_idem)
    show ?thesis using True unfolding step l r by (auto simp: marks mark_if_def s1_def mark_right_idem)
  next
    case False
    have "resume low high r s1 = visit low high r @ resume low high ITNil (mark_if (visit low high r \<noteq> []) ?n s1)"
      using ITNode.IH(2) [OF s1(1,3)] s1(2) by simp
    then show ?thesis using False unfolding step by (auto simp: mark_if_def marks s1_def mark_right_idem)
  qed
qed

lemma Enumerate_visit: "Enumerate low high t = visit low high t"
proof -
  have "Enumerate low high t = resume low high t [\<lparr>start_node = ITNil, parentIndex = 0, tryRightBranch = False\<rparr>]"
    by (simp add: Enumerate_def resume_def pop_loop_simps)
  then show ?thesis
    using resume_visit [of "[\<lparr>start_node = ITNil, parentIndex = 0, tryRightBranch = False\<rparr>]" low high t]
    by (auto simp: resume_def pop_loop_simps mark_if_def mark_right_def)
qed

definition int_range :: "int \<Rightarrow> bool" where
  "int_range v \<longleftrightarrow> - 2147483648 \<le> v \<and> v < 2147483648"

definition hits :: "int \<Rightarrow> int \<Rightarrow> (int \<times> int \<times> 'a) \<Rightarrow> bool" where
  "hits low high e \<longleftrightarrow> (case e of (lo, hi, d) \<Rightarrow> lo \<le> high \<and> low \<le> hi)"

lemma Overlap_hits:
  assumes "int_range low" "int_range high" "int_range lo" "int_range hi" "low \<le> high" "lo \<le> hi"
  shows "Overlap low high lo hi \<longleftrightarrow> hits low high (lo, hi, d)"
  using assms by (auto simp: Overlap_def Let_def int_range_def hits_def signed_take_bit_int_eq_self)

lemma max_ok_bound: "max_ok t \<Longrightarrow> (lo, hi, d) \<in> set (inorder t) \<Longrightarrow> hi \<le> maxHigh t"
  by (induction t) fastforce+

lemma max_ok_attained: "max_ok t \<Longrightarrow> maxHigh t \<noteq> LONG_MIN \<Longrightarrow> \<exists>lo d. (lo, maxHigh t, d) \<in> set (inorder t)"
proof (induction t)
  case (ITNode c l lo hi m d r)
  then have m: "m = hi \<or> m = maxHigh l \<or> m = maxHigh r" by (auto simp: max_def)
  then show ?case using ITNode by (elim disjE) fastforce+
qed simp

lemma visit_correct:
  assumes "sorted (List.map fst (inorder t))" "max_ok t" "low \<le> high" "int_range low" "int_range high"
    "list_all (\<lambda>(lo, hi, d). lo \<le> hi \<and> int_range lo \<and> int_range hi) (inorder t)"
  shows "mset (visit low high t) = image_mset (\<lambda>e. snd (snd e)) (filter_mset (hits low high) (mset (inorder t)))"
  using assms
proof (induction t)
  case (ITNode c l lo hi m d r)
  let ?I = "\<lambda>t. image_mset (\<lambda>e. snd (snd e)) (filter_mset (hits low high) (mset (inorder t)))"
  have IH: "mset (visit low high l) = ?I l" "mset (visit low high r) = ?I r"
    using ITNode by (auto simp: sorted_append)
  have ov: "Overlap low high lo hi = hits low high (lo, hi, d)"
    using ITNode.prems by (intro Overlap_hits) auto
  show ?case
  proof (cases "maxHigh l \<ge> low")
    case False
    then have "\<forall>e\<in>set (inorder l). \<not> hits low high e"
      using max_ok_bound [of l] ITNode.prems(2) by (fastforce simp: hits_def)
    then have "?I l = {#}" by auto
    then show ?thesis using False IH ov by simp
  next
    case True
    show ?thesis
    proof (cases "visit low high l = []")
      case False
      then show ?thesis using True IH ov by simp
    next
      case none: True
      then have nl: "\<forall>e\<in>set (inorder l). \<not> hits low high e" using IH(1) by auto
      have "maxHigh l \<noteq> LONG_MIN" using True ITNode.prems(4) by (auto simp: int_range_def limits)
      then obtain lo' d' where e: "(lo', maxHigh l, d') \<in> set (inorder l)" using max_ok_attained ITNode.prems(2) by fastforce
      then have "high < lo'" using nl True by (fastforce simp: hits_def)
      moreover have "lo' \<le> lo" "\<forall>e\<in>set (inorder r). lo' \<le> fst e" using ITNode.prems(1) e by (force simp: sorted_append)+
      ultimately have "\<not> hits low high (lo, hi, d)" "\<forall>e\<in>set (inorder r). \<not> hits low high e" by (fastforce simp: hits_def)+
      moreover have "?I r = {#}" using calculation(2) by auto
      ultimately show ?thesis using True none IH ov by simp
    qed
  qed
qed simp

section \<open>The interface\<close>

text \<open>
  What the optimizer relies on: a store of intervals that keeps its invariant under insertion
  and enumerates exactly the stored intervals that meet the query, each as often as stored.
\<close>

locale interval_store =
  fixes empty :: 's
    and insert :: "int \<Rightarrow> int \<Rightarrow> 'a \<Rightarrow> 's \<Rightarrow> 's"
    and enumerate :: "int \<Rightarrow> int \<Rightarrow> 's \<Rightarrow> 'a list"
    and ok :: "'s \<Rightarrow> bool"
    and stored :: "'s \<Rightarrow> (int \<times> int \<times> 'a) multiset"
  assumes ok_empty: "ok empty" and stored_empty: "stored empty = {#}"
    and ok_insert: "ok s \<Longrightarrow> int_range lo \<Longrightarrow> int_range hi \<Longrightarrow> lo \<le> hi \<Longrightarrow> ok (insert lo hi d s)"
    and stored_insert: "ok s \<Longrightarrow> int_range lo \<Longrightarrow> int_range hi \<Longrightarrow> lo \<le> hi \<Longrightarrow>
      stored (insert lo hi d s) = add_mset (lo, hi, d) (stored s)"
    and enumerate: "ok s \<Longrightarrow> int_range low \<Longrightarrow> int_range high \<Longrightarrow> low \<le> high \<Longrightarrow>
      mset (enumerate low high s) = image_mset (\<lambda>e. snd (snd e)) (filter_mset (hits low high) (stored s))"
begin

definition insert_all :: "(int \<times> int \<times> 'a) list \<Rightarrow> 's \<Rightarrow> 's" where
  "insert_all es s = fold (\<lambda>(lo, hi, d). insert lo hi d) es s"

lemma insert_all_stored:
  assumes "ok s" "list_all (\<lambda>(lo, hi, d). int_range lo \<and> int_range hi \<and> lo \<le> hi) es"
  shows "ok (insert_all es s) \<and> stored (insert_all es s) = stored s + mset es"
  using assms
proof (induction es arbitrary: s)
  case (Cons e es)
  obtain lo hi d where "e = (lo, hi, d)" by (cases e)
  then show ?case
    using Cons.prems Cons.IH [of "insert lo hi d s"] ok_insert [of s lo hi d] stored_insert [of s lo hi d]
    by (simp add: insert_all_def)
qed (simp add: insert_all_def)

lemma enumerate_inserted:
  assumes "list_all (\<lambda>(lo, hi, d). int_range lo \<and> int_range hi \<and> lo \<le> hi) es" "int_range low" "int_range high" "low \<le> high"
  shows "mset (enumerate low high (insert_all es empty)) = mset (List.map (\<lambda>e. snd (snd e)) (filter (hits low high) es))"
  using insert_all_stored [OF ok_empty assms(1)] enumerate [OF _ assms(2-4)] by (simp add: stored_empty)

end

definition store_ok :: "'a itree \<Rightarrow> bool" where
  "store_ok t \<longleftrightarrow> itree_ok t \<and> list_all (\<lambda>(lo, hi, d). int_range lo \<and> int_range hi) (inorder t)"

lemma mset_inorder_Insert:
  "sorted (List.map fst (inorder t)) \<Longrightarrow>
     mset (inorder (Insert lo hi d t)) = add_mset (min lo hi, max lo hi, d) (mset (inorder t))"
  using inorder_Insert [of t lo hi d] by auto

lemma store_ok_Insert:
  assumes "store_ok t" "int_range lo" "int_range hi" "lo \<le> hi"
  shows "store_ok (Insert lo hi d t)"
proof -
  have "LONG_MIN \<le> lo" using assms(2) by (simp add: int_range_def limits)
  moreover obtain xs ys where "inorder t = xs @ ys" "inorder (Insert lo hi d t) = xs @ (lo, hi, d) # ys"
    using inorder_Insert [of t lo hi d] assms by (auto simp: store_ok_def itree_ok_def min_absorb1 max_absorb2)
  ultimately show ?thesis using assms itree_ok_Insert [of t lo hi d] by (auto simp: store_ok_def)
qed

lemma Enumerate_mset:
  assumes "store_ok t" "int_range low" "int_range high" "low \<le> high"
  shows "mset (Enumerate low high t) = image_mset (\<lambda>e. snd (snd e)) (filter_mset (hits low high) (mset (inorder t)))"
proof -
  have "list_all (\<lambda>(lo, hi, d). lo \<le> hi \<and> int_range lo \<and> int_range hi) (inorder t)"
    using assms(1) by (auto simp: store_ok_def itree_ok_def list_all_iff)
  then show ?thesis using visit_correct [of t low high] assms by (simp add: Enumerate_visit store_ok_def itree_ok_def)
qed

lemma store_ok_sorted: "store_ok t \<Longrightarrow> sorted (List.map fst (inorder t))"
  by (simp add: store_ok_def itree_ok_def)

interpretation itree: interval_store ITNil Insert Enumerate store_ok "\<lambda>t. mset (inorder t)"
proof
  show "store_ok ITNil" by (simp add: store_ok_def itree_ok_def rb_ok_def)
qed (auto simp: store_ok_Insert Enumerate_mset mset_inorder_Insert store_ok_sorted min_absorb1 max_absorb2)

section \<open>Properties\<close>

text \<open>
  C15. Insertion keeps every invariant of the interval tree: the nodes are in the order of their
  low ends, every \<open>maxHigh\<close> is the greatest high end of its subtree, no red node has a red
  child, every path has the same number of black nodes and the root is black; and the new
  interval is added to the stored ones.
\<close>

theorem Insert_invariant:
  assumes "itree_ok t" "LONG_MIN \<le> low" "low \<le> high"
  shows "itree_ok (Insert low high d t) \<and>
         mset (inorder (Insert low high d t)) = add_mset (low, high, d) (mset (inorder t))"
  using itree_ok_Insert [OF assms] mset_inorder_Insert [of t low high d] assms
  by (simp add: itree_ok_def min_absorb1 max_absorb2)

theorem Insert_invariant_witness:
  "itree_ok (Insert 2 9 CHR ''b'' (Insert 3 4 CHR ''a'' ITNil)) \<and>
   mset (inorder (Insert 2 9 CHR ''b'' (Insert 3 4 CHR ''a'' ITNil))) = {#(2, 9, CHR ''b''), (3, 4, CHR ''a'')#}"
  using Insert_invariant [of "Insert 3 4 CHR ''a'' ITNil" 2 9 "CHR ''b''"] Insert_invariant [of ITNil 3 4 "CHR ''a''"]
  by (simp add: itree_ok_def rb_ok_def limits)

text \<open>
  C16. \<open>Enumerate\<close> calls back for exactly the stored intervals that meet the query, once for
  each time they were inserted: taking a right branch only after a hit on the left loses
  nothing.  The intervals lie within the range of \<^verbatim>\<open>int\<close>, which \<open>Overlap\<close> compares in.
\<close>

theorem Enumerate_correct:
  assumes "\<forall>(lo, hi, d)\<in>set es. int_range lo \<and> int_range hi \<and> lo \<le> hi"
    and "int_range low" "int_range high" "low \<le> high"
  shows "mset (Enumerate low high (fold (\<lambda>(lo, hi, d). Insert lo hi d) es ITNil)) =
         mset (List.map (\<lambda>(lo, hi, d). d) (filter (\<lambda>(lo, hi, d). lo \<le> high \<and> low \<le> hi) es))"
  using itree.enumerate_inserted [of es low high] assms
  by (simp add: itree.insert_all_def list_all_iff hits_def case_prod_beta')

theorem Enumerate_correct_witness:
  "mset (Enumerate 5 5 (fold (\<lambda>(lo, hi, d). Insert lo hi d)
      [(1, 4, CHR ''a''), (3, 8, CHR ''b''), (5, 5, CHR ''c''), (6, 7, CHR ''d''), (0, 9, CHR ''e'')] ITNil)) =
   {#CHR ''b'', CHR ''c'', CHR ''e''#}"
  by (subst Enumerate_correct) (auto simp: int_range_def)

end
