(* ===== verification/Optimizer.thy ===== *)
theory Optimizer
  imports Bytecode_Correct IntervalTree_Correct Simplify
begin

text \<open>
  \<^verbatim>\<open>lib/yasmx/Optimizer.cpp\<close> and \<^verbatim>\<open>BytecodeContainer::Optimize\<close>: Robertson's algorithm for
  the choice between short and long forms.  A bytecode is named by its position in the
  container, a span by its position in the list of spans, a term by its span and its number
  there.  The state holds the bytecodes beside the optimizer's own data.
\<close>

unbundle bit_operations_syntax

section \<open>State\<close>

datatype SpanActive = INACTIVE | ACTIVE | ON_Q

record SpanTerm =
  st_loc :: Location
  st_loc2 :: Location
  st_cur :: int
  st_new :: int
  st_subst :: nat

record 'f Span =
  sp_bc :: nat
  sp_depval :: "'f Value"
  sp_terms :: "SpanTerm list"
  sp_cur :: int
  sp_new :: int
  sp_neg :: int
  sp_pos :: int
  sp_id :: int
  sp_active :: SpanActive
  sp_backtrace :: "nat list"
  sp_os_index :: nat

record OffsetSetter =
  os_bc :: "nat option"
  os_cur :: int
  os_new :: int
  os_thres :: int

record 'f Optimizer =
  op_bcs :: "'f Bytecode list"
  op_spans :: "'f Span list"
  op_QA :: "nat list"
  op_QB :: "nat list"
  op_itree :: "(nat \<times> nat) itree"
  op_setters :: "OffsetSetter list"
  op_diags :: "diag list"

text \<open>
  What the optimizer uses of the rest of the program: the floating-point arithmetic and the
  labels and containers (the offsets of this container's bytecodes are read from the state).
\<close>

record 'f opt_iface =
  of_floats :: "'f float_ops"
  of_env :: Env

definition cur_env :: "Env \<Rightarrow> 'f Bytecode list \<Rightarrow> Env" where
  "cur_env env bcs = env\<lparr>env_offset := (\<lambda>i. if i < length bcs then bc_offset (bcs ! i) else env_offset env i)\<rparr>"

definition OffsetSetter_new :: OffsetSetter where
  "OffsetSetter_new = \<lparr>os_bc = None, os_cur = 0, os_new = 0, os_thres = 0\<rparr>"

definition Optimizer_new :: "'f Bytecode list \<Rightarrow> 'f Optimizer" where
  "Optimizer_new bcs = \<lparr>op_bcs = bcs, op_spans = [], op_QA = [], op_QB = [], op_itree = ITNil,
     op_setters = [OffsetSetter_new], op_diags = []\<rparr>"

definition report :: "diag list \<Rightarrow> 'f Optimizer \<Rightarrow> 'f Optimizer" where
  "report ds st = st\<lparr>op_diags := op_diags st @ ds\<rparr>"

definition AddSpan :: "nat \<Rightarrow> 'f span_req \<Rightarrow> 'f Optimizer \<Rightarrow> 'f Optimizer" where
  "AddSpan i r st =
     st\<lparr>op_spans := op_spans st @
        [\<lparr>sp_bc = i, sp_depval = sr_value r, sp_terms = [], sp_cur = 0, sp_new = 0, sp_neg = sr_neg r,
          sp_pos = sr_pos r, sp_id = sr_id r, sp_active = ACTIVE, sp_backtrace = [],
          sp_os_index = length (op_setters st) - 1\<rparr>]\<rparr>"

definition AddOffsetSetter :: "nat \<Rightarrow> 'f Optimizer \<Rightarrow> 'f Optimizer" where
  "AddOffsetSetter i st =
     st\<lparr>op_setters := butlast (op_setters st) @
        [(last (op_setters st))\<lparr>os_bc := Some i, os_thres := getNextOffset (op_bcs st ! i)\<rparr>, OffsetSetter_new]\<rparr>"

definition set_bc :: "nat \<Rightarrow> 'f Bytecode \<Rightarrow> 'f Optimizer \<Rightarrow> 'f Optimizer" where
  "set_bc i bc st = st\<lparr>op_bcs := (op_bcs st)[i := bc]\<rparr>"

definition set_span :: "nat \<Rightarrow> 'f Span \<Rightarrow> 'f Optimizer \<Rightarrow> 'f Optimizer" where
  "set_span k s st = st\<lparr>op_spans := (op_spans st)[k := s]\<rparr>"

section \<open>Spans\<close>

text \<open>A distance that cannot be calculated fails an assertion.\<close>

definition AddTerm :: "Env \<Rightarrow> nat \<Rightarrow> Location \<Rightarrow> Location \<Rightarrow> SpanTerm outcome" where
  "AddTerm env subst loc loc2 =
     bind_out (CalcDist env loc loc2) (\<lambda>r.
       case r of
         None \<Rightarrow> Undefined
       | Some intn \<Rightarrow> Ret \<lparr>st_loc = loc, st_loc2 = loc2, st_cur = 0, st_new = getInt intn, st_subst = subst\<rparr>)"

fun AddTerms :: "Env \<Rightarrow> nat \<Rightarrow> (Location \<times> Location) list \<Rightarrow> SpanTerm list outcome" where
  "AddTerms env k [] = Ret []"
| "AddTerms env k (p # ps) =
     bind_out (AddTerm env k (fst p) (snd p)) (\<lambda>t. bind_out (AddTerms env (Suc k) ps) (\<lambda>ts. Ret (t # ts)))"

definition loc_index :: "'f Bytecode list \<Rightarrow> Location \<Rightarrow> int outcome" where
  "loc_index bcs loc =
     (case loc_bc loc of
        None \<Rightarrow> Undefined
      | Some b \<Rightarrow> if b < length bcs then Ret (bc_index (bcs ! b)) else Undefined)"

text \<open>Whether a term of a span that follows every change includes the span's own bytecode.\<close>

fun circular_terms :: "'f Bytecode list \<Rightarrow> int \<Rightarrow> SpanTerm list \<Rightarrow> bool outcome" where
  "circular_terms bcs i [] = Ret False"
| "circular_terms bcs i (t # ts) =
     bind_out (loc_index bcs (st_loc t)) (\<lambda>i1. bind_out (loc_index bcs (st_loc2 t)) (\<lambda>i2.
       let p1 = to_u64 (i1 - 1); p2 = to_u64 (i2 - 1) in
       if (i > p1 \<and> i \<le> p2) \<or> (i > p2 \<and> i \<le> p1) then Ret True
       else circular_terms bcs i ts))"

definition CreateTerms :: "'f opt_iface \<Rightarrow> 'f Bytecode list \<Rightarrow> 'f Span \<Rightarrow> ('f Span \<times> bool \<times> diag list) outcome" where
  "CreateTerms P bcs s =
     (case v_abs (sp_depval s) of
        None \<Rightarrow> Ret (s, True, [])
      | Some e \<Rightarrow>
          bind_out (SubstDist (of_floats P) (of_env P) e) (\<lambda>(e', ps, ds).
          bind_out (AddTerms (cur_env (of_env P) bcs) 0 ps) (\<lambda>ts.
            let s' = s\<lparr>sp_depval := (sp_depval s)\<lparr>v_abs := Some e'\<rparr>, sp_terms := ts\<rparr> in
            if sp_id s > 0 then Ret (s', True, ds)
            else if sp_bc s \<ge> length bcs then Undefined
            else bind_out (circular_terms bcs (bc_index (bcs ! sp_bc s)) ts) (\<lambda>c.
                   if c then Ret (s', False, ds @ [err_optimizer_circular_reference]) else Ret (s', True, ds)))))"

text \<open>
  The value of a span for the current values of its terms.  \<open>Evaluate\<close> is called without
  \<^verbatim>\<open>valueloc\<close>, so it reads no offsets.
\<close>

definition expr_terms :: "SpanTerm list \<Rightarrow> 'f ExprTerm list" where
  "expr_terms ts = List.map (\<lambda>t. mk_term (T_INT (set_s (st_new t))) 0) ts"

definition span_value :: "'f opt_iface \<Rightarrow> 'f Span \<Rightarrow> (int \<times> diag list) outcome" where
  "span_value P s =
     (if isRelative (sp_depval s) then Ret (LONG_MAX, [])
      else case v_abs (sp_depval s) of
             None \<Rightarrow> Ret (0, [])
           | Some e \<Rightarrow>
               bind_out (Evaluate (of_floats P) (of_env P) (expr_terms (sp_terms s)) False False e) (\<lambda>(r, ds).
                 case Option.bind r getIntNum of
                   None \<Rightarrow> Ret (LONG_MAX, ds)
                 | Some intn \<Rightarrow> Ret (getInt intn, ds)))"

definition exceeds :: "'f Span \<Rightarrow> bool" where
  "exceeds s \<longleftrightarrow> (if sp_id s \<le> 0 then sp_new s \<noteq> sp_cur s else sp_new s < sp_neg s \<or> sp_new s > sp_pos s)"

definition RecalcNormal :: "'f opt_iface \<Rightarrow> 'f Span \<Rightarrow> ('f Span \<times> bool \<times> diag list) outcome" where
  "RecalcNormal P s =
     bind_out (span_value P s) (\<lambda>(v, ds).
       let s1 = s\<lparr>sp_new := v\<rparr>;
           s2 = (if v = LONG_MAX then s1\<lparr>sp_active := INACTIVE\<rparr> else s1) in
       Ret (s2, exceeds s2, ds))"

section \<open>Initialization\<close>

text \<open>
  The first expansion of the spans.  A deleted span is left out.  After an error of \<open>Expand\<close>
  the loop goes on with the same span, whose bytecode fails again, and does not end: the
  result is \<open>None\<close>.
\<close>

datatype 'f step1b_result = Kept "'f Span" | Deleted | Endless

definition Expand_span :: "'f Span \<Rightarrow> 'f Bytecode list \<Rightarrow> ('f Bytecode \<times> expand_io option \<times> diag list) outcome" where
  "Expand_span s bcs =
     (if sp_bc s \<ge> length bcs then Undefined
      else Bytecode_Expand (sp_id s) (sp_new s)
             \<lparr>ex_len = 0, ex_keep = False, ex_neg = sp_neg s, ex_pos = sp_pos s\<rparr> (bcs ! sp_bc s))"

definition step1b_span :: "'f opt_iface \<Rightarrow> 'f Span \<Rightarrow> 'f Bytecode list \<Rightarrow>
    ('f step1b_result \<times> 'f Bytecode list \<times> diag list) outcome" where
  "step1b_span P s bcs =
     bind_out (CreateTerms P bcs s) (\<lambda>(s1, ok, ds1).
       if \<not> ok then Ret (Kept (s1\<lparr>sp_cur := sp_new s1\<rparr>), bcs, ds1)
       else bind_out (RecalcNormal P s1) (\<lambda>(s2, exc, ds2).
         if \<not> exc then Ret (Kept (s2\<lparr>sp_cur := sp_new s2\<rparr>), bcs, ds1 @ ds2)
         else bind_out (Expand_span s2 bcs) (\<lambda>(bc', r, ds3).
           let bcs' = bcs[sp_bc s2 := bc']; ds = ds1 @ ds2 @ ds3 in
           case r of
             None \<Rightarrow> Ret (Endless, bcs', ds)
           | Some io \<Rightarrow>
               if \<not> ex_keep io then Ret (Deleted, bcs', ds)
               else Ret (Kept (s2\<lparr>sp_neg := ex_neg io, sp_pos := ex_pos io, sp_cur := sp_new s2\<rparr>), bcs',
                         ds @ (if sp_active s2 = INACTIVE then [err_optimizer_secondary_expansion] else [])))))"

fun step1b_loop :: "'f opt_iface \<Rightarrow> 'f Span list \<Rightarrow> 'f Bytecode list \<Rightarrow>
    ('f Span list \<times> 'f Bytecode list \<times> diag list) option outcome" where
  "step1b_loop P [] bcs = Ret (Some ([], bcs, []))"
| "step1b_loop P (s # ss) bcs =
     bind_out (step1b_span P s bcs) (\<lambda>(r, bcs1, ds1).
       if r = Endless then Ret None
       else bind_out (step1b_loop P ss bcs1) (\<lambda>x.
              case x of
                None \<Rightarrow> Ret None
              | Some (ss', bcs2, ds2) \<Rightarrow> Ret (Some ((case r of Kept s' \<Rightarrow> s' # ss' | _ \<Rightarrow> ss'), bcs2, ds1 @ ds2))))"

definition Step1b :: "'f opt_iface \<Rightarrow> 'f Optimizer \<Rightarrow> 'f Optimizer option outcome" where
  "Step1b P st =
     bind_out (step1b_loop P (op_spans st) (op_bcs st)) (\<lambda>x.
       case x of
         None \<Rightarrow> Ret None
       | Some (ss, bcs, ds) \<Rightarrow> Ret (Some (report ds (st\<lparr>op_spans := ss, op_bcs := bcs\<rparr>))))"

definition update_term :: "Env \<Rightarrow> SpanTerm \<Rightarrow> SpanTerm outcome" where
  "update_term env t =
     bind_out (CalcDist env (st_loc t) (st_loc2 t)) (\<lambda>r.
       case r of None \<Rightarrow> Undefined | Some intn \<Rightarrow> Ret (t\<lparr>st_cur := st_new t, st_new := getInt intn\<rparr>))"

fun update_terms :: "Env \<Rightarrow> SpanTerm list \<Rightarrow> SpanTerm list outcome" where
  "update_terms env [] = Ret []"
| "update_terms env (t # ts) =
     bind_out (update_term env t) (\<lambda>t'. bind_out (update_terms env ts) (\<lambda>ts'. Ret (t' # ts')))"

text \<open>The spans from number \<open>k\<close> on; the numbers of those that exceed their thresholds are queued.\<close>

fun step1d_loop :: "'f opt_iface \<Rightarrow> Env \<Rightarrow> nat \<Rightarrow> 'f Span list \<Rightarrow> ('f Span list \<times> nat list \<times> diag list) outcome" where
  "step1d_loop P env k [] = Ret ([], [], [])"
| "step1d_loop P env k (s # ss) =
     bind_out (update_terms env (sp_terms s)) (\<lambda>ts.
     bind_out (RecalcNormal P (s\<lparr>sp_terms := ts\<rparr>)) (\<lambda>(s1, exc, ds1).
     bind_out (step1d_loop P env (Suc k) ss) (\<lambda>(ss', q, ds2).
       Ret ((if exc then s1\<lparr>sp_active := ON_Q\<rparr> else s1) # ss', (if exc then k # q else q), ds1 @ ds2))))"

definition Step1d :: "'f opt_iface \<Rightarrow> 'f Optimizer \<Rightarrow> ('f Optimizer \<times> bool) outcome" where
  "Step1d P st =
     bind_out (step1d_loop P (cur_env (of_env P) (op_bcs st)) 0 (op_spans st)) (\<lambda>(ss, q, ds).
       let st' = report ds (st\<lparr>op_spans := ss, op_QB := op_QB st @ q\<rparr>) in Ret (st', op_QB st' = []))"

text \<open>The indices of the bytecodes a term's locations are in; a null pointer stands for the span's predecessor.\<close>

definition prec_index :: "'f Bytecode list \<Rightarrow> 'f Span \<Rightarrow> Location \<Rightarrow> int outcome" where
  "prec_index bcs s loc =
     (if loc_bc loc = None
      then if sp_bc s \<ge> length bcs then Undefined else Ret (to_s64 (to_u64 (bc_index (bcs ! sp_bc s) - 1)))
      else bind_out (loc_index bcs loc) (\<lambda>i. Ret (to_s64 i)))"

definition ITreeAdd :: "'f Bytecode list \<Rightarrow> nat \<times> nat \<Rightarrow> 'f Span \<Rightarrow> SpanTerm \<Rightarrow> (nat \<times> nat) itree \<Rightarrow> (nat \<times> nat) itree outcome" where
  "ITreeAdd bcs d s t tree =
     bind_out (prec_index bcs s (st_loc t)) (\<lambda>i1. bind_out (prec_index bcs s (st_loc2 t)) (\<lambda>i2.
       Ret (if i1 < i2 then Insert i1 (i2 - 1) d tree
            else if i1 > i2 then Insert i2 (i1 - 1) d tree
            else tree)))"

fun itree_terms :: "'f Bytecode list \<Rightarrow> nat \<Rightarrow> 'f Span \<Rightarrow> nat \<Rightarrow> SpanTerm list \<Rightarrow> (nat \<times> nat) itree \<Rightarrow> (nat \<times> nat) itree outcome" where
  "itree_terms bcs k s j [] tree = Ret tree"
| "itree_terms bcs k s j (t # ts) tree = bind_out (ITreeAdd bcs (k, j) s t tree) (itree_terms bcs k s (Suc j) ts)"

fun itree_spans :: "'f Bytecode list \<Rightarrow> nat \<Rightarrow> 'f Span list \<Rightarrow> (nat \<times> nat) itree \<Rightarrow> (nat \<times> nat) itree outcome" where
  "itree_spans bcs k [] tree = Ret tree"
| "itree_spans bcs k (s # ss) tree = bind_out (itree_terms bcs k s 0 (sp_terms s) tree) (itree_spans bcs (Suc k) ss)"

definition CheckCycle :: "nat \<Rightarrow> nat \<times> nat \<Rightarrow> 'f Optimizer \<Rightarrow> 'f Optimizer" where
  "CheckCycle k node st =
     (let d = fst node; span = op_spans st ! k; dep = op_spans st ! d in
      if sp_id dep > 0 then st
      else if d \<in> set (sp_backtrace span) then report [err_optimizer_circular_reference] st
      else set_span d (dep\<lparr>sp_backtrace := List.insert k (List.union (sp_backtrace span) (sp_backtrace dep))\<rparr>) st)"

definition update_setter :: "'f Bytecode list \<Rightarrow> OffsetSetter \<Rightarrow> OffsetSetter" where
  "update_setter bcs os =
     (case os_bc os of
        None \<Rightarrow> os
      | Some b \<Rightarrow> let bc = bcs ! b; v = to_u64 (bc_offset bc + getFixedLen bc) in
                  os\<lparr>os_thres := getNextOffset bc, os_new := v, os_cur := v\<rparr>)"

definition check_cycles :: "nat \<Rightarrow> 'f Optimizer \<Rightarrow> 'f Optimizer" where
  "check_cycles k st =
     (let s = op_spans st ! k; i = to_s64 (bc_index (op_bcs st ! sp_bc s)) in
      if sp_id s > 0 then st else fold (CheckCycle k) (Enumerate i i (op_itree st)) st)"

definition Step1e :: "'f Optimizer \<Rightarrow> 'f Optimizer outcome" where
  "Step1e st =
     (let st1 = st\<lparr>op_setters := List.map (update_setter (op_bcs st)) (op_setters st)\<rparr> in
      bind_out (itree_spans (op_bcs st1) 0 (op_spans st1) (op_itree st1)) (\<lambda>tree.
        Ret (fold check_cycles [0..<length (op_spans st1)] (st1\<lparr>op_itree := tree\<rparr>))))"

section \<open>The main loop\<close>

text \<open>A pointer to a span, a term or a bytecode that does not exist is no behaviour of the code.\<close>

definition ExpandTerm :: "'f opt_iface \<Rightarrow> int \<Rightarrow> nat \<times> nat \<Rightarrow> 'f Optimizer \<Rightarrow> 'f Optimizer outcome" where
  "ExpandTerm P len_diff node st =
     (let k = fst node; j = snd node; s = op_spans st ! k; t = sp_terms s ! j in
      if k \<ge> length (op_spans st) \<or> j \<ge> length (sp_terms s) then Undefined
      else if sp_active s = INACTIVE then Ret st
      else bind_out (prec_index (op_bcs st) s (st_loc t)) (\<lambda>i1. bind_out (prec_index (op_bcs st) s (st_loc2 t)) (\<lambda>i2.
        let v = (if i1 < i2 then st_new t + len_diff else st_new t - len_diff);
            s1 = s\<lparr>sp_terms := (sp_terms s)[j := t\<lparr>st_new := v\<rparr>]\<rparr> in
        if \<not> long_range v then Undefined
        else if sp_active s = ON_Q then Ret (set_span k s1 st)
        else bind_out (RecalcNormal P s1) (\<lambda>(s2, exc, ds).
          if \<not> exc then Ret (report ds (set_span k s2 st))
          else let st1 = report ds (set_span k (s2\<lparr>sp_active := ON_Q\<rparr>) st) in
               Ret (if sp_id s2 \<le> 0 then st1\<lparr>op_QA := op_QA st1 @ [k]\<rparr> else st1\<lparr>op_QB := op_QB st1 @ [k]\<rparr>)))))"

fun ExpandTerms :: "'f opt_iface \<Rightarrow> int \<Rightarrow> (nat \<times> nat) list \<Rightarrow> 'f Optimizer \<Rightarrow> 'f Optimizer outcome" where
  "ExpandTerms P len_diff [] st = Ret st"
| "ExpandTerms P len_diff (n # ns) st = bind_out (ExpandTerm P len_diff n st) (ExpandTerms P len_diff ns)"

text \<open>The terms across the bytecode \<open>b\<close>, which has changed its length by \<open>len_diff\<close>.\<close>

definition expand_over :: "'f opt_iface \<Rightarrow> int \<Rightarrow> nat \<Rightarrow> 'f Optimizer \<Rightarrow> 'f Optimizer outcome" where
  "expand_over P len_diff b st =
     (let i = to_s64 (bc_index (op_bcs st ! b)) in ExpandTerms P len_diff (Enumerate i i (op_itree st)) st)"

text \<open>
  An offset setter moves by \<open>diff\<close>: the new state and the move of what follows it.  Nothing
  reads \<^verbatim>\<open>m_thres\<close>; it is assigned from a variable that an origin leaves uninitialized and
  keeps its old value here.
\<close>

definition move_setter :: "'f opt_iface \<Rightarrow> nat \<Rightarrow> nat \<Rightarrow> int \<Rightarrow> 'f Optimizer \<Rightarrow> ('f Optimizer \<times> int) outcome" where
  "move_setter P m b diff st =
     (let os = op_setters st ! m; bc = op_bcs st ! b;
          old_next = to_u64 (os_cur os + getTotalLen bc); new_val = to_u64 (os_new os + diff) in
      if b \<ge> length (op_bcs st) then Undefined
      else if diff < 0 \<and> - diff > os_new os then Undefined
      else bind_out (Bytecode_Expand 1 (to_s64 new_val) (initial_io 0) bc) (\<lambda>(bc', r, ds).
        let st1 = report ds (set_bc b bc' st);
            diff' = to_s64 (to_u64 (new_val + getTotalLen bc' - old_next));
            len_diff = to_s64 (to_u64 (bc_len bc' - bc_len bc)) in
        bind_out (if len_diff \<noteq> 0 then expand_over P len_diff b st1 else Ret st1) (\<lambda>st2.
          Ret (st2\<lparr>op_setters := (op_setters st2)[m := os\<lparr>os_new := new_val, os_cur := new_val\<rparr>]\<rparr>, diff'))))"

text \<open>The offset setters in the order of the list; all belong to the container that is optimized.\<close>

fun move_setters :: "'f opt_iface \<Rightarrow> nat list \<Rightarrow> int \<Rightarrow> 'f Optimizer \<Rightarrow> 'f Optimizer outcome" where
  "move_setters P [] diff st = Ret st"
| "move_setters P (m # ms) diff st =
     (case os_bc (op_setters st ! m) of
        None \<Rightarrow> Ret st
      | Some b \<Rightarrow>
          if diff = 0 then Ret st
          else bind_out (move_setter P m b diff st) (\<lambda>(st', diff'). move_setters P ms diff' st'))"

text \<open>One round of the loop, for the span taken from the queue.\<close>

definition expand_span :: "'f opt_iface \<Rightarrow> nat \<Rightarrow> 'f Span \<Rightarrow> 'f Optimizer \<Rightarrow> 'f Optimizer outcome" where
  "expand_span P k s st =
     bind_out (Expand_span s (op_bcs st)) (\<lambda>(bc', r, ds).
       let b = sp_bc s; bc = op_bcs st ! b; st1 = report ds (set_bc b bc' st) in
       case r of
         None \<Rightarrow> Ret (set_span k s st1)
       | Some io \<Rightarrow>
           let s1 = s\<lparr>sp_neg := ex_neg io, sp_pos := ex_pos io\<rparr>;
               s2 = (if ex_keep io
                     then s1\<lparr>sp_terms := List.map (\<lambda>t. t\<lparr>st_cur := st_new t\<rparr>) (sp_terms s1), sp_cur := sp_new s1\<rparr>
                     else s1\<lparr>sp_active := INACTIVE\<rparr>);
               st2 = set_span k s2 st1;
               len_diff = to_s64 (to_u64 (getTotalLen bc' - getTotalLen bc)) in
           if len_diff = 0 then Ret st2
           else bind_out (expand_over P len_diff b st2) (\<lambda>st3.
                  move_setters P [sp_os_index s..<length (op_setters st3)] len_diff st3))"

definition step2_span :: "'f opt_iface \<Rightarrow> nat \<Rightarrow> 'f Optimizer \<Rightarrow> 'f Optimizer outcome" where
  "step2_span P k st =
     (let s = op_spans st ! k in
      if k \<ge> length (op_spans st) then Undefined
      else if sp_active s = INACTIVE then Ret st
      else bind_out (RecalcNormal P (s\<lparr>sp_active := ACTIVE\<rparr>)) (\<lambda>(s1, exc, ds).
             if \<not> exc then Ret (report ds (set_span k s1 st))
             else expand_span P k s1 (report ds st)))"

definition step2_round :: "'f opt_iface \<Rightarrow> 'f Optimizer \<Rightarrow> 'f Optimizer outcome" where
  "step2_round P st =
     (case op_QA st of
        k # q \<Rightarrow> step2_span P k (st\<lparr>op_QA := q\<rparr>)
      | [] \<Rightarrow> (case op_QB st of
                k # q \<Rightarrow> step2_span P k (st\<lparr>op_QB := q\<rparr>)
              | [] \<Rightarrow> Ret st))"

text \<open>\<open>None\<close> is a loop that does not end.\<close>

partial_function (option) Step2 :: "'f opt_iface \<Rightarrow> 'f Optimizer \<Rightarrow> 'f Optimizer outcome option" where
  "Step2 P st =
     (if op_QA st = [] \<and> op_QB st = [] then Some (Ret st)
      else case step2_round P st of
             Ret st' \<Rightarrow> Step2 P st'
           | Fail d \<Rightarrow> Some (Fail d)
           | Undefined \<Rightarrow> Some Undefined)"

declare Step2.simps [code]

section \<open>The optimization of a container\<close>

fun step1a :: "nat list \<Rightarrow> int \<Rightarrow> 'f Optimizer \<Rightarrow> 'f Optimizer outcome" where
  "step1a [] off st = Ret st"
| "step1a (i # is) off st =
     bind_out (Bytecode_CalcLen ((op_bcs st ! i)\<lparr>bc_index := int i + 1, bc_offset := off\<rparr>)) (\<lambda>(bc, ok, reqs, ds).
       let st1 = report ds (fold (AddSpan i) reqs (set_bc i bc st)) in
       if \<not> ok then step1a is off st1
       else step1a is (getNextOffset bc) (if getSpecial bc = SPECIAL_OFFSET then AddOffsetSetter i st1 else st1))"

text \<open>
  Errors stop the optimization, warnings do not.  \<^verbatim>\<open>Assembler::Assemble\<close> starts it only when no error has been
  reported before, so the messages of the optimization are all there are; no warning is mapped to an error.
\<close>

definition is_warning :: "diag \<Rightarrow> bool" where
  "is_warning d \<longleftrightarrow>
     d \<in> {warn_uninit_zero, warn_nobits_data, warn_negative_uleb128, warn_float_underflow, warn_float_overflow,
           warn_float_inexact, warn_multiple_acq_rel, warn_multiple_lock_rep, warn_ignore_rex_on_jump,
           warn_illegal_rex_insn, warn_rex_overrides_internal, warn_multiple_rex, warn_fixed_invalid_disp_size} \<or>
     (case d of warn_signed_overflow n \<Rightarrow> True | warn_unsigned_overflow n \<Rightarrow> True | warn_truncated n \<Rightarrow> True | _ \<Rightarrow> False)"

definition hasErrorOccurred :: "'f Optimizer \<Rightarrow> bool" where
  "hasErrorOccurred st \<longleftrightarrow> list_ex (\<lambda>d. \<not> is_warning d) (op_diags st)"

definition update_offsets_st :: "'f Optimizer \<Rightarrow> 'f Optimizer outcome" where
  "update_offsets_st st =
     bind_out (UpdateOffsets \<lparr>m_bcs = op_bcs st, m_last_gap = False\<rparr>) (\<lambda>(c, ds). Ret (report ds (st\<lparr>op_bcs := m_bcs c\<rparr>)))"

text \<open>
  Steps 1a to 1e, and whether the function returns there; \<open>None\<close> when step 1b does not end.
\<close>

definition Optimize_init :: "'f opt_iface \<Rightarrow> 'f Bytecode list \<Rightarrow> ('f Optimizer \<times> bool) option outcome" where
  "Optimize_init P bcs =
     (if bcs = [] then Undefined
      else bind_out (step1a [0..<length bcs] 0 (Optimizer_new bcs)) (\<lambda>st.
        if hasErrorOccurred st then Ret (Some (st, True))
        else bind_out (Step1b P st) (\<lambda>r. case r of None \<Rightarrow> Ret None | Some st1 \<Rightarrow>
        if hasErrorOccurred st1 then Ret (Some (st1, True))
        else bind_out (update_offsets_st st1) (\<lambda>st2.
        if hasErrorOccurred st2 then Ret (Some (st2, True))
        else bind_out (Step1d P st2) (\<lambda>(st3, fin).
        if fin then Ret (Some (st3, True))
        else bind_out (Step1e st3) (\<lambda>st4. Ret (Some (st4, hasErrorOccurred st4))))))))"

definition Optimize :: "'f opt_iface \<Rightarrow> 'f Bytecode list \<Rightarrow> 'f Optimizer outcome option" where
  "Optimize P bcs =
     (case Optimize_init P bcs of
        Ret None \<Rightarrow> None
      | Ret (Some (st, fin)) \<Rightarrow>
          if fin then Some (Ret st)
          else (case Step2 P st of
                  None \<Rightarrow> None
                | Some r \<Rightarrow> Some (bind_out r (\<lambda>st1. if hasErrorOccurred st1 then Ret st1 else update_offsets_st st1)))
      | Fail d \<Rightarrow> Some (Fail d)
      | Undefined \<Rightarrow> Some Undefined)"

end
