(* ===== verification/Optimizer_Frame.thy ===== *)
theory Optimizer_Frame
  imports Optimizer
begin

text \<open>
  The case analyses of the steps of the main loop, what no step changes (\<open>same_shape\<close>),
  and the termination of the loop: every round either uses up some of the growth that is
  left in the bytecodes or leaves the queues shorter.
\<close>

unbundle bit_operations_syntax

section \<open>Termination of the main loop\<close>

text \<open>How often contents can still grow when a span asks them to.\<close>

fun growth :: "'f Contents \<Rightarrow> nat" where
  "growth (X86JmpContents j) = (if j_op_sel j = X86_JMP_NEAR then 0 else 1)"
| "growth (LEB128Bytecode v) = 37 - v_size v"
| "growth _ = 0"

definition bc_growth :: "'f Bytecode \<Rightarrow> nat" where
  "bc_growth bc = (case bc_contents bc of None \<Rightarrow> 0 | Some c \<Rightarrow> growth c)"

definition total_growth :: "'f Optimizer \<Rightarrow> nat" where
  "total_growth st = sum_list (List.map bc_growth (op_bcs st))"

text \<open>Contents that only grow.\<close>

fun one_way :: "'f Contents \<Rightarrow> bool" where
  "one_way (X86JmpContents j) = True"
| "one_way (LEB128Bytecode v) = True"
| "one_way (GapBytecode n) = True"
| "one_way _ = False"

lemma Expand_growth:
  assumes "Contents_Expand c span nv io = Ret (c', r, ds)"
  shows "growth c' \<le> growth c \<and> one_way c' = one_way c \<and> (Contents_getSpecial c = SPECIAL_OFFSET \<longrightarrow> growth c' = 0 \<and> growth c = 0)"
  using assms SizeLEB128_range
  by (cases c) (auto simp: bind_out_Ret_iff Jmp_Expand_def LEB128_Expand_def Value_setSize_def Let_def split: if_splits)

lemma Expand_grows:
  assumes "Contents_Expand c span nv io = Ret (c', Some io', ds)" "one_way c" "ex_len io' \<noteq> ex_len io"
  shows "growth c' < growth c"
proof (cases c)
  case (LEB128Bytecode v)
  define sz where "sz = SizeLEB128 (set_s nv) (v_sign v)"
  have r: "0 \<le> sz" "sz \<le> 37" using SizeLEB128_range [of "set_s nv" "v_sign v"] by (simp_all add: sz_def)
  have gt: "sz > int (v_size v)" and c': "c' = LEB128Bytecode (Value_setSize (nat sz) v)"
    using assms LEB128Bytecode by (auto simp: bind_out_Ret_iff LEB128_Expand_def Let_def sz_def split: if_splits)
  have "nat sz mod 256 = nat sz" using r by simp
  then show ?thesis using gt r LEB128Bytecode by (simp add: c' Value_setSize_def)
qed (use assms in \<open>auto simp: bind_out_Ret_iff Jmp_Expand_def Let_def split: if_splits\<close>)

lemma Bytecode_Expand_cases:
  assumes "Bytecode_Expand span nv io bc = Ret (bc', r, ds)"
  obtains (empty) "bc_contents bc = None" "bc' = bc" "r = Some io" "ds = []"
  | (contents) c c' where "bc_contents bc = Some c" "Contents_Expand c span nv (io\<lparr>ex_len := bc_len bc\<rparr>) = Ret (c', r, ds)"
      "bc' = bc\<lparr>bc_contents := Some c', bc_len := (case r of None \<Rightarrow> bc_len bc | Some io' \<Rightarrow> ex_len io')\<rparr>"
proof (cases "bc_contents bc")
  case None
  then have "bc' = bc" "r = Some io" "ds = []" using assms by (simp_all add: Bytecode_Expand_def)
  then show ?thesis using None empty by blast
next
  case (Some c)
  obtain c' r' ds' where x: "Contents_Expand c span nv (io\<lparr>ex_len := bc_len bc\<rparr>) = Ret (c', r', ds')"
    using assms Some by (cases "Contents_Expand c span nv (io\<lparr>ex_len := bc_len bc\<rparr>)") (auto simp: Bytecode_Expand_def)
  have e: "Bytecode_Expand span nv io bc =
     Ret (bc\<lparr>bc_contents := Some c', bc_len := (case r' of None \<Rightarrow> bc_len bc | Some io' \<Rightarrow> ex_len io')\<rparr>, r', ds')"
    by (cases r') (simp_all add: Bytecode_Expand_def Some x)
  from assms [unfolded e] x show ?thesis by (intro contents [OF Some, of c']) auto
qed

lemma Bytecode_Expand_growth:
  assumes "Bytecode_Expand span nv io bc = Ret (bc', r, ds)"
  shows "bc_growth bc' \<le> bc_growth bc \<and> (getSpecial bc = SPECIAL_OFFSET \<longrightarrow> bc_growth bc' = bc_growth bc)"
  using assms
proof (cases rule: Bytecode_Expand_cases)
  case (contents c c')
  then show ?thesis using Expand_growth [OF contents(2)] by (simp add: bc_growth_def getSpecial_def)
qed simp

definition bc_one_way :: "'f Bytecode \<Rightarrow> bool" where
  "bc_one_way bc \<longleftrightarrow> (case bc_contents bc of None \<Rightarrow> True | Some c \<Rightarrow> one_way c)"

lemma Bytecode_Expand_grows:
  assumes "Bytecode_Expand span nv io bc = Ret (bc', Some io', ds)" "bc_len bc' \<noteq> bc_len bc" "bc_one_way bc"
  shows "bc_growth bc' < bc_growth bc"
  using assms(1)
proof (cases rule: Bytecode_Expand_cases)
  case (contents c c')
  then show ?thesis using Expand_grows [OF contents(2)] assms(2,3) by (simp add: bc_one_way_def bc_growth_def)
qed (use assms in simp)

text \<open>What the callbacks of the tree leave alone.\<close>

lemma set_span_simps [simp]:
  "op_bcs (set_span k s st) = op_bcs st" "op_setters (set_span k s st) = op_setters st" "op_itree (set_span k s st) = op_itree st"
  "op_QA (set_span k s st) = op_QA st" "op_QB (set_span k s st) = op_QB st" "op_diags (set_span k s st) = op_diags st"
  "op_spans (set_span k s st) = (op_spans st)[k := s]"
  by (simp_all add: set_span_def)

lemma set_bc_simps [simp]:
  "op_bcs (set_bc i bc st) = (op_bcs st)[i := bc]" "op_setters (set_bc i bc st) = op_setters st" "op_itree (set_bc i bc st) = op_itree st"
  "op_QA (set_bc i bc st) = op_QA st" "op_QB (set_bc i bc st) = op_QB st" "op_diags (set_bc i bc st) = op_diags st"
  "op_spans (set_bc i bc st) = op_spans st"
  by (simp_all add: set_bc_def)

lemma report_simps [simp]:
  "op_bcs (report ds st) = op_bcs st" "op_setters (report ds st) = op_setters st" "op_itree (report ds st) = op_itree st"
  "op_QA (report ds st) = op_QA st" "op_QB (report ds st) = op_QB st" "op_diags (report ds st) = op_diags st @ ds"
  "op_spans (report ds st) = op_spans st"
  by (simp_all add: report_def)

text \<open>
  The part of a span that is fixed: its bytecode, its kind, the expression and the locations
  of its terms.
\<close>

definition span_shape :: "'f Span \<Rightarrow> 'f Span \<Rightarrow> bool" where
  "span_shape s s' \<longleftrightarrow> sp_bc s' = sp_bc s \<and> sp_id s' = sp_id s \<and> sp_depval s' = sp_depval s \<and> sp_os_index s' = sp_os_index s \<and>
     List.map (\<lambda>t. (st_loc t, st_loc2 t)) (sp_terms s') = List.map (\<lambda>t. (st_loc t, st_loc2 t)) (sp_terms s)"

lemma span_shape_refl [simp]: "span_shape s s"
  by (simp add: span_shape_def)

lemma span_shape_trans: "span_shape a b \<Longrightarrow> span_shape b c \<Longrightarrow> span_shape a c"
  by (simp add: span_shape_def)

definition bc_target :: "'f Bytecode \<Rightarrow> 'f Value option" where
  "bc_target bc = (case bc_contents bc of Some (X86JmpContents j) \<Rightarrow> Some (j_target j) | _ \<Rightarrow> None)"

lemma Expand_target:
  assumes "Contents_Expand c span nv io = Ret (c', r, ds)"
    and "bc_contents bc = Some c"
  shows "bc_target (bc\<lparr>bc_contents := Some c'\<rparr>) = bc_target bc"
  using assms by (cases c) (auto simp: bc_target_def bind_out_Ret_iff Jmp_Expand_def Let_def split: if_splits option.splits prod.splits)

lemma bc_target_simps [simp]:
  "bc_target (bc\<lparr>bc_offset := x\<rparr>) = bc_target bc" "bc_target (bc\<lparr>bc_len := n\<rparr>) = bc_target bc" "bc_target (bc\<lparr>bc_index := i\<rparr>) = bc_target bc"
  by (simp_all add: bc_target_def)

definition bc_shape :: "'f Bytecode \<Rightarrow> 'f Bytecode \<Rightarrow> bool" where
  "bc_shape b b' \<longleftrightarrow> bc_index b' = bc_index b \<and> bc_fixed b' = bc_fixed b \<and> getSpecial b' = getSpecial b \<and> bc_one_way b' = bc_one_way b \<and>
     bc_target b' = bc_target b"

lemma bc_shape_refl [simp]: "bc_shape b b"
  by (simp add: bc_shape_def)

lemma bc_shape_trans: "bc_shape a b \<Longrightarrow> bc_shape b c \<Longrightarrow> bc_shape a c"
  by (simp add: bc_shape_def)

lemma Bytecode_Expand_shape:
  assumes "Bytecode_Expand span nv io bc = Ret (bc', r, ds)"
  shows "bc_shape bc bc' \<and> bc_offset bc' = bc_offset bc"
  using assms
proof (cases rule: Bytecode_Expand_cases)
  case (contents c c')
  then show ?thesis using Expand_growth [OF contents(2)] Expand_special [OF contents(2)] Expand_target [OF contents(2,1)]
    by (simp add: bc_shape_def getSpecial_def bc_one_way_def)
qed simp

text \<open>The frame of every step of the main loop.\<close>

definition same_shape :: "'f Optimizer \<Rightarrow> 'f Optimizer \<Rightarrow> bool" where
  "same_shape st st' \<longleftrightarrow> list_all2 bc_shape (op_bcs st) (op_bcs st') \<and> list_all2 span_shape (op_spans st) (op_spans st') \<and>
     op_itree st' = op_itree st \<and> List.map os_bc (op_setters st') = List.map os_bc (op_setters st) \<and>
     (\<exists>ds. op_diags st' = op_diags st @ ds)"

lemma same_shape_refl [simp]: "same_shape st st"
  by (simp add: same_shape_def list_all2_refl)

lemma same_shape_trans: "same_shape a b \<Longrightarrow> same_shape b c \<Longrightarrow> same_shape a c"
  unfolding same_shape_def
  using list_all2_trans [of bc_shape bc_shape bc_shape "op_bcs a" "op_bcs b" "op_bcs c"]
    list_all2_trans [of span_shape span_shape span_shape "op_spans a" "op_spans b" "op_spans c"] bc_shape_trans span_shape_trans
  by auto

lemma list_all2_update_same: "list_all2 R xs ys \<Longrightarrow> (k < length xs \<Longrightarrow> R (xs ! k) y) \<Longrightarrow> list_all2 R xs (ys[k := y])"
  by (cases "k < length xs") (auto simp: list_all2_conv_all_nth nth_list_update)

lemma RecalcNormal_cases:
  assumes "RecalcNormal P s = Ret (s', exc, ds)"
  obtains v where "span_value P s = Ret (v, ds)"
    "s' = (if v = LONG_MAX then s\<lparr>sp_new := v, sp_active := INACTIVE\<rparr> else s\<lparr>sp_new := v\<rparr>)" "exc = exceeds s'"
proof -
  obtain x where x: "span_value P s = Ret x" using assms by (cases "span_value P s") (simp_all add: RecalcNormal_def)
  obtain v ds' where [simp]: "x = (v, ds')" by (cases x)
  have "s' = (if v = LONG_MAX then s\<lparr>sp_new := v, sp_active := INACTIVE\<rparr> else s\<lparr>sp_new := v\<rparr>)" "exc = exceeds s'" "ds = ds'"
    using assms x by (auto simp: RecalcNormal_def Let_def)
  then show ?thesis using x that by simp
qed

lemma RecalcNormal_shape:
  assumes "RecalcNormal P s = Ret (s', exc, ds)"
  shows "span_shape s s' \<and> sp_terms s' = sp_terms s \<and> sp_cur s' = sp_cur s \<and> sp_neg s' = sp_neg s \<and>
     sp_pos s' = sp_pos s \<and> (sp_active s' = sp_active s \<or> sp_active s' = INACTIVE)"
  using assms by (rule RecalcNormal_cases) (simp add: span_shape_def)


text \<open>The four ways a callback ends.\<close>

lemma ExpandTerm_cases:
  assumes "ExpandTerm P d (k, j) st = Ret st'"
  defines "s \<equiv> op_spans st ! k" and "t \<equiv> sp_terms (op_spans st ! k) ! j"
  obtains (inactive) "k < length (op_spans st)" "j < length (sp_terms s)" "sp_active s = INACTIVE" "st' = st"
  | (queued) i1 i2 v where "k < length (op_spans st)" "j < length (sp_terms s)"
      "prec_index (op_bcs st) s (st_loc t) = Ret i1" "prec_index (op_bcs st) s (st_loc2 t) = Ret i2"
      "v = (if i1 < i2 then st_new t + d else st_new t - d)" "long_range v"
      "sp_active s = ON_Q" "st' = set_span k (s\<lparr>sp_terms := (sp_terms s)[j := t\<lparr>st_new := v\<rparr>]\<rparr>) st"
  | (active) i1 i2 v s2 exc ds where "k < length (op_spans st)" "j < length (sp_terms s)"
      "prec_index (op_bcs st) s (st_loc t) = Ret i1" "prec_index (op_bcs st) s (st_loc2 t) = Ret i2"
      "v = (if i1 < i2 then st_new t + d else st_new t - d)" "long_range v"
      "sp_active s = ACTIVE" "RecalcNormal P (s\<lparr>sp_terms := (sp_terms s)[j := t\<lparr>st_new := v\<rparr>]\<rparr>) = Ret (s2, exc, ds)"
      "st' = (if \<not> exc then report ds (set_span k s2 st)
         else let st1 = report ds (set_span k (s2\<lparr>sp_active := ON_Q\<rparr>) st) in
               (if sp_id s2 \<le> 0 then st1\<lparr>op_QA := op_QA st1 @ [k]\<rparr> else st1\<lparr>op_QB := op_QB st1 @ [k]\<rparr>))"
proof -
  have b: "k < length (op_spans st)" "j < length (sp_terms s)"
    using assms(1) by (auto simp: ExpandTerm_def s_def Let_def split: if_splits)
  show ?thesis
  proof (cases "sp_active s = INACTIVE")
    case True
    then show ?thesis using inactive assms(1) b by (simp add: ExpandTerm_def s_def Let_def)
  next
    case False
    obtain i1 i2 where i: "prec_index (op_bcs st) s (st_loc t) = Ret i1" "prec_index (op_bcs st) s (st_loc2 t) = Ret i2"
      using assms(1) b False by (auto simp: ExpandTerm_def s_def t_def Let_def bind_out_Ret_iff)
    define v where "v = (if i1 < i2 then st_new t + d else st_new t - d)"
    define s1 where "s1 = s\<lparr>sp_terms := (sp_terms s)[j := t\<lparr>st_new := v\<rparr>]\<rparr>"
    have c: "(k \<ge> length (op_spans st) \<or> j \<ge> length (sp_terms s)) = False" "(sp_active s = INACTIVE) = False"
      using b False by simp_all
    have t: "sp_terms s ! j = t" by (simp add: s_def t_def)
    have "ExpandTerm P d (k, j) st = (if \<not> long_range v then Undefined
        else if sp_active s = ON_Q then Ret (set_span k s1 st)
        else bind_out (RecalcNormal P s1) (\<lambda>(s2, exc, ds).
          if \<not> exc then Ret (report ds (set_span k s2 st))
          else let st1 = report ds (set_span k (s2\<lparr>sp_active := ON_Q\<rparr>) st) in
               Ret (if sp_id s2 \<le> 0 then st1\<lparr>op_QA := op_QA st1 @ [k]\<rparr> else st1\<lparr>op_QB := op_QB st1 @ [k]\<rparr>)))"
      unfolding ExpandTerm_def Let_def fst_conv snd_conv s_def [symmetric] t v_def s1_def
      by (simp only: c i bind_out.simps if_False)
    note e = this [symmetric, unfolded assms(1)]
    then have lr: "long_range v" by (cases "long_range v") simp_all
    show ?thesis
    proof (cases "sp_active s = ON_Q")
      case True
      then show ?thesis using queued [OF b i v_def lr] e lr by (simp add: s1_def)
    next
      case nq: False
      then have act: "sp_active s = ACTIVE" using False by (cases "sp_active s") auto
      obtain s2 exc ds where r: "RecalcNormal P s1 = Ret (s2, exc, ds)"
        using e lr nq by (cases "RecalcNormal P s1") auto
      show ?thesis using active [OF b i v_def lr act r [unfolded s1_def]] e lr nq r by (auto simp: Let_def split: if_splits)
    qed
  qed
qed

lemma span_shape_term: "j < length (sp_terms s) \<Longrightarrow> span_shape s (s\<lparr>sp_terms := (sp_terms s)[j := (sp_terms s ! j)\<lparr>st_new := v\<rparr>]\<rparr>)"
  by (simp add: span_shape_def map_update list_update_same_conv)

lemma same_shape_set_span:
  assumes "span_shape (op_spans st ! k) s"
  shows "same_shape st (set_span k s st)"
  using assms by (auto simp: same_shape_def list_all2_refl intro: list_all2_update_same)

lemma same_shape_report [simp]: "same_shape st (report ds st)"
  by (simp add: same_shape_def list_all2_refl)

lemma same_shape_queues: "same_shape st (st'\<lparr>op_QA := a\<rparr>) = same_shape st st'" "same_shape st (st'\<lparr>op_QB := b\<rparr>) = same_shape st st'"
  "same_shape (st\<lparr>op_QA := a\<rparr>) st' = same_shape st st'" "same_shape (st\<lparr>op_QB := b\<rparr>) st' = same_shape st st'"
  by (simp_all add: same_shape_def)

lemma ExpandTerm_frame:
  assumes "ExpandTerm P d n st = Ret st'"
  shows "same_shape st st' \<and> op_bcs st' = op_bcs st \<and> op_setters st' = op_setters st"
proof -
  obtain k j where n: "n = (k, j)" by (cases n)
  let ?s = "op_spans st ! k"
  show ?thesis using assms [unfolded n]
  proof (cases rule: ExpandTerm_cases)
    case (queued i1 i2 v)
    then show ?thesis using span_shape_term [of j ?s v] by (auto intro: same_shape_set_span)
  next
    case (active i1 i2 v s2 exc ds)
    have "span_shape ?s s2" using RecalcNormal_shape [OF active(8)] span_shape_term [of j ?s v] active(2) span_shape_trans by blast
    moreover from this have "span_shape ?s (s2\<lparr>sp_active := ON_Q\<rparr>)" by (simp add: span_shape_def)
    ultimately have "same_shape st (report ds (set_span k s2 st))" "same_shape st (report ds (set_span k (s2\<lparr>sp_active := ON_Q\<rparr>) st))"
      using same_shape_set_span same_shape_report same_shape_trans by blast+
    then show ?thesis using active(9) by (auto simp: Let_def same_shape_queues)
  qed simp
qed

lemma ExpandTerms_frame:
  "ExpandTerms P d ns st = Ret st' \<Longrightarrow> same_shape st st' \<and> op_bcs st' = op_bcs st \<and> op_setters st' = op_setters st"
proof (induction ns arbitrary: st)
  case (Cons n ns)
  obtain st1 where "ExpandTerm P d n st = Ret st1" "ExpandTerms P d ns st1 = Ret st'" using Cons(2) by (auto simp: bind_out_Ret_iff)
  then show ?case using Cons(1) ExpandTerm_frame same_shape_trans by metis
qed simp

lemma expand_over_frame:
  "expand_over P d b st = Ret st' \<Longrightarrow> same_shape st st' \<and> op_bcs st' = op_bcs st \<and> op_setters st' = op_setters st"
  by (auto simp: expand_over_def Let_def dest: ExpandTerms_frame)


lemma move_setter_cases:
  assumes "move_setter P m b d st = Ret (st', d')"
  defines "os \<equiv> op_setters st ! m" and "bc \<equiv> op_bcs st ! b"
    and "nv \<equiv> to_u64 (os_new (op_setters st ! m) + d)"
  obtains bc' r ds st1 st2 where "b < length (op_bcs st)" "0 \<le> d \<or> - d \<le> os_new os"
    "Bytecode_Expand 1 (to_s64 nv) (initial_io 0) bc = Ret (bc', r, ds)" "st1 = report ds (set_bc b bc' st)"
    "d' = to_s64 (to_u64 (nv + getTotalLen bc' - to_u64 (os_cur os + getTotalLen bc)))"
    "if to_s64 (to_u64 (bc_len bc' - bc_len bc)) = 0 then st2 = st1
     else expand_over P (to_s64 (to_u64 (bc_len bc' - bc_len bc))) b st1 = Ret st2"
    "st' = st2\<lparr>op_setters := (op_setters st2)[m := os\<lparr>os_new := nv, os_cur := nv\<rparr>]\<rparr>"
proof -
  have b: "b < length (op_bcs st)" "0 \<le> d \<or> - d \<le> os_new os"
    using assms(1) by (auto simp: move_setter_def Let_def os_def split: if_splits)
  then have c: "(b \<ge> length (op_bcs st)) = False" "(d < 0 \<and> - d > os_new os) = False" by auto
  have m: "move_setter P m b d st = bind_out (Bytecode_Expand 1 (to_s64 nv) (initial_io 0) bc) (\<lambda>(bc', r, ds).
        let st1 = report ds (set_bc b bc' st);
            diff' = to_s64 (to_u64 (nv + getTotalLen bc' - to_u64 (os_cur os + getTotalLen bc)));
            len_diff = to_s64 (to_u64 (bc_len bc' - bc_len bc)) in
        bind_out (if len_diff \<noteq> 0 then expand_over P len_diff b st1 else Ret st1) (\<lambda>st2.
          Ret (st2\<lparr>op_setters := (op_setters st2)[m := os\<lparr>os_new := nv, os_cur := nv\<rparr>]\<rparr>, diff')))"
    unfolding move_setter_def Let_def nv_def os_def [symmetric] bc_def [symmetric] by (simp only: c if_False)
  obtain bc' r ds where e: "Bytecode_Expand 1 (to_s64 nv) (initial_io 0) bc = Ret (bc', r, ds)"
    using assms(1) m by (cases "Bytecode_Expand 1 (to_s64 nv) (initial_io 0) bc") auto
  define ld where "ld = to_s64 (to_u64 (bc_len bc' - bc_len bc))"
  define st1 where "st1 = report ds (set_bc b bc' st)"
  have m2: "bind_out (if ld \<noteq> 0 then expand_over P ld b st1 else Ret st1) (\<lambda>st2.
          Ret (st2\<lparr>op_setters := (op_setters st2)[m := os\<lparr>os_new := nv, os_cur := nv\<rparr>]\<rparr>,
               to_s64 (to_u64 (nv + getTotalLen bc' - to_u64 (os_cur os + getTotalLen bc))))) = Ret (st', d')"
    using assms(1) m e by (simp only: bind_out.simps Let_def prod.case ld_def [symmetric] st1_def [symmetric])
  then obtain st2 where x: "(if ld \<noteq> 0 then expand_over P ld b st1 else Ret st1) = Ret st2"
    "st' = st2\<lparr>op_setters := (op_setters st2)[m := os\<lparr>os_new := nv, os_cur := nv\<rparr>]\<rparr>"
    "d' = to_s64 (to_u64 (nv + getTotalLen bc' - to_u64 (os_cur os + getTotalLen bc)))"
    by (auto simp only: bind_out_Ret_iff outcome.inject prod.inject)
  show ?thesis by (rule that [OF b e st1_def x(3) _ x(2)]) (use x(1) in \<open>simp add: ld_def split: if_splits\<close>)
qed

lemma same_shape_set_bc:
  assumes "bc_shape (op_bcs st ! b) bc"
  shows "same_shape st (set_bc b bc st)"
  using assms by (auto simp: same_shape_def list_all2_refl intro: list_all2_update_same)

lemma bcs_growth_update:
  assumes "b < length bcs" "bc_growth bc = bc_growth (bcs ! b) + e \<or> bc_growth bc + e = bc_growth (bcs ! b)"
  shows "sum_list (List.map bc_growth (bcs[b := bc])) + bc_growth (bcs ! b) = sum_list (List.map bc_growth bcs) + bc_growth bc"
proof -
  have "bcs = take b bcs @ bcs ! b # drop (Suc b) bcs" using assms(1) by (rule id_take_nth_drop)
  then have "sum_list (List.map bc_growth bcs) =
      sum_list (List.map bc_growth (take b bcs)) + bc_growth (bcs ! b) + sum_list (List.map bc_growth (drop (Suc b) bcs))"
    by (metis (no_types, lifting) list.simps(9) map_append sum_list.Cons sum_list_append add.assoc)
  then show ?thesis using assms(1) by (simp add: upd_conv_take_nth_drop)
qed

definition setters_special :: "'f Optimizer \<Rightarrow> bool" where
  "setters_special st \<longleftrightarrow> (\<forall>os\<in>set (op_setters st). \<forall>b. os_bc os = Some b \<longrightarrow> b < length (op_bcs st) \<longrightarrow>
     getSpecial (op_bcs st ! b) = SPECIAL_OFFSET)"

definition spans_one_way :: "'f Optimizer \<Rightarrow> bool" where
  "spans_one_way st \<longleftrightarrow> (\<forall>s\<in>set (op_spans st). sp_bc s < length (op_bcs st) \<longrightarrow> bc_one_way (op_bcs st ! sp_bc s))"

lemma same_shape_nth:
  assumes "same_shape st st'"
  shows "length (op_bcs st') = length (op_bcs st)" "length (op_spans st') = length (op_spans st)"
    "length (op_setters st') = length (op_setters st)"
    "b < length (op_bcs st) \<Longrightarrow> bc_shape (op_bcs st ! b) (op_bcs st' ! b)"
    "k < length (op_spans st) \<Longrightarrow> span_shape (op_spans st ! k) (op_spans st' ! k)"
    "m < length (op_setters st) \<Longrightarrow> os_bc (op_setters st' ! m) = os_bc (op_setters st ! m)"
proof -
  have a: "list_all2 bc_shape (op_bcs st) (op_bcs st')" "list_all2 span_shape (op_spans st) (op_spans st')"
    "List.map os_bc (op_setters st') = List.map os_bc (op_setters st)" using assms by (auto simp: same_shape_def)
  show "length (op_bcs st') = length (op_bcs st)" "length (op_spans st') = length (op_spans st)"
    using a by (auto dest: list_all2_lengthD)
  show l: "length (op_setters st') = length (op_setters st)" using map_eq_imp_length_eq [OF a(3)] .
  show "b < length (op_bcs st) \<Longrightarrow> bc_shape (op_bcs st ! b) (op_bcs st' ! b)"
    "k < length (op_spans st) \<Longrightarrow> span_shape (op_spans st ! k) (op_spans st' ! k)" using a by (auto dest: list_all2_nthD)
  show "m < length (op_setters st) \<Longrightarrow> os_bc (op_setters st' ! m) = os_bc (op_setters st ! m)"
    using arg_cong [OF a(3), of "\<lambda>xs. xs ! m"] l by simp
qed

lemma same_shape_special:
  assumes "same_shape st st'"
  shows "setters_special st' = setters_special st" "spans_one_way st' = spans_one_way st"
  using same_shape_nth [OF assms] 
  by (auto simp: setters_special_def spans_one_way_def all_set_conv_all_nth bc_shape_def span_shape_def)

lemma move_setter_frame:
  assumes "move_setter P m b d st = Ret (st', d')" "os_bc (op_setters st ! m) = Some b"
  shows "same_shape st st'" "setters_special st \<Longrightarrow> m < length (op_setters st) \<Longrightarrow> total_growth st' = total_growth st"
  using assms(1)
proof -
  obtain bc' r ds st1 st2 where x: "b < length (op_bcs st)"
    "Bytecode_Expand 1 (to_s64 (to_u64 (os_new (op_setters st ! m) + d))) (initial_io 0) (op_bcs st ! b) = Ret (bc', r, ds)"
    "st1 = report ds (set_bc b bc' st)"
    "if to_s64 (to_u64 (bc_len bc' - bc_len (op_bcs st ! b))) = 0 then st2 = st1
     else expand_over P (to_s64 (to_u64 (bc_len bc' - bc_len (op_bcs st ! b)))) b st1 = Ret st2"
    "st' = st2\<lparr>op_setters := (op_setters st2)[m := (op_setters st ! m)\<lparr>os_new := to_u64 (os_new (op_setters st ! m) + d),
        os_cur := to_u64 (os_new (op_setters st ! m) + d)\<rparr>]\<rparr>"
    using assms(1) by (rule move_setter_cases) blast
  have "same_shape st st1" using Bytecode_Expand_shape [OF x(2)] same_shape_set_bc same_shape_report same_shape_trans x(3) by blast
  moreover have f: "same_shape st1 st2 \<and> op_bcs st2 = op_bcs st1 \<and> op_setters st2 = op_setters st1"
    using x(4) expand_over_frame [of P _ b st1 st2] by (auto split: if_splits)
  ultimately have "same_shape st st2" using same_shape_trans by blast
  moreover have "List.map os_bc (op_setters st') = List.map os_bc (op_setters st)"
    using x(3,5) f by (cases "m < length (op_setters st)") (simp_all add: map_update list_update_same_conv list_update_beyond)
  ultimately show "same_shape st st'" using x(5) f x(3) by (auto simp: same_shape_def)
  assume a: "setters_special st" "m < length (op_setters st)"
  then have "getSpecial (op_bcs st ! b) = SPECIAL_OFFSET" using assms(2) x(1) nth_mem by (fastforce simp: setters_special_def)
  then have "bc_growth bc' = bc_growth (op_bcs st ! b)" using Bytecode_Expand_growth [OF x(2)] by simp
  then show "total_growth st' = total_growth st"
    using x(1,3,5) f bcs_growth_update [of b "op_bcs st" bc' 0] by (simp add: total_growth_def)
qed

lemma move_setters_frame:
  "move_setters P ms d st = Ret st' \<Longrightarrow> same_shape st st' \<and>
     (setters_special st \<longrightarrow> (\<forall>m\<in>set ms. m < length (op_setters st)) \<longrightarrow> total_growth st' = total_growth st)"
proof (induction ms arbitrary: d st)
  case (Cons m ms)
  show ?case
  proof (cases "os_bc (op_setters st ! m) = None \<or> d = 0")
    case True
    then show ?thesis using Cons(2) by (auto split: option.splits)
  next
    case False
    then obtain b st1 d1 where b: "os_bc (op_setters st ! m) = Some b" "move_setter P m b d st = Ret (st1, d1)" "move_setters P ms d1 st1 = Ret st'"
      using Cons(2) by (auto simp: bind_out_Ret_iff)
    note f = move_setter_frame [OF b(2,1)]
    have n: "length (op_setters st1) = length (op_setters st)" "setters_special st1 = setters_special st"
      using same_shape_nth(3) [OF f(1)] same_shape_special [OF f(1)] by auto
    show ?thesis using f Cons(1) [OF b(3)] n same_shape_trans [OF f(1)] by auto
  qed
qed simp


lemma expand_span_cases:
  assumes "expand_span P k s st = Ret st'"
  defines "bc \<equiv> op_bcs st ! sp_bc s"
  obtains (error) bc' ds where "Expand_span s (op_bcs st) = Ret (bc', None, ds)" "st' = set_span k s (report ds (set_bc (sp_bc s) bc' st))"
  | (expanded) bc' io ds s2 st2 where "Expand_span s (op_bcs st) = Ret (bc', Some io, ds)"
      "s2 = (if ex_keep io
             then s\<lparr>sp_neg := ex_neg io, sp_pos := ex_pos io,
                    sp_terms := List.map (\<lambda>t. t\<lparr>st_cur := st_new t\<rparr>) (sp_terms s), sp_cur := sp_new s\<rparr>
             else s\<lparr>sp_neg := ex_neg io, sp_pos := ex_pos io, sp_active := INACTIVE\<rparr>)"
      "st2 = set_span k s2 (report ds (set_bc (sp_bc s) bc' st))"
      "if to_s64 (to_u64 (getTotalLen bc' - getTotalLen bc)) = 0 then st' = st2
       else \<exists>st3. expand_over P (to_s64 (to_u64 (getTotalLen bc' - getTotalLen bc))) (sp_bc s) st2 = Ret st3 \<and>
          move_setters P [sp_os_index s..<length (op_setters st3)] (to_s64 (to_u64 (getTotalLen bc' - getTotalLen bc))) st3 = Ret st'"
proof -
  obtain bc' r ds where e: "Expand_span s (op_bcs st) = Ret (bc', r, ds)"
    using assms(1) by (cases "Expand_span s (op_bcs st)") (auto simp: expand_span_def)
  show ?thesis
  proof (cases r)
    case None
    then show ?thesis using error e assms(1) by (simp add: expand_span_def Let_def)
  next
    case (Some io)
    define ld where "ld = to_s64 (to_u64 (getTotalLen bc' - getTotalLen bc))"
    define s2 where "s2 = (if ex_keep io
             then s\<lparr>sp_neg := ex_neg io, sp_pos := ex_pos io,
                    sp_terms := List.map (\<lambda>t. t\<lparr>st_cur := st_new t\<rparr>) (sp_terms s), sp_cur := sp_new s\<rparr>
             else s\<lparr>sp_neg := ex_neg io, sp_pos := ex_pos io, sp_active := INACTIVE\<rparr>)"
    define st2 where "st2 = set_span k s2 (report ds (set_bc (sp_bc s) bc' st))"
    have "expand_span P k s st = (if ld = 0 then Ret st2 else bind_out (expand_over P ld (sp_bc s) st2) (\<lambda>st3.
                  move_setters P [sp_os_index s..<length (op_setters st3)] ld st3))"
      by (cases "ex_keep io") (simp_all add: expand_span_def Let_def e Some bc_def ld_def s2_def st2_def)
    from this [symmetric, unfolded assms(1)] show ?thesis using expanded [OF e [unfolded Some] s2_def st2_def]
      by (auto simp: ld_def bind_out_Ret_iff split: if_splits)
  qed
qed

lemma Expand_span_iff:
  "Expand_span s bcs = Ret (bc', r, ds) \<longleftrightarrow> sp_bc s < length bcs \<and> Bytecode_Expand (sp_id s) (sp_new s)
     \<lparr>ex_len = 0, ex_keep = False, ex_neg = sp_neg s, ex_pos = sp_pos s\<rparr> (bcs ! sp_bc s) = Ret (bc', r, ds)"
  by (simp add: Expand_span_def)

lemma expand_span_frame:
  assumes "expand_span P k s st = Ret st'" "span_shape (op_spans st ! k) s"
  shows "same_shape st st'" "setters_special st \<Longrightarrow> bc_one_way (op_bcs st ! sp_bc s) \<Longrightarrow> total_growth st' < total_growth st \<or>
      total_growth st' = total_growth st \<and> op_QA st' = op_QA st \<and> op_QB st' = op_QB st"
proof -
  let ?bc = "op_bcs st ! sp_bc s"
  obtain bc' r ds where e: "Expand_span s (op_bcs st) = Ret (bc', r, ds)"
    using assms(1) by (cases "Expand_span s (op_bcs st)") (auto simp: expand_span_def)
  have sh: "bc_shape ?bc bc'" "sp_bc s < length (op_bcs st)" "bc_growth bc' \<le> bc_growth ?bc"
    using Bytecode_Expand_shape [OF e [unfolded Expand_span_iff, THEN conjunct2]]
      Bytecode_Expand_growth [OF e [unfolded Expand_span_iff, THEN conjunct2]] e by (auto simp: Expand_span_iff)
  define st1 where "st1 = report ds (set_bc (sp_bc s) bc' st)"
  have f1: "same_shape st st1" using sh same_shape_set_bc same_shape_report same_shape_trans unfolding st1_def by blast
  have g1: "total_growth st1 + bc_growth ?bc = total_growth st + bc_growth bc'"
    using bcs_growth_update [OF sh(2), of bc' "bc_growth ?bc - bc_growth bc'"] sh(3) by (simp add: total_growth_def st1_def)
  have sp1: "op_spans st1 = op_spans st" by (simp add: st1_def)
  have "same_shape st st' \<and> (setters_special st \<longrightarrow> bc_one_way ?bc \<longrightarrow> total_growth st' < total_growth st \<or>
      total_growth st' = total_growth st \<and> op_QA st' = op_QA st \<and> op_QB st' = op_QB st)"
    using assms(1)
  proof (cases rule: expand_span_cases)
    case (error bc1 ds1)
    then have st': "st' = set_span k s st1" using e by (simp add: st1_def)
    have "same_shape st1 st'" using assms(2) by (auto simp: st' sp1 intro: same_shape_set_span)
    moreover have "total_growth st' = total_growth st1" "op_QA st' = op_QA st" "op_QB st' = op_QB st"
      by (simp_all add: st' total_growth_def st1_def)
    ultimately show ?thesis using same_shape_trans [OF f1] g1 sh(3) by (cases "bc_growth bc' = bc_growth ?bc") auto
  next
    case (expanded bc1 io ds1 s2 st2)
    have st2: "st2 = set_span k s2 st1" "bc1 = bc'" "r = Some io" using expanded(1,3) e by (simp_all add: st1_def)
    have "span_shape s s2" by (simp add: expanded(2) span_shape_def)
    then have f2: "same_shape st st2" using span_shape_trans [OF assms(2)] same_shape_trans [OF f1] same_shape_set_span
      by (metis sp1 st2(1))
    have g2: "total_growth st2 = total_growth st1" "op_QA st2 = op_QA st" "op_QB st2 = op_QB st"
      by (simp_all add: st2 total_growth_def st1_def)
    let ?ld = "to_s64 (to_u64 (getTotalLen bc1 - getTotalLen ?bc))"
    show ?thesis
    proof (cases "?ld = 0")
      case True
      then have "st' = st2" using expanded(4) by simp
      then show ?thesis using f2 g2 g1 sh(3) by (cases "bc_growth bc' = bc_growth ?bc") auto
    next
      case False
      then obtain st3 where st3: "expand_over P ?ld (sp_bc s) st2 = Ret st3"
        "move_setters P [sp_os_index s..<length (op_setters st3)] ?ld st3 = Ret st'"
        using expanded(4) by auto
      note f3 = expand_over_frame [OF st3(1)] and f4 = move_setters_frame [OF st3(2)]
      have f: "same_shape st st3" "same_shape st st'" using f2 f3 f4 same_shape_trans by blast+
      have "getTotalLen bc' \<noteq> getTotalLen ?bc" using False st2 by auto
      then have "bc_len bc' \<noteq> bc_len ?bc" using sh(1) by (auto simp: getTotalLen_def getFixedLen_def bc_shape_def)
      then have g: "bc_one_way ?bc \<Longrightarrow> bc_growth bc' < bc_growth ?bc"
        using e Bytecode_Expand_grows st2(3) by (auto simp: Expand_span_iff)
      have "total_growth st3 = total_growth st1" using f3 g2 by (simp add: total_growth_def)
      moreover have "setters_special st \<Longrightarrow> total_growth st' = total_growth st3"
        using f4 same_shape_special [OF f(1)] by auto
      ultimately show ?thesis using f(2) g g1 by auto
    qed
  qed
  then show "same_shape st st'" "setters_special st \<Longrightarrow> bc_one_way ?bc \<Longrightarrow> total_growth st' < total_growth st \<or>
      total_growth st' = total_growth st \<and> op_QA st' = op_QA st \<and> op_QB st' = op_QB st" by blast+
qed


lemma step2_span_cases:
  assumes "step2_span P k st = Ret st'"
  defines "s \<equiv> op_spans st ! k"
  obtains (inactive) "k < length (op_spans st)" "sp_active s = INACTIVE" "st' = st"
  | (quiet) s1 ds where "k < length (op_spans st)" "sp_active s \<noteq> INACTIVE"
      "RecalcNormal P (s\<lparr>sp_active := ACTIVE\<rparr>) = Ret (s1, False, ds)" "st' = report ds (set_span k s1 st)"
  | (expand) s1 ds where "k < length (op_spans st)" "sp_active s \<noteq> INACTIVE"
      "RecalcNormal P (s\<lparr>sp_active := ACTIVE\<rparr>) = Ret (s1, True, ds)" "expand_span P k s1 (report ds st) = Ret st'"
proof -
  have k: "k < length (op_spans st)" using assms(1) by (auto simp: step2_span_def Let_def split: if_splits)
  show ?thesis
  proof (cases "sp_active s = INACTIVE")
    case True
    then show ?thesis using inactive k assms(1) by (simp add: step2_span_def Let_def s_def)
  next
    case False
    obtain s1 exc ds where r: "RecalcNormal P (s\<lparr>sp_active := ACTIVE\<rparr>) = Ret (s1, exc, ds)"
      using assms(1) k False by (cases "RecalcNormal P (s\<lparr>sp_active := ACTIVE\<rparr>)") (auto simp: step2_span_def Let_def s_def)
    show ?thesis using quiet [OF k False] expand [OF k False] r assms(1) k False
      by (cases exc) (auto simp: step2_span_def Let_def s_def)
  qed
qed

lemma step2_span_frame:
  assumes "step2_span P k st = Ret st'"
  shows "same_shape st st'" "setters_special st \<Longrightarrow> spans_one_way st \<Longrightarrow> total_growth st' < total_growth st \<or>
      total_growth st' = total_growth st \<and> op_QA st' = op_QA st \<and> op_QB st' = op_QB st"
proof -
  let ?s = "op_spans st ! k"
  have "same_shape st st' \<and> (setters_special st \<longrightarrow> spans_one_way st \<longrightarrow> total_growth st' < total_growth st \<or>
      total_growth st' = total_growth st \<and> op_QA st' = op_QA st \<and> op_QB st' = op_QB st)"
    using assms
  proof (cases rule: step2_span_cases)
    case (quiet s1 ds)
    have "span_shape ?s s1" using RecalcNormal_shape [OF quiet(3)] by (simp add: span_shape_def)
    then have "same_shape st (report ds (set_span k s1 st))" using same_shape_trans [OF same_shape_set_span same_shape_report] by blast
    then show ?thesis using quiet(4) by (auto simp: total_growth_def)
  next
    case (expand s1 ds)
    have sh: "span_shape ?s s1" using RecalcNormal_shape [OF expand(3)] by (simp add: span_shape_def)
    have "spans_one_way st \<Longrightarrow> sp_bc s1 < length (op_bcs st) \<Longrightarrow> bc_one_way (op_bcs st ! sp_bc s1)"
      using sh expand(1) by (auto simp: spans_one_way_def span_shape_def)
    moreover have "sp_bc s1 < length (op_bcs st)"
      using expand(4) by (cases "Expand_span s1 (op_bcs st)") (auto simp: expand_span_def Expand_span_def split: if_splits)
    moreover have "setters_special (report ds st) = setters_special st" using same_shape_special same_shape_report by blast
    moreover have "total_growth (report ds st) = total_growth st" by (simp add: total_growth_def)
    ultimately show ?thesis using expand_span_frame [OF expand(4)] sh same_shape_trans [OF same_shape_report] by auto
  qed simp
  then show "same_shape st st'" "setters_special st \<Longrightarrow> spans_one_way st \<Longrightarrow> total_growth st' < total_growth st \<or>
      total_growth st' = total_growth st \<and> op_QA st' = op_QA st \<and> op_QB st' = op_QB st" by blast+
qed

definition queued_total :: "'f Optimizer \<Rightarrow> nat" where
  "queued_total st = length (op_QA st) + length (op_QB st)"

lemma step2_round_cases:
  assumes "step2_round P st = Ret st'" "op_QA st \<noteq> [] \<or> op_QB st \<noteq> []"
  obtains k st0 where "step2_span P k st0 = Ret st'" "st0 = st\<lparr>op_QA := op_QA st0, op_QB := op_QB st0\<rparr>"
    "op_QA st = k # op_QA st0 \<and> op_QB st0 = op_QB st \<or> op_QA st = [] \<and> op_QA st0 = [] \<and> op_QB st = k # op_QB st0"
  using assms by (cases "op_QA st"; cases "op_QB st") (auto simp: step2_round_def)

lemma step2_round_frame:
  assumes "step2_round P st = Ret st'" "op_QA st \<noteq> [] \<or> op_QB st \<noteq> []"
  shows "same_shape st st'" "setters_special st \<Longrightarrow> spans_one_way st \<Longrightarrow>
    (st', st) \<in> measures [total_growth, queued_total]"
proof -
  obtain k st0 where x: "step2_span P k st0 = Ret st'" "st0 = st\<lparr>op_QA := op_QA st0, op_QB := op_QB st0\<rparr>"
    "op_QA st = k # op_QA st0 \<and> op_QB st0 = op_QB st \<or> op_QA st = [] \<and> op_QA st0 = [] \<and> op_QB st = k # op_QB st0"
    using assms by (rule step2_round_cases)
  have sh: "same_shape st st0" by (subst x(2)) (simp add: same_shape_queues)
  have g: "total_growth st0 = total_growth st" by (subst x(2)) (simp add: total_growth_def)
  show "same_shape st st'" using step2_span_frame(1) [OF x(1)] same_shape_trans [OF sh] by blast
  assume "setters_special st" "spans_one_way st"
  then have "setters_special st0" "spans_one_way st0" using same_shape_special [OF sh] by auto
  from step2_span_frame(2) [OF x(1) this] show "(st', st) \<in> measures [total_growth, queued_total]"
    using x(3) g by (auto simp: queued_total_def)
qed

lemma Step2_terminates:
  "setters_special st \<Longrightarrow> spans_one_way st \<Longrightarrow> \<exists>r. Step2 P st = Some r"
proof (induction st rule: wf_induct_rule [OF wf_measures [of "[total_growth, queued_total]"]])
  case (1 st)
  show ?case
  proof (cases "op_QA st = [] \<and> op_QB st = []")
    case True
    then show ?thesis by (subst Step2.simps) simp
  next
    case False
    show ?thesis
    proof (cases "step2_round P st")
      case (Ret st')
      note f = step2_round_frame [OF Ret] 
      have "\<exists>r. Step2 P st' = Some r" using 1 f False same_shape_special [of st st'] by blast
      then show ?thesis using False Ret by (subst Step2.simps) simp
    qed (use False in \<open>subst Step2.simps, simp\<close>)+
  qed
qed

end
