(* ===== verification/Optimizer_Inv.thy ===== *)
theory Optimizer_Inv
  imports Optimizer_Frame
begin

text \<open>
  The invariant of the main loop (\<open>round_inv\<close>): the terms of the spans that are still
  watched have the current distances of their locations (\<open>exact_for\<close>), a span that is not
  queued needs no expansion (\<open>watched\<close>), and every offset setter stands where the current
  lengths put it and has the length it claims there (\<open>moving\<close>).  All of it holds modulo the
  width of the machine integers, as the code computes.
\<close>

unbundle bit_operations_syntax

section \<open>Positions\<close>

text \<open>Where a bytecode begins when every bytecode before it has its current length.\<close>

definition voff :: "'f Bytecode list \<Rightarrow> nat \<Rightarrow> int" where
  "voff bcs b = size_sum (take b bcs)"

definition loc_pos :: "'f Bytecode list \<Rightarrow> Location \<Rightarrow> int" where
  "loc_pos bcs loc = voff bcs (the (loc_bc loc)) + loc_off loc"

text \<open>A term's value is the distance of its locations, as a \<^verbatim>\<open>long\<close>.\<close>

definition term_exact :: "'f Bytecode list \<Rightarrow> SpanTerm \<Rightarrow> bool" where
  "term_exact bcs t \<longleftrightarrow> st_new t = to_s64 (loc_pos bcs (st_loc2 t) - loc_pos bcs (st_loc t))"

text \<open>The bytecodes a term's locations are in, and whether they lie on both sides of a bytecode's tail.\<close>

definition t_from :: "SpanTerm \<Rightarrow> nat" where "t_from t = the (loc_bc (st_loc t))"
definition t_to :: "SpanTerm \<Rightarrow> nat" where "t_to t = the (loc_bc (st_loc2 t))"

definition term_in :: "nat \<Rightarrow> SpanTerm \<Rightarrow> bool" where
  "term_in n t \<longleftrightarrow> loc_bc (st_loc t) = Some (t_from t) \<and> loc_bc (st_loc2 t) = Some (t_to t) \<and> t_from t < n \<and> t_to t < n"

definition crosses :: "nat \<Rightarrow> SpanTerm \<Rightarrow> bool" where
  "crosses b t \<longleftrightarrow> t_from t \<le> b \<and> b < t_to t \<or> t_to t \<le> b \<and> b < t_from t"

text \<open>The change of a term's value when the tail of \<open>b\<close> grows by \<open>d\<close>.\<close>

definition signed_diff :: "int \<Rightarrow> SpanTerm \<Rightarrow> int" where
  "signed_diff d t = (if t_from t < t_to t then d else - d)"

lemma to_s64_cong: "to_u64 a = to_u64 b \<Longrightarrow> to_s64 a = to_s64 b"
  by (simp add: signed_take_bit_eq_iff_take_bit_eq)

lemma to_s64_shift:
  assumes "to_u64 e = to_u64 d" "long_range (to_s64 x + e)"
  shows "to_s64 (x + d) = to_s64 x + e"
proof -
  have "to_u64 (x + d) = to_u64 (to_u64 x + to_u64 d)" by (simp add: take_bit_add)
  also have "\<dots> = to_u64 (to_u64 (to_s64 x) + to_u64 e)" using assms(1) by (simp add: take_bit_signed_take_bit)
  also have "\<dots> = to_u64 (to_s64 x + e)" by (simp only: take_bit_add)
  finally have "to_u64 (x + d) = to_u64 (to_s64 x + e)" .
  then have "to_s64 (x + d) = to_s64 (to_s64 x + e)" by (rule to_s64_cong)
  then show ?thesis using to_s64_id [OF assms(2)] by simp
qed

lemma to_u64_minus: "to_u64 a = to_u64 b \<Longrightarrow> to_u64 (- a) = to_u64 (- b)"
  unfolding take_bit_eq_mod using mod_diff_cong [of 0 "2 ^ 64" 0 a b] by simp

lemma size_sum_append [simp]: "size_sum (xs @ ys) = size_sum xs + size_sum ys"
  by (simp add: size_sum_def)

lemma size_sum_Cons [simp]: "size_sum (x # xs) = getFixedLen x + bc_len x + size_sum xs"
  by (simp add: size_sum_def)

lemma size_sum_Nil [simp]: "size_sum [] = 0"
  by (simp add: size_sum_def)

lemma voff_update:
  assumes "b < length bcs" "bc_fixed bc = bc_fixed (bcs ! b)"
  shows "voff (bcs[b := bc]) i = voff bcs i + (if b < i then bc_len bc - bc_len (bcs ! b) else 0)"
proof (cases "b < i")
  case True
  have l: "take i bcs = take b (take i bcs) @ (bcs ! b) # drop (Suc b) (take i bcs)"
    using id_take_nth_drop [of b "take i bcs"] True assms(1) by simp
  have "take i (bcs[b := bc]) = (take i bcs)[b := bc]" by (simp add: take_update_swap)
  also have "\<dots> = take b (take i bcs) @ bc # drop (Suc b) (take i bcs)"
    using True assms(1) by (simp add: upd_conv_take_nth_drop)
  finally have r: "take i (bcs[b := bc]) = take b (take i bcs) @ bc # drop (Suc b) (take i bcs)" .
  show ?thesis using True arg_cong [OF l, of size_sum] arg_cong [OF r, of size_sum] assms(2)
    by (simp add: voff_def getFixedLen_def)
next
  case False
  then show ?thesis by (simp add: voff_def take_update_cancel)
qed

lemma dist_update:
  assumes "b < length bcs" "bc_fixed bc = bc_fixed (bcs ! b)"
  shows "loc_pos (bcs[b := bc]) (st_loc2 t) - loc_pos (bcs[b := bc]) (st_loc t) =
     loc_pos bcs (st_loc2 t) - loc_pos bcs (st_loc t) +
     (if crosses b t then signed_diff (bc_len bc - bc_len (bcs ! b)) t else 0)"
  using voff_update [OF assms] by (simp add: loc_pos_def crosses_def signed_diff_def t_from_def t_to_def)

lemma term_exact_update:
  assumes "b < length bcs" "bc_fixed bc = bc_fixed (bcs ! b)" "term_exact bcs t"
    "to_u64 e = to_u64 (bc_len bc - bc_len (bcs ! b))" "st_loc t' = st_loc t" "st_loc2 t' = st_loc2 t"
    "st_new t' = st_new t + (if crosses b t then signed_diff e t else 0)" "crosses b t \<Longrightarrow> long_range (st_new t')"
  shows "term_exact (bcs[b := bc]) t'"
proof (cases "crosses b t")
  case True
  let ?x = "loc_pos bcs (st_loc2 t) - loc_pos bcs (st_loc t)"
  have "to_u64 (signed_diff e t) = to_u64 (signed_diff (bc_len bc - bc_len (bcs ! b)) t)"
    using assms(4) to_u64_minus [OF assms(4)] by (simp add: signed_diff_def)
  then have "to_s64 (?x + signed_diff (bc_len bc - bc_len (bcs ! b)) t) = to_s64 ?x + signed_diff e t"
    using assms(3,7,8) True by (intro to_s64_shift) (auto simp: term_exact_def)
  then show ?thesis using assms(3,5,6,7) True dist_update [OF assms(1,2), of t] by (simp add: term_exact_def)
next
  case False
  then show ?thesis using assms(3,5,6,7) dist_update [OF assms(1,2), of t] by (simp add: term_exact_def)
qed


section \<open>The callbacks\<close>

definition indexed :: "'f Bytecode list \<Rightarrow> bool" where
  "indexed bcs \<longleftrightarrow> int (length bcs) < 2 ^ 31 - 1 \<and> (\<forall>b < length bcs. bc_index (bcs ! b) = int b + 1)"

definition tree_complete :: "'f Optimizer \<Rightarrow> bool" where
  "tree_complete st \<longleftrightarrow> (\<forall>b < length (op_bcs st).
     distinct (Enumerate (int b + 1) (int b + 1) (op_itree st)) \<and>
     (\<forall>k j. (k, j) \<in> set (Enumerate (int b + 1) (int b + 1) (op_itree st)) \<longleftrightarrow>
        k < length (op_spans st) \<and> j < length (sp_terms (op_spans st ! k)) \<and> crosses b (sp_terms (op_spans st ! k) ! j)))"

definition terms_in :: "'f Optimizer \<Rightarrow> bool" where
  "terms_in st \<longleftrightarrow> (\<forall>k < length (op_spans st). \<forall>j < length (sp_terms (op_spans st ! k)).
     term_in (length (op_bcs st)) (sp_terms (op_spans st ! k) ! j))"

lemma span_shape_terms:
  assumes "span_shape s s'"
  shows "length (sp_terms s') = length (sp_terms s)"
    "j < length (sp_terms s) \<Longrightarrow> st_loc (sp_terms s' ! j) = st_loc (sp_terms s ! j) \<and> st_loc2 (sp_terms s' ! j) = st_loc2 (sp_terms s ! j)"
proof -
  have m: "List.map (\<lambda>t. (st_loc t, st_loc2 t)) (sp_terms s') = List.map (\<lambda>t. (st_loc t, st_loc2 t)) (sp_terms s)"
    using assms by (simp add: span_shape_def)
  show l: "length (sp_terms s') = length (sp_terms s)" using map_eq_imp_length_eq [OF m] .
  show "j < length (sp_terms s) \<Longrightarrow> st_loc (sp_terms s' ! j) = st_loc (sp_terms s ! j) \<and> st_loc2 (sp_terms s' ! j) = st_loc2 (sp_terms s ! j)"
    using arg_cong [OF m, of "\<lambda>xs. xs ! j"] l by simp
qed

lemma same_locs:
  assumes "st_loc t' = st_loc t" "st_loc2 t' = st_loc2 t"
  shows "t_from t' = t_from t" "t_to t' = t_to t" "term_in n t' = term_in n t" "crosses b t' = crosses b t"
    "signed_diff d t' = signed_diff d t"
  using assms by (simp_all add: t_from_def t_to_def term_in_def crosses_def signed_diff_def)

lemma same_shape_static:
  assumes "same_shape st st'"
  shows "indexed (op_bcs st') = indexed (op_bcs st)" "tree_complete st' = tree_complete st" "terms_in st' = terms_in st"
proof -
  note n = same_shape_nth [OF assms]
  have t: "length (sp_terms (op_spans st' ! k)) = length (sp_terms (op_spans st ! k))"
    "j < length (sp_terms (op_spans st ! k)) \<Longrightarrow> crosses b (sp_terms (op_spans st' ! k) ! j) = crosses b (sp_terms (op_spans st ! k) ! j) \<and>
       term_in m (sp_terms (op_spans st' ! k) ! j) = term_in m (sp_terms (op_spans st ! k) ! j)"
    if "k < length (op_spans st)" for k j b m
    using span_shape_terms [OF n(5) [OF that]] same_locs by blast+
  have tr: "op_itree st' = op_itree st" using assms by (simp add: same_shape_def)
  show "indexed (op_bcs st') = indexed (op_bcs st)" using n(1,4) by (auto simp: indexed_def bc_shape_def)
  show "tree_complete st' = tree_complete st" using t n(1,2) tr by (auto simp: tree_complete_def)
  show "terms_in st' = terms_in st" using t n(1,2) by (auto simp: terms_in_def)
qed

lemma prec_index_value:
  assumes "indexed bcs" "loc_bc loc = Some b" "b < length bcs"
  shows "prec_index bcs s loc = Ret (int b + 1)"
proof -
  have "bc_index (bcs ! b) = int b + 1" "int b + 1 < 2 ^ 31" using assms(1,3) by (auto simp: indexed_def)
  then show ?thesis using assms(2,3) to_s64_id [of "int b + 1"] by (simp add: prec_index_def loc_index_def long_range_def limits)
qed

definition shift_term :: "int \<Rightarrow> SpanTerm \<Rightarrow> SpanTerm" where
  "shift_term d t = t\<lparr>st_new := st_new t + signed_diff d t\<rparr>"

lemma ExpandTerm_effect:
  assumes "ExpandTerm P d (k, j) st = Ret st'" "indexed (op_bcs st)" "terms_in st"
  shows "k < length (op_spans st)" "j < length (sp_terms (op_spans st ! k))"
    "k' \<noteq> k \<Longrightarrow> op_spans st' ! k' = op_spans st ! k'"
    "sp_active (op_spans st' ! k) \<noteq> INACTIVE \<Longrightarrow> sp_active (op_spans st ! k) \<noteq> INACTIVE \<and>
       sp_terms (op_spans st' ! k) = (sp_terms (op_spans st ! k))[j := shift_term d (sp_terms (op_spans st ! k) ! j)] \<and>
       long_range (st_new (shift_term d (sp_terms (op_spans st ! k) ! j)))"
proof -
  let ?s = "op_spans st ! k" and ?t = "sp_terms (op_spans st ! k) ! j"
  show b: "k < length (op_spans st)" "j < length (sp_terms ?s)"
    using assms(1) by (auto simp: ExpandTerm_def Let_def split: if_splits)
  have "term_in (length (op_bcs st)) ?t" using assms(3) b by (simp add: terms_in_def)
  then have i: "prec_index (op_bcs st) ?s (st_loc ?t) = Ret (int (t_from ?t) + 1)" "prec_index (op_bcs st) ?s (st_loc2 ?t) = Ret (int (t_to ?t) + 1)"
    using prec_index_value [OF assms(2)] by (auto simp: term_in_def)
  have v: "v = st_new (shift_term d ?t)"
    if "prec_index (op_bcs st) ?s (st_loc ?t) = Ret i1" "prec_index (op_bcs st) ?s (st_loc2 ?t) = Ret i2"
      "v = (if i1 < i2 then st_new ?t + d else st_new ?t - d)" for i1 i2 v
    using that i by (auto simp: shift_term_def signed_diff_def)
  have sh: "shift_term d ?t = ?t\<lparr>st_new := st_new (shift_term d ?t)\<rparr>" by (simp add: shift_term_def)
  have "(k' \<noteq> k \<longrightarrow> op_spans st' ! k' = op_spans st ! k') \<and> (sp_active (op_spans st' ! k) \<noteq> INACTIVE \<longrightarrow> sp_active ?s \<noteq> INACTIVE \<and>
       sp_terms (op_spans st' ! k) = (sp_terms ?s)[j := shift_term d ?t] \<and> long_range (st_new (shift_term d ?t)))"
    using assms(1)
  proof (cases rule: ExpandTerm_cases)
    case (queued i1 i2 v')
    then show ?thesis using v [OF queued(3-5)] sh b by auto
  next
    case (active i1 i2 v' s2 exc ds)
    have "sp_terms s2 = (sp_terms ?s)[j := shift_term d ?t]" using RecalcNormal_shape [OF active(8)] v [OF active(3-5)] sh by simp
    then show ?thesis using active(6,7,9) v [OF active(3-5)] b by (simp add: Let_def)
  qed simp
  then show "k' \<noteq> k \<Longrightarrow> op_spans st' ! k' = op_spans st ! k'"
    "sp_active (op_spans st' ! k) \<noteq> INACTIVE \<Longrightarrow> sp_active ?s \<noteq> INACTIVE \<and>
       sp_terms (op_spans st' ! k) = (sp_terms ?s)[j := shift_term d ?t] \<and> long_range (st_new (shift_term d ?t))" by blast+
qed

lemma shift_term_locs [simp]: "st_loc (shift_term d t) = st_loc t" "st_loc2 (shift_term d t) = st_loc2 t"
  by (simp_all add: shift_term_def)

lemma ExpandTerms_effect:
  assumes "ExpandTerms P d ns st = Ret st'" "indexed (op_bcs st)" "terms_in st" "distinct ns"
    "sp_active (op_spans st' ! k) \<noteq> INACTIVE" "k < length (op_spans st)" "j < length (sp_terms (op_spans st ! k))"
  shows "sp_active (op_spans st ! k) \<noteq> INACTIVE \<and>
     sp_terms (op_spans st' ! k) ! j = (if (k, j) \<in> set ns then shift_term d (sp_terms (op_spans st ! k) ! j) else sp_terms (op_spans st ! k) ! j) \<and>
     ((k, j) \<in> set ns \<longrightarrow> long_range (st_new (sp_terms (op_spans st' ! k) ! j)))"
  using assms
proof (induction ns arbitrary: st)
  case (Cons n ns)
  obtain k1 j1 where n: "n = (k1, j1)" by (cases n)
  obtain st1 where st1: "ExpandTerm P d n st = Ret st1" "ExpandTerms P d ns st1 = Ret st'" using Cons(2) by (auto simp: bind_out_Ret_iff)
  note e = ExpandTerm_effect [OF st1(1) [unfolded n] Cons(3,4)]
  have sh: "same_shape st st1" using ExpandTerm_frame [OF st1(1)] by blast
  note nn = same_shape_nth [OF sh] and stt = same_shape_static [OF sh]
  have tm: "length (sp_terms (op_spans st1 ! k)) = length (sp_terms (op_spans st ! k))" for k
    using span_shape_terms(1) [OF nn(5)] e(3) by (cases "k = k1") (use e(1) in auto)
  have IH: "sp_active (op_spans st1 ! k) \<noteq> INACTIVE \<and>
     sp_terms (op_spans st' ! k) ! j = (if (k, j) \<in> set ns then shift_term d (sp_terms (op_spans st1 ! k) ! j) else sp_terms (op_spans st1 ! k) ! j) \<and>
     ((k, j) \<in> set ns \<longrightarrow> long_range (st_new (sp_terms (op_spans st' ! k) ! j)))"
    using Cons(1) [OF st1(2)] Cons(3-8) stt nn tm by auto
  show ?case
  proof (cases "k = k1")
    case True
    then show ?thesis using IH e(2,4) Cons(5,8) n by (auto simp: nth_list_update)
  next
    case False
    then show ?thesis using IH e(3) n by auto
  qed
qed simp


lemma nth_update: "j < length xs \<Longrightarrow> xs[i := x] ! j = (if i = j then x else xs ! j)"
  by (cases "i = j") auto

section \<open>The invariant of the main loop\<close>

text \<open>The terms of the spans that are still watched have the distances of their locations.\<close>

definition exact_for :: "'f Bytecode list \<Rightarrow> 'f Optimizer \<Rightarrow> bool" where
  "exact_for bcs st \<longleftrightarrow> (\<forall>k < length (op_spans st). sp_active (op_spans st ! k) \<noteq> INACTIVE \<longrightarrow>
     (\<forall>j < length (sp_terms (op_spans st ! k)). term_exact bcs (sp_terms (op_spans st ! k) ! j)))"

lemma expand_over_exact:
  assumes "expand_over P e b st = Ret st'" "indexed (op_bcs st)" "terms_in st" "tree_complete st"
    "op_bcs st = bcs[b := bc]" "b < length bcs" "bc_fixed bc = bc_fixed (bcs ! b)"
    "to_u64 e = to_u64 (bc_len bc - bc_len (bcs ! b))" "exact_for bcs st"
  shows "exact_for (op_bcs st') st'"
proof -
  let ?ns = "Enumerate (int b + 1) (int b + 1) (op_itree st)"
  have b: "b < length (op_bcs st)" using assms(5,6) by simp
  have i: "to_s64 (bc_index (op_bcs st ! b)) = int b + 1"
    using assms(2) b to_s64_id [of "int b + 1"] by (auto simp: indexed_def long_range_def limits)
  have e: "ExpandTerms P e ?ns st = Ret st'" using assms(1) by (simp add: expand_over_def i Let_def)
  note f = ExpandTerms_frame [OF e]
  note n = same_shape_nth [OF f [THEN conjunct1]]
  have tc: "distinct ?ns" "(k, j) \<in> set ?ns \<longleftrightarrow>
        k < length (op_spans st) \<and> j < length (sp_terms (op_spans st ! k)) \<and> crosses b (sp_terms (op_spans st ! k) ! j)" for k j
    using assms(4) b by (auto simp: tree_complete_def)
  show ?thesis
    unfolding exact_for_def
  proof (intro allI impI)
    fix k j assume k: "k < length (op_spans st')" "sp_active (op_spans st' ! k) \<noteq> INACTIVE" "j < length (sp_terms (op_spans st' ! k))"
    let ?t = "sp_terms (op_spans st ! k) ! j" and ?t' = "sp_terms (op_spans st' ! k) ! j"
    have kj: "k < length (op_spans st)" "j < length (sp_terms (op_spans st ! k))"
      using k n(2) span_shape_terms(1) [OF n(5)] by auto
    note x = ExpandTerms_effect [OF e assms(2,3) tc(1) k(2) kj]
    have "term_exact bcs ?t" using assms(9) x kj by (simp add: exact_for_def)
    moreover have "st_loc ?t' = st_loc ?t" "st_loc2 ?t' = st_loc2 ?t" using x by simp_all
    moreover have "st_new ?t' = st_new ?t + (if crosses b ?t then signed_diff e ?t else 0)"
      using x tc(2) kj by (simp add: shift_term_def)
    moreover have "crosses b ?t \<Longrightarrow> long_range (st_new ?t')" using x tc(2) kj by blast
    ultimately have "term_exact (bcs[b := bc]) ?t'" using term_exact_update [OF assms(6,7) _ assms(8)] by blast
    then show "term_exact (op_bcs st') ?t'" using f assms(5) by simp
  qed
qed

text \<open>An unsigned LEB128 number.\<close>

definition bc_uleb :: "'f Bytecode \<Rightarrow> bool" where
  "bc_uleb bc \<longleftrightarrow> (case bc_contents bc of Some (LEB128Bytecode v) \<Rightarrow> \<not> v_sign v | _ \<Rightarrow> False)"

lemma Bytecode_Expand_uleb:
  assumes "Bytecode_Expand span nv io bc = Ret (bc', r, ds)"
  shows "bc_uleb bc' = bc_uleb bc"
  using assms
proof (cases rule: Bytecode_Expand_cases)
  case (contents c c')
  then show ?thesis by (cases c) (auto simp: bc_uleb_def bind_out_Ret_iff LEB128_Expand_def Let_def Value_setSize_def split: if_splits)
qed simp

text \<open>
  A span that waits for no expansion: its value is within its thresholds (or has not changed,
  when it follows every change), unless it is a negative value for an unsigned LEB128 number.
\<close>

definition accepted :: "'f opt_iface \<Rightarrow> 'f Bytecode list \<Rightarrow> 'f Span \<Rightarrow> bool" where
  "accepted P bcs s \<longleftrightarrow> (\<exists>ds. span_value P s = Ret (sp_new s, ds)) \<and>
     (long_range (sp_new s) \<longrightarrow> exceeds s \<longrightarrow> 0 < sp_id s \<and> sp_new s < 0 \<and> sp_bc s < length bcs \<and> bc_uleb (bcs ! sp_bc s))"

definition watched :: "'f opt_iface \<Rightarrow> 'f Optimizer \<Rightarrow> bool" where
  "watched P st \<longleftrightarrow> (\<forall>k < length (op_spans st).
     (sp_active (op_spans st ! k) = ACTIVE \<longrightarrow> accepted P (op_bcs st) (op_spans st ! k)) \<and>
     (sp_active (op_spans st ! k) = ON_Q \<longrightarrow> k \<in> set (op_QA st) \<union> set (op_QB st)))"

lemma span_value_cong:
  assumes "sp_depval s' = sp_depval s" "List.map st_new (sp_terms s') = List.map st_new (sp_terms s)"
  shows "span_value P s' = span_value P s"
proof -
  have e: "expr_terms ts = List.map (\<lambda>v. mk_term (T_INT (set_s v)) 0) (List.map st_new ts)" for ts
    by (simp add: expr_terms_def)
  show ?thesis unfolding span_value_def assms(1) e assms(2) ..
qed

lemma RecalcNormal_accepted:
  assumes "RecalcNormal P s = Ret (s', False, ds)"
  shows "accepted P bcs s'"
  using assms
proof (rule RecalcNormal_cases)
  fix v assume v: "span_value P s = Ret (v, ds)"
    "s' = (if v = LONG_MAX then s\<lparr>sp_new := v, sp_active := INACTIVE\<rparr> else s\<lparr>sp_new := v\<rparr>)" "False = exceeds s'"
  have "span_value P s' = span_value P s" by (rule span_value_cong) (simp_all add: v(2))
  then show ?thesis using v by (simp add: accepted_def)
qed

lemma watched_set_span:
  assumes "watched P st" "sp_active s = ACTIVE \<Longrightarrow> accepted P (op_bcs st) s" "sp_active s \<noteq> ON_Q"
  shows "watched P (set_span k s st)"
  using assms by (auto simp: watched_def nth_update)

lemma watched_report [simp]: "watched P (report ds st) = watched P st"
  by (simp add: watched_def)

lemma ExpandTerm_watched:
  assumes "ExpandTerm P d n st = Ret st'" "watched P st"
  shows "watched P st'"
proof -
  obtain k j where n: "n = (k, j)" by (cases n)
  show ?thesis using assms(1) [unfolded n]
  proof (cases rule: ExpandTerm_cases)
    case (queued i1 i2 v)
    then show ?thesis using assms(2) by (auto simp: watched_def nth_update)
  next
    case (active i1 i2 v s2 exc ds)
    show ?thesis
    proof (cases exc)
      case True
      then show ?thesis using active(9) assms(2) by (auto simp: watched_def nth_update Let_def split: if_splits)
    next
      case False
      have "sp_active s2 \<noteq> ON_Q" using RecalcNormal_shape [OF active(8)] active(7) by auto
      moreover have "accepted P (op_bcs st) s2" using RecalcNormal_accepted active(8) False by auto
      ultimately show ?thesis using False active(9) watched_set_span [OF assms(2)] by simp
    qed
  qed (use assms in simp)
qed

lemma ExpandTerms_watched: "ExpandTerms P d ns st = Ret st' \<Longrightarrow> watched P st \<Longrightarrow> watched P st'"
  by (induction ns arbitrary: st) (auto simp: bind_out_Ret_iff dest: ExpandTerm_watched)

lemma expand_over_watched: "expand_over P d b st = Ret st' \<Longrightarrow> watched P st \<Longrightarrow> watched P st'"
  by (auto simp: expand_over_def Let_def dest: ExpandTerms_watched)

lemma watched_set_bc:
  assumes "watched P st" "bc_uleb bc = bc_uleb (op_bcs st ! b)"
  shows "watched P (set_bc b bc st)"
  using assms by (auto simp: watched_def accepted_def nth_update)


section \<open>Offset setters\<close>

text \<open>
  The offset setters are in the order of their bytecodes, which have the special kind; the
  placeholder is the last one.
\<close>

definition setters_sorted :: "'f Optimizer \<Rightarrow> bool" where
  "setters_sorted st \<longleftrightarrow> (\<forall>m' < length (op_setters st). \<forall>b'. os_bc (op_setters st ! m') = Some b' \<longrightarrow>
     b' < length (op_bcs st) \<and> getSpecial (op_bcs st ! b') = SPECIAL_OFFSET \<and>
     (\<forall>m < m'. \<exists>b < b'. os_bc (op_setters st ! m) = Some b))"

lemma same_shape_sorted: "same_shape st st' \<Longrightarrow> setters_sorted st' = setters_sorted st"
  using same_shape_nth [of st st'] by (auto simp: setters_sorted_def bc_shape_def) metis

lemma setters_sortedD:
  assumes "setters_sorted st" "m' < length (op_setters st)" "os_bc (op_setters st ! m') = Some b'"
  shows "b' < length (op_bcs st)" "getSpecial (op_bcs st ! b') = SPECIAL_OFFSET"
    "m < length (op_setters st) \<Longrightarrow> os_bc (op_setters st ! m) = Some b \<Longrightarrow> b < b' \<longleftrightarrow> m < m'"
    "m < m' \<Longrightarrow> os_bc (op_setters st ! m) \<noteq> None"
proof -
  have S: "\<And>m' b'. m' < length (op_setters st) \<Longrightarrow> os_bc (op_setters st ! m') = Some b' \<Longrightarrow>
     b' < length (op_bcs st) \<and> getSpecial (op_bcs st ! b') = SPECIAL_OFFSET \<and>
     (\<forall>m < m'. \<exists>b < b'. os_bc (op_setters st ! m) = Some b)" using assms(1) by (simp add: setters_sorted_def)
  show "b' < length (op_bcs st)" "getSpecial (op_bcs st ! b') = SPECIAL_OFFSET" "m < m' \<Longrightarrow> os_bc (op_setters st ! m) \<noteq> None"
    using S [OF assms(2,3)] by auto
  assume m: "m < length (op_setters st)" "os_bc (op_setters st ! m) = Some b"
  show "b < b' \<longleftrightarrow> m < m'"
    using S [OF assms(2,3)] S [OF m] assms(3) m(2) by (cases m m' rule: linorder_cases) force+
qed

text \<open>
  While a change is passed on to the setters: those before \<open>m\<close> are up to date and those
  from \<open>m\<close> on are \<open>d\<close> behind.
\<close>

definition moving :: "nat \<Rightarrow> int \<Rightarrow> 'f Optimizer \<Rightarrow> bool" where
  "moving m d st \<longleftrightarrow> (\<forall>i < length (op_setters st). \<forall>b. os_bc (op_setters st ! i) = Some b \<longrightarrow>
     os_cur (op_setters st ! i) = os_new (op_setters st ! i) \<and> to_u64 (os_new (op_setters st ! i)) = os_new (op_setters st ! i) \<and>
     bc_claim (os_new (op_setters st ! i)) (bc_contents (op_bcs st ! b)) (bc_len (op_bcs st ! b)) \<and>
     to_u64 (os_new (op_setters st ! i) + (if i < m then 0 else d)) = to_u64 (voff (op_bcs st) b + getFixedLen (op_bcs st ! b)))"

lemma special_Expand:
  assumes "Bytecode_Expand span (to_s64 tail) io bc = Ret (bc', r, [])" "getSpecial bc = SPECIAL_OFFSET" "bc_sized bc"
  shows "bc_claim tail (bc_contents bc') (bc_len bc') \<and> bc_contents bc' = bc_contents bc"
  using assms(1)
proof (cases rule: Bytecode_Expand_cases)
  case (contents c c')
  have c: "wf_contents c" "Contents_getSpecial c = SPECIAL_OFFSET" using assms(2,3) contents by (auto simp: bc_sized_def getSpecial_def)
  obtain io' where r: "r = Some io'" using contents(2) c(2) by (cases c; cases r) (auto simp: bind_out_Ret_iff)
  have "c' = c" using contents(2) c(2) by (cases c) (auto simp: bind_out_Ret_iff)
  moreover have "wf_contents c' \<and> claims_len tail c' (ex_len io') \<and> Contents_getSpecial c' = Contents_getSpecial c"
    by (rule Expand_claims [OF contents(2) [unfolded r] c(1)]) (use c(2) in auto)
  ultimately show ?thesis using contents r c claims_len_nonneg by auto
qed (use assms(2) in \<open>simp add: getSpecial_def\<close>)

definition all_sized :: "'f Optimizer \<Rightarrow> bool" where
  "all_sized st \<longleftrightarrow> (\<forall>bc\<in>set (op_bcs st). bc_sized bc)"

lemma all_sized_set_bc: "all_sized st \<Longrightarrow> bc_sized bc \<Longrightarrow> all_sized (set_bc b bc st)"
  using set_update_subset_insert [of "op_bcs st" b bc] by (auto simp: all_sized_def)

lemma all_sizedD: "all_sized st \<Longrightarrow> b < length (op_bcs st) \<Longrightarrow> bc_sized (op_bcs st ! b)"
  by (simp add: all_sized_def)

definition loop_inv :: "'f opt_iface \<Rightarrow> nat \<Rightarrow> int \<Rightarrow> 'f Optimizer \<Rightarrow> bool" where
  "loop_inv P m d st \<longleftrightarrow> indexed (op_bcs st) \<and> terms_in st \<and> tree_complete st \<and> setters_sorted st \<and>
     all_sized st \<and> exact_for (op_bcs st) st \<and> watched P st \<and> moving m d st"

lemma same_shape_loop_static:
  assumes "same_shape st st'"
  shows "indexed (op_bcs st') \<and> terms_in st' \<and> tree_complete st' \<and> setters_sorted st' \<longleftrightarrow>
    indexed (op_bcs st) \<and> terms_in st \<and> tree_complete st \<and> setters_sorted st"
  using same_shape_static [OF assms] same_shape_sorted [OF assms] by simp


lemma u64_cong_add: "to_u64 a = to_u64 b \<Longrightarrow> to_u64 c = to_u64 e \<Longrightarrow> to_u64 (a + c) = to_u64 (b + e)"
  unfolding take_bit_eq_mod by (rule mod_add_cong)

lemma u64_cong_diff: "to_u64 a = to_u64 b \<Longrightarrow> to_u64 c = to_u64 e \<Longrightarrow> to_u64 (a - c) = to_u64 (b - e)"
  unfolding take_bit_eq_mod by (rule mod_diff_cong)

lemma u64_s64 [simp]: "to_u64 (to_s64 x) = to_u64 x"
  by (simp add: take_bit_signed_take_bit)

text \<open>A change of length, as the code computes it, is right modulo the width.\<close>

lemma total_len_diff:
  assumes "bc_fixed bc' = bc_fixed bc"
  shows "to_u64 (to_s64 (to_u64 (getTotalLen bc' - getTotalLen bc))) = to_u64 (bc_len bc' - bc_len bc)"
proof -
  have "to_u64 (getTotalLen bc' - getTotalLen bc) = to_u64 (getFixedLen bc' + bc_len bc' - (getFixedLen bc + bc_len bc))"
    by (intro u64_cong_diff) (simp_all add: getTotalLen_def)
  then show ?thesis using assms by (simp add: getFixedLen_def)
qed

lemma moving_set_bc:
  assumes "moving m d st" "setters_sorted st" "m < length (op_setters st)" "os_bc (op_setters st ! m) = Some b"
    "bc_fixed bc' = bc_fixed (op_bcs st ! b)"
    "bc_claim (to_u64 (os_new (op_setters st ! m) + d)) (bc_contents bc') (bc_len bc')"
    "to_u64 d' = to_u64 (d + (bc_len bc' - bc_len (op_bcs st ! b)))"
    "op_bcs st' = (op_bcs st)[b := bc']"
    "op_setters st' = (op_setters st)[m := (op_setters st ! m)\<lparr>os_new := to_u64 (os_new (op_setters st ! m) + d),
        os_cur := to_u64 (os_new (op_setters st ! m) + d)\<rparr>]"
  shows "moving (Suc m) d' st'"
  unfolding moving_def
proof (intro allI impI)
  fix i b' assume i: "i < length (op_setters st')" "os_bc (op_setters st' ! i) = Some b'"
  let ?o = "op_setters st ! i" and ?dl = "bc_len bc' - bc_len (op_bcs st ! b)"
  have b: "b < length (op_bcs st)" using setters_sortedD(1) [OF assms(2-4)] .
  have i': "i < length (op_setters st)" "os_bc ?o = Some b'" using i assms(4,9) by (auto simp: nth_update split: if_splits)
  have M: "os_cur ?o = os_new ?o" "to_u64 (os_new ?o) = os_new ?o" "bc_claim (os_new ?o) (bc_contents (op_bcs st ! b')) (bc_len (op_bcs st ! b'))"
    "to_u64 (os_new ?o + (if i < m then 0 else d)) = to_u64 (voff (op_bcs st) b' + getFixedLen (op_bcs st ! b'))"
    using assms(1) i' by (auto simp: moving_def)
  have ord: "b < b' \<longleftrightarrow> m < i" "b' < b \<longleftrightarrow> i < m"
    using setters_sortedD(3) [OF assms(2) i'] setters_sortedD(3) [OF assms(2-4)] assms(3,4) i' by auto
  have v: "voff (op_bcs st') b' = voff (op_bcs st) b' + (if b < b' then ?dl else 0)"
    using voff_update [OF b assms(5)] assms(8) by simp
  show "os_cur (op_setters st' ! i) = os_new (op_setters st' ! i) \<and> to_u64 (os_new (op_setters st' ! i)) = os_new (op_setters st' ! i) \<and>
     bc_claim (os_new (op_setters st' ! i)) (bc_contents (op_bcs st' ! b')) (bc_len (op_bcs st' ! b')) \<and>
     to_u64 (os_new (op_setters st' ! i) + (if i < Suc m then 0 else d')) = to_u64 (voff (op_bcs st') b' + getFixedLen (op_bcs st' ! b'))"
  proof (cases "i = m")
    case True
    then have [simp]: "b' = b" using ord by simp
    show ?thesis using True M assms(3,5,6,8,9) v b by (simp add: getFixedLen_def)
  next
    case False
    then have ne: "b' \<noteq> b" using ord by auto
    have o: "op_setters st' ! i = ?o" "op_bcs st' ! b' = op_bcs st ! b'" using False ne assms(8,9) by simp_all
    show ?thesis
    proof (cases "i < m")
      case True
      then show ?thesis using M o v ord by simp
    next
      case g: False
      have "to_u64 (os_new ?o + d') = to_u64 (os_new ?o + d + ?dl)"
        using u64_cong_add [OF refl assms(7), of "os_new ?o"] by (simp add: algebra_simps)
      also have "\<dots> = to_u64 (voff (op_bcs st) b' + getFixedLen (op_bcs st ! b') + ?dl)"
        using u64_cong_add [OF M(4) refl, of ?dl] g by simp
      also have "voff (op_bcs st) b' + getFixedLen (op_bcs st ! b') + ?dl = voff (op_bcs st') b' + getFixedLen (op_bcs st ! b')"
        using v ord g False by simp
      finally show ?thesis using M o g False by simp
    qed
  qed
qed


lemma exact_for_cong:
  assumes "exact_for bcs st" "b < length bcs" "bc_fixed bc = bc_fixed (bcs ! b)" "to_u64 (bc_len bc - bc_len (bcs ! b)) = 0"
  shows "exact_for (bcs[b := bc]) st"
proof -
  have z: "to_u64 0 = to_u64 (bc_len bc - bc_len (bcs ! b))" using assms(4) by simp
  have "term_exact (bcs[b := bc]) t" if "term_exact bcs t" for t
  proof (cases "crosses b t")
    case True
    have "long_range (st_new t)" using that signed_take_bit_int_greater_eq_minus_exp [of 63] signed_take_bit_int_less_exp [of 63]
      by (simp add: term_exact_def long_range_def limits) (smt (verit) signed_take_bit_int_less_exp)
    then show ?thesis using term_exact_update [OF assms(2,3) that z, of t] by (simp add: signed_diff_def)
  next
    case False
    then show ?thesis using term_exact_update [OF assms(2,3) that z, of t] by simp
  qed
  then show ?thesis using assms(1) by (simp add: exact_for_def)
qed

lemma same_shape_diags: "same_shape st st' \<Longrightarrow> op_diags st' = [] \<Longrightarrow> op_diags st = []"
  by (auto simp: same_shape_def)

lemma exact_for_set_bc [simp]: "exact_for bcs (set_bc b bc st) = exact_for bcs st" "exact_for bcs (report ds st) = exact_for bcs st"
  by (simp_all add: exact_for_def)

text \<open>
  After the length of a bytecode has changed and the callbacks have been made, whatever else
  held still holds.
\<close>

lemma resize_inv:
  assumes "b < length (op_bcs st)" "bc_shape (op_bcs st ! b) bc'" "bc_sized bc'" "bc_uleb bc' = bc_uleb (op_bcs st ! b)"
    "if e = 0 then st2 = report ds (set_bc b bc' st) else expand_over P e b (report ds (set_bc b bc' st)) = Ret st2"
    "to_u64 e = to_u64 (bc_len bc' - bc_len (op_bcs st ! b))"
    "indexed (op_bcs st)" "terms_in st" "tree_complete st" "setters_sorted st" "all_sized st" "exact_for (op_bcs st) st" "watched P st"
  shows "same_shape st st2" "op_bcs st2 = (op_bcs st)[b := bc']" "op_setters st2 = op_setters st"
    "indexed (op_bcs st2)" "terms_in st2" "tree_complete st2" "setters_sorted st2" "all_sized st2" "exact_for (op_bcs st2) st2" "watched P st2"
proof -
  let ?st1 = "report ds (set_bc b bc' st)"
  have fx: "bc_fixed bc' = bc_fixed (op_bcs st ! b)" using assms(2) by (simp add: bc_shape_def)
  have s1: "same_shape st ?st1" using same_shape_trans [OF same_shape_set_bc same_shape_report] assms(2) by blast
  note i1 = same_shape_loop_static [OF s1]
  have f: "same_shape ?st1 st2 \<and> op_bcs st2 = op_bcs ?st1 \<and> op_setters st2 = op_setters ?st1"
    using assms(5) by (auto split: if_splits dest!: expand_over_frame)
  show s2: "same_shape st st2" using same_shape_trans [OF s1] f by blast
  show "op_bcs st2 = (op_bcs st)[b := bc']" "op_setters st2 = op_setters st" using f by simp_all
  show "indexed (op_bcs st2)" "terms_in st2" "tree_complete st2" "setters_sorted st2"
    using same_shape_loop_static [OF s2] assms(7-10) by auto
  show "all_sized st2" using all_sized_set_bc [OF assms(11,3)] f by (simp add: all_sized_def)
  have w1: "watched P ?st1" using watched_set_bc [OF assms(13,4)] by simp
  show "watched P st2" using assms(5) w1 expand_over_watched [of P e b ?st1 st2] by (auto split: if_splits)
  show "exact_for (op_bcs st2) st2"
  proof (cases "e = 0")
    case True
    then show ?thesis using assms(5,6) exact_for_cong [OF assms(12,1) fx] by simp
  next
    case False
    have ex: "expand_over P e b ?st1 = Ret st2" using assms(5) False by simp
    show ?thesis by (rule expand_over_exact [OF ex _ _ _ _ assms(1) fx assms(6)]) (use i1 assms(7-10,12) in auto)
  qed
qed

lemma move_setter_inv:
  assumes "move_setter P m b d st = Ret (st', d')" "loop_inv P m d st" "m < length (op_setters st)"
    "os_bc (op_setters st ! m) = Some b" "op_diags st' = []"
  shows "loop_inv P (Suc m) d' st'"
proof -
  let ?os = "op_setters st ! m" and ?bc = "op_bcs st ! b" and ?nv = "to_u64 (os_new (op_setters st ! m) + d)"
  have I: "indexed (op_bcs st)" "terms_in st" "tree_complete st" "setters_sorted st"
     "all_sized st" "exact_for (op_bcs st) st" "watched P st" "moving m d st" using assms(2) by (auto simp: loop_inv_def)
  obtain bc' r ds st1 st2 where x: "b < length (op_bcs st)"
    "Bytecode_Expand 1 (to_s64 ?nv) (initial_io 0) ?bc = Ret (bc', r, ds)" "st1 = report ds (set_bc b bc' st)"
    "d' = to_s64 (to_u64 (?nv + getTotalLen bc' - to_u64 (os_cur ?os + getTotalLen ?bc)))"
    "if to_s64 (to_u64 (bc_len bc' - bc_len ?bc)) = 0 then st2 = st1
     else expand_over P (to_s64 (to_u64 (bc_len bc' - bc_len ?bc))) b st1 = Ret st2"
    "st' = st2\<lparr>op_setters := (op_setters st2)[m := ?os\<lparr>os_new := ?nv, os_cur := ?nv\<rparr>]\<rparr>"
    using assms(1) by (rule move_setter_cases) blast
  have sp: "getSpecial ?bc = SPECIAL_OFFSET" using setters_sortedD(2) [OF I(4) assms(3,4)] .
  have sz: "bc_sized ?bc" using all_sizedD [OF I(5) x(1)] .
  have f2: "same_shape st1 st2" using x(5) by (auto split: if_splits dest!: expand_over_frame)
  have "op_diags st2 = []" using assms(5) x(6) by simp
  then have ds: "ds = []" using same_shape_diags [OF f2] x(3) by simp
  note cl = special_Expand [OF x(2) [unfolded ds] sp sz]
  note sh = Bytecode_Expand_shape [OF x(2), THEN conjunct1]
  note R = resize_inv [OF x(1) sh Bytecode_Expand_sized [OF x(2) sz, THEN conjunct1] Bytecode_Expand_uleb [OF x(2)]
      x(5) [unfolded x(3)] _ I(1-7)]
  have fx: "bc_fixed bc' = bc_fixed ?bc" using sh by (simp add: bc_shape_def)
  have cur: "os_cur ?os = os_new ?os" using I(8) assms(3,4) by (auto simp: moving_def)
  have t: "to_u64 (getTotalLen x) = to_u64 (getFixedLen x + bc_len x)" for x :: "'a Bytecode" by (simp add: getTotalLen_def)
  have "to_u64 d' = to_u64 (?nv + getTotalLen bc' - to_u64 (os_new ?os + getTotalLen ?bc))" by (simp add: x(4) cur)
  also have "\<dots> = to_u64 ((os_new ?os + d + (getFixedLen bc' + bc_len bc')) - (os_new ?os + (getFixedLen ?bc + bc_len ?bc)))"
    using u64_cong_add [OF refl t [of ?bc], of "os_new ?os"] t [of bc'] by (intro u64_cong_diff u64_cong_add) simp_all
  finally have d': "to_u64 d' = to_u64 (d + (bc_len bc' - bc_len ?bc))" using fx by (simp add: getFixedLen_def)
  have "moving (Suc m) d' st'"
    by (rule moving_set_bc [OF I(8,4) assms(3,4) fx cl [THEN conjunct1] d']) (use R(2,3) x(6) in simp_all)
  moreover have "indexed (op_bcs st')" "terms_in st'" "tree_complete st'" "all_sized st'" "exact_for (op_bcs st') st'" "watched P st'"
    using R x(6) by (simp_all add: terms_in_def tree_complete_def all_sized_def exact_for_def watched_def)
  moreover have "setters_sorted st'" using same_shape_sorted [OF move_setter_frame(1) [OF assms(1,4)]] I(4) by simp
  ultimately show ?thesis by (simp add: loop_inv_def)
qed


lemma moving_end:
  assumes "moving m d st" "setters_sorted st" "d = 0 \<or> (\<forall>i < length (op_setters st). m \<le> i \<longrightarrow> os_bc (op_setters st ! i) = None)"
  shows "moving n 0 st"
  using assms(1,3) unfolding moving_def by (auto split: if_splits)

lemma move_setters_inv:
  assumes "move_setters P [m..<length (op_setters st)] d st = Ret st'" "loop_inv P m d st" "op_diags st' = []"
  shows "loop_inv P n 0 st'"
  using assms
proof (induction "length (op_setters st) - m" arbitrary: m d st)
  case 0
  then have "st' = st" by simp
  moreover have "moving n 0 st" using 0 by (intro moving_end [of m d]) (auto simp: loop_inv_def)
  ultimately show ?case using 0 by (simp add: loop_inv_def)
next
  case (Suc len)
  then have m: "m < length (op_setters st)" by simp
  have M: "move_setters P (m # [Suc m..<length (op_setters st)]) d st = Ret st'" using Suc(3) m by (simp add: upt_conv_Cons)
  show ?case
  proof (cases "os_bc (op_setters st ! m) = None \<or> d = 0")
    case True
    then have "st' = st" using M by (auto split: option.splits)
    moreover have "moving n 0 st"
    proof (rule moving_end [of m d])
      show "d = 0 \<or> (\<forall>i < length (op_setters st). m \<le> i \<longrightarrow> os_bc (op_setters st ! i) = None)"
        using True Suc(4) m setters_sortedD(4) [of st _ _ m] by (auto simp: loop_inv_def le_less) (metis not_None_eq)
    qed (use Suc(4) in \<open>auto simp: loop_inv_def\<close>)
    ultimately show ?thesis using Suc(4) by (simp add: loop_inv_def)
  next
    case False
    then obtain b st1 d1 where b: "os_bc (op_setters st ! m) = Some b" "move_setter P m b d st = Ret (st1, d1)"
      "move_setters P [Suc m..<length (op_setters st)] d1 st1 = Ret st'"
      using M by (auto simp: bind_out_Ret_iff)
    have l: "length (op_setters st1) = length (op_setters st)" using same_shape_nth(3) [OF move_setter_frame(1) [OF b(2,1)]] .
    have "op_diags st1 = []" using same_shape_diags [OF move_setters_frame [OF b(3), THEN conjunct1] Suc(5)] .
    then have "loop_inv P (Suc m) d1 st1" using move_setter_inv [OF b(2) Suc(4) m b(1)] by simp
    then show ?thesis using Suc(1) [of st1 "Suc m" d1] Suc(2,5) b(3) l by simp
  qed
qed

text \<open>A span knows the first offset setter behind its bytecode, which is not an offset setter itself.\<close>

definition span_setters :: "'f Optimizer \<Rightarrow> bool" where
  "span_setters st \<longleftrightarrow> (\<forall>k < length (op_spans st). sp_bc (op_spans st ! k) < length (op_bcs st) \<and>
     getSpecial (op_bcs st ! sp_bc (op_spans st ! k)) \<noteq> SPECIAL_OFFSET \<and>
     (\<forall>i < length (op_setters st). \<forall>b. os_bc (op_setters st ! i) = Some b \<longrightarrow> (i < sp_os_index (op_spans st ! k) \<longleftrightarrow> b < sp_bc (op_spans st ! k))))"

lemma same_shape_span_setters: "same_shape st st' \<Longrightarrow> span_setters st' = span_setters st"
  using same_shape_nth [of st st'] by (auto simp: span_setters_def bc_shape_def span_shape_def)

lemma moving_resize:
  assumes "moving m 0 st" "setters_sorted st" "b < length (op_bcs st)" "getSpecial (op_bcs st ! b) \<noteq> SPECIAL_OFFSET"
    "\<And>i b'. i < length (op_setters st) \<Longrightarrow> os_bc (op_setters st ! i) = Some b' \<Longrightarrow> (i < n \<longleftrightarrow> b' < b)"
    "bc_fixed bc' = bc_fixed (op_bcs st ! b)" "op_bcs st' = (op_bcs st)[b := bc']" "op_setters st' = op_setters st"
    "to_u64 e = to_u64 (bc_len bc' - bc_len (op_bcs st ! b))"
  shows "moving n e st'"
  unfolding moving_def
proof (intro allI impI)
  fix i b' assume i: "i < length (op_setters st')" "os_bc (op_setters st' ! i) = Some b'"
  let ?o = "op_setters st ! i"
  have i': "i < length (op_setters st)" "os_bc ?o = Some b'" using i assms(8) by auto
  have M: "os_cur ?o = os_new ?o" "to_u64 (os_new ?o) = os_new ?o" "bc_claim (os_new ?o) (bc_contents (op_bcs st ! b')) (bc_len (op_bcs st ! b'))"
    "to_u64 (os_new ?o) = to_u64 (voff (op_bcs st) b' + getFixedLen (op_bcs st ! b'))"
    using assms(1) i' by (auto simp: moving_def)
  have ne: "b' \<noteq> b" using setters_sortedD(2) [OF assms(2) i'] assms(4) by auto
  have ord: "i < n \<longleftrightarrow> \<not> b < b'" using assms(5) [OF i'] ne by auto
  have v: "voff (op_bcs st') b' = voff (op_bcs st) b' + (if b < b' then bc_len bc' - bc_len (op_bcs st ! b) else 0)"
    using voff_update [OF assms(3,6)] assms(7) by simp
  have "to_u64 (os_new ?o + (if i < n then 0 else e)) = to_u64 (voff (op_bcs st') b' + getFixedLen (op_bcs st ! b'))"
    using u64_cong_add [OF M(4) assms(9)] M(4) ord v by (simp add: algebra_simps)
  then show "os_cur (op_setters st' ! i) = os_new (op_setters st' ! i) \<and> to_u64 (os_new (op_setters st' ! i)) = os_new (op_setters st' ! i) \<and>
     bc_claim (os_new (op_setters st' ! i)) (bc_contents (op_bcs st' ! b')) (bc_len (op_bcs st' ! b')) \<and>
     to_u64 (os_new (op_setters st' ! i) + (if i < n then 0 else e)) = to_u64 (voff (op_bcs st') b' + getFixedLen (op_bcs st' ! b'))"
    using M ne assms(7,8) by simp
qed


section \<open>A round\<close>

text \<open>A span that keeps its bytecode after an expansion is accepted with the new thresholds.\<close>

lemma Bytecode_Expand_keep:
  assumes "Bytecode_Expand span nv io bc = Ret (bc', Some io', ds)" "getSpecial bc \<noteq> SPECIAL_OFFSET" "\<not> ex_keep io" "ex_keep io'"
  shows "span < 0 \<or> (\<exists>v. bc_contents bc = Some (LEB128Bytecode v) \<and> (long_range nv \<longrightarrow> v_sign v \<or> 0 \<le> nv \<longrightarrow> ex_neg io' \<le> nv \<and> nv \<le> ex_pos io'))"
  using assms(1)
proof (cases rule: Bytecode_Expand_cases)
  case (contents c c')
  show ?thesis
  proof (cases c)
    case (LEB128Bytecode v)
    obtain v' where "LEB128_Expand v nv (io\<lparr>ex_len := bc_len bc\<rparr>) = Ret (v', io')"
      using contents(2) LEB128Bytecode by (auto simp: bind_out_Ret_iff)
    then show ?thesis using LEB128_Expand_thresholds [of v nv _ v' io' nv] contents(1) LEB128Bytecode by (auto simp: set_s_def)
  next
    case (FillBytecode mul v sk)
    then show ?thesis using contents(2) assms(3,4) by (auto simp: bind_out_Ret_iff Fill_Expand_def split: if_splits)
  next
    case (X86JmpContents j)
    then show ?thesis using contents(2) assms(3,4) by (auto simp: bind_out_Ret_iff Jmp_Expand_def Let_def split: if_splits)
  qed (use contents assms(2) in \<open>auto simp: getSpecial_def\<close>)
qed (use assms in simp)

definition round_inv :: "'f opt_iface \<Rightarrow> 'f Optimizer \<Rightarrow> bool" where
  "round_inv P st \<longleftrightarrow> loop_inv P 0 0 st \<and> span_setters st"

lemma Bytecode_Expand_Some:
  assumes "Bytecode_Expand span nv io bc = Ret (bc', r, ds)" "getSpecial bc \<noteq> SPECIAL_OFFSET"
  shows "r \<noteq> None"
  using assms(1)
proof (cases rule: Bytecode_Expand_cases)
  case (contents c c')
  then show ?thesis using assms(2) by (cases c) (auto simp: bind_out_Ret_iff getSpecial_def)
qed simp

lemma expanded_accepted:
  assumes "RecalcNormal P s0 = Ret (s, exc, ds0)" "sp_bc s < length bcs" "getSpecial (bcs ! sp_bc s) \<noteq> SPECIAL_OFFSET"
    "Bytecode_Expand (sp_id s) (sp_new s) \<lparr>ex_len = 0, ex_keep = False, ex_neg = sp_neg s, ex_pos = sp_pos s\<rparr> (bcs ! sp_bc s) = Ret (bc', Some io, ds)"
    "ex_keep io"
    "s2 = s\<lparr>sp_neg := ex_neg io, sp_pos := ex_pos io, sp_terms := List.map (\<lambda>t. t\<lparr>st_cur := st_new t\<rparr>) (sp_terms s), sp_cur := sp_new s\<rparr>"
  shows "accepted P bcs s2"
proof -
  obtain v where v: "span_value P s0 = Ret (v, ds0)" "s = (if v = LONG_MAX then s0\<lparr>sp_new := v, sp_active := INACTIVE\<rparr> else s0\<lparr>sp_new := v\<rparr>)"
    using assms(1) by (rule RecalcNormal_cases) 
  have "span_value P s2 = span_value P s0" by (rule span_value_cong) (simp_all add: assms(6) v(2) comp_def)
  then have val: "span_value P s2 = Ret (sp_new s2, ds0)" using v by (simp add: assms(6))
  have "exceeds s2 \<Longrightarrow> long_range (sp_new s2) \<Longrightarrow> 0 < sp_id s2 \<and> sp_new s2 < 0 \<and> bc_uleb (bcs ! sp_bc s2)"
  proof -
    assume x: "exceeds s2" "long_range (sp_new s2)"
    then have id: "0 < sp_id s" by (auto simp: exceeds_def assms(6) split: if_splits)
    then obtain w where w: "bc_contents (bcs ! sp_bc s) = Some (LEB128Bytecode w)"
      "v_sign w \<or> 0 \<le> sp_new s \<Longrightarrow> ex_neg io \<le> sp_new s \<and> sp_new s \<le> ex_pos io"
      using Bytecode_Expand_keep [OF assms(4,3) _ assms(5)] x(2) by (auto simp: assms(6))
    then have "\<not> (v_sign w \<or> 0 \<le> sp_new s)" using x(1) id by (auto simp: exceeds_def assms(6))
    then show "0 < sp_id s2 \<and> sp_new s2 < 0 \<and> bc_uleb (bcs ! sp_bc s2)" using id w(1) by (simp add: assms(6) bc_uleb_def)
  qed
  then show ?thesis using val assms(2) by (auto simp: accepted_def assms(6))
qed

lemma expand_span_inv:
  assumes "expand_span P k s st = Ret st'" "k < length (op_spans st)" "span_shape (op_spans st ! k) s"
    "RecalcNormal P s0 = Ret (s, exc, ds0)" "sp_active s0 = ACTIVE"
    "\<forall>t\<in>set (sp_terms s). term_exact (op_bcs st) t"
    "indexed (op_bcs st)" "terms_in st" "tree_complete st" "setters_sorted st" "all_sized st" "span_setters st" "moving 0 0 st"
    "exact_for (op_bcs st) st" "watched P (set_span k (s\<lparr>sp_active := INACTIVE\<rparr>) st)" "op_diags st' = []"
  shows "round_inv P st'"
proof -
  let ?b = "sp_bc s" and ?bc = "op_bcs st ! sp_bc s"
  have sp: "sp_bc (op_spans st ! k) = ?b" "sp_os_index (op_spans st ! k) = sp_os_index s" using assms(3) by (simp_all add: span_shape_def)
  have S: "?b < length (op_bcs st)" "getSpecial ?bc \<noteq> SPECIAL_OFFSET"
    "\<And>i b. i < length (op_setters st) \<Longrightarrow> os_bc (op_setters st ! i) = Some b \<Longrightarrow> (i < sp_os_index s \<longleftrightarrow> b < ?b)"
    using assms(2,12) sp by (auto simp: span_setters_def)
  have sh': "same_shape st st'" using expand_span_frame(1) [OF assms(1,3)] .
  show ?thesis using assms(1)
  proof (cases rule: expand_span_cases)
    case (error bc' ds)
    then show ?thesis using Bytecode_Expand_Some [OF error(1) [unfolded Expand_span_iff, THEN conjunct2] S(2)] by simp
  next
    case (expanded bc' io ds s2 st2)
    let ?ld = "to_s64 (to_u64 (getTotalLen bc' - getTotalLen ?bc))" and ?a = "set_span k s2 st"
    have E: "Bytecode_Expand (sp_id s) (sp_new s)
       \<lparr>ex_len = 0, ex_keep = False, ex_neg = sp_neg s, ex_pos = sp_pos s\<rparr> ?bc = Ret (bc', Some io, ds)"
      using expanded(1) by (auto simp: Expand_span_iff)
    have act: "sp_active s \<noteq> ON_Q" using RecalcNormal_shape [OF assms(4)] assms(5) by auto
    have a: "same_shape st ?a"
      using span_shape_trans [OF assms(3)] by (intro same_shape_set_span) (simp add: expanded(2) span_shape_def)
    have acc: "sp_active s2 = ACTIVE \<Longrightarrow> accepted P (op_bcs st) s2"
      using expanded_accepted [OF assms(4) S(1,2) E] expanded(2) by (auto split: if_splits)
    have "watched P (set_span k s2 (set_span k (s\<lparr>sp_active := INACTIVE\<rparr>) st))"
      using watched_set_span [OF assms(15), of s2] acc act expanded(2) by (auto split: if_splits)
    then have w: "watched P ?a" by (simp add: set_span_def)
    have "exact_for (op_bcs st) ?a"
      using assms(6,14) expanded(2) by (auto simp: exact_for_def nth_update term_exact_def all_set_conv_all_nth split: if_splits)
    then have ex: "exact_for (op_bcs ?a) ?a" by simp
    have st2: "st2 = report ds (set_bc ?b bc' ?a)" using expanded(3) by (simp add: set_span_def set_bc_def report_def)
    obtain st3 where st3: "if ?ld = 0 then st3 = report ds (set_bc ?b bc' ?a) else expand_over P ?ld ?b (report ds (set_bc ?b bc' ?a)) = Ret st3"
      "if ?ld = 0 then st' = st3 else move_setters P [sp_os_index s..<length (op_setters st3)] ?ld st3 = Ret st'"
      using expanded(4) st2 by (auto split: if_splits)
    have shb: "bc_shape ?bc bc'" using Bytecode_Expand_shape [OF E] by simp
    have fx: "bc_fixed bc' = bc_fixed ?bc" using shb by (simp add: bc_shape_def)
    have szd: "all_sized ?a" using assms(11) by (simp add: all_sized_def)
    have ld: "to_u64 ?ld = to_u64 (bc_len bc' - bc_len (op_bcs ?a ! ?b))" using total_len_diff [OF fx] by simp
    have ba: "?b < length (op_bcs ?a)" "bc_shape (op_bcs ?a ! ?b) bc'" "bc_uleb bc' = bc_uleb (op_bcs ?a ! ?b)" "bc_sized bc'"
      using S(1) shb Bytecode_Expand_uleb [OF E] Bytecode_Expand_sized [OF E all_sizedD [OF assms(11) S(1)]] by simp_all
    have sta: "indexed (op_bcs ?a)" "terms_in ?a" "tree_complete ?a" "setters_sorted ?a"
      using same_shape_loop_static [OF a] assms(7-10) by auto
    note R = resize_inv [OF ba(1,2,4,3) st3(1) ld sta szd ex w]
    have mv: "moving (sp_os_index s) ?ld st3"
      by (rule moving_resize [OF assms(13,10) S fx]) (use R(2,3) ld in simp_all)
    have L: "loop_inv P (sp_os_index s) ?ld st3" using R mv by (simp add: loop_inv_def)
    have "loop_inv P 0 0 st'"
    proof (cases "?ld = 0")
      case True
      then show ?thesis using st3(2) L moving_end [OF mv R(7)] by (simp add: loop_inv_def)
    next
      case False
      then show ?thesis using st3(2) move_setters_inv [OF _ L assms(16)] by simp
    qed
    then show ?thesis using same_shape_span_setters [OF sh'] assms(12) by (simp add: round_inv_def)
  qed
qed


lemma moving_simps: "moving m d (set_span k s st) = moving m d st" "moving m d (report ds st) = moving m d st"
  by (simp_all add: moving_def)

lemma watched_pop:
  assumes "watched P st" "st0 = st\<lparr>op_QA := op_QA st0, op_QB := op_QB st0\<rparr>"
    "op_QA st = k # op_QA st0 \<and> op_QB st0 = op_QB st \<or> op_QA st = [] \<and> op_QA st0 = [] \<and> op_QB st = k # op_QB st0"
    "sp_active s = ACTIVE \<Longrightarrow> accepted P (op_bcs st) s" "sp_active s \<noteq> ON_Q"
  shows "watched P (set_span k s st0)"
proof -
  have e: "op_spans st0 = op_spans st" "op_bcs st0 = op_bcs st" by (subst assms(2), simp)+
  show ?thesis unfolding watched_def
  proof (intro allI impI)
    fix i assume i: "i < length (op_spans (set_span k s st0))"
    then have "(sp_active (op_spans st ! i) = ACTIVE \<longrightarrow> accepted P (op_bcs st) (op_spans st ! i)) \<and>
       (sp_active (op_spans st ! i) = ON_Q \<longrightarrow> i \<in> set (op_QA st) \<union> set (op_QB st))" using assms(1) e by (simp add: watched_def)
    then show "(sp_active (op_spans (set_span k s st0) ! i) = ACTIVE \<longrightarrow> accepted P (op_bcs (set_span k s st0)) (op_spans (set_span k s st0) ! i)) \<and>
       (sp_active (op_spans (set_span k s st0) ! i) = ON_Q \<longrightarrow> i \<in> set (op_QA (set_span k s st0)) \<union> set (op_QB (set_span k s st0)))"
      using i e assms(3-5) by (cases "i = k") auto
  qed
qed

lemma fields_cong:
  assumes "op_spans st0 = op_spans st" "op_bcs st0 = op_bcs st" "op_setters st0 = op_setters st" "op_itree st0 = op_itree st"
  shows "terms_in st0 = terms_in st" "tree_complete st0 = tree_complete st" "setters_sorted st0 = setters_sorted st"
    "all_sized st0 = all_sized st" "span_setters st0 = span_setters st" "moving m d st0 = moving m d st" "exact_for bcs st0 = exact_for bcs st"
  by (simp_all add: assms terms_in_def tree_complete_def setters_sorted_def all_sized_def span_setters_def moving_def exact_for_def)

lemma step2_round_inv:
  assumes "step2_round P st = Ret st'" "op_QA st \<noteq> [] \<or> op_QB st \<noteq> []" "round_inv P st" "op_diags st' = []"
  shows "round_inv P st'"
proof -
  obtain k st0 where x: "step2_span P k st0 = Ret st'" "st0 = st\<lparr>op_QA := op_QA st0, op_QB := op_QB st0\<rparr>"
    "op_QA st = k # op_QA st0 \<and> op_QB st0 = op_QB st \<or> op_QA st = [] \<and> op_QA st0 = [] \<and> op_QB st = k # op_QB st0"
    using assms(1,2) by (rule step2_round_cases)
  have e: "op_spans st0 = op_spans st" "op_bcs st0 = op_bcs st" "op_setters st0 = op_setters st" "op_itree st0 = op_itree st"
    by (subst x(2), simp)+
  have I: "indexed (op_bcs st0)" "terms_in st0" "tree_complete st0" "setters_sorted st0"
     "all_sized st0" "span_setters st0" "moving 0 0 st0" "exact_for (op_bcs st0) st0"
    using assms(3) fields_cong [OF e] by (simp_all add: round_inv_def loop_inv_def e)
  have w: "watched P st" using assms(3) by (simp add: round_inv_def loop_inv_def)
  show ?thesis using x(1)
  proof (cases rule: step2_span_cases)
    case inactive
    have "watched P (set_span k (op_spans st0 ! k) st0)" by (rule watched_pop [OF w x(2,3)]) (use inactive in simp_all)
    then have "watched P st0" by (simp add: set_span_def)
    then show ?thesis using I inactive(3) by (simp add: round_inv_def loop_inv_def)
  next
    case (quiet s1 ds)
    note R = RecalcNormal_shape [OF quiet(3)]
    have "watched P (set_span k s1 st0)"
      by (rule watched_pop [OF w x(2,3)]) (use R RecalcNormal_accepted [OF quiet(3)] in auto)
    moreover have "exact_for (op_bcs st0) (set_span k s1 st0)" using I(8) quiet(1,2) R by (auto simp: exact_for_def nth_update split: if_splits)
    moreover have sh: "same_shape st0 st'" using step2_span_frame(1) [OF x(1)] .
    ultimately show ?thesis using I quiet(4) same_shape_loop_static [OF sh] same_shape_span_setters [OF sh]
      by (simp add: round_inv_def loop_inv_def all_sized_def moving_simps)
  next
    case (expand s1 ds)
    note R = RecalcNormal_shape [OF expand(3)]
    have "watched P (set_span k (s1\<lparr>sp_active := INACTIVE\<rparr>) st0)" by (rule watched_pop [OF w x(2,3)]) simp_all
    then have w': "watched P (set_span k (s1\<lparr>sp_active := INACTIVE\<rparr>) (report ds st0))" by (simp add: watched_def)
    have sh: "span_shape (op_spans (report ds st0) ! k) s1" using R by (simp add: span_shape_def)
    have te: "\<forall>t\<in>set (sp_terms s1). term_exact (op_bcs (report ds st0)) t"
      using I(8) expand(1,2) R by (auto simp: exact_for_def all_set_conv_all_nth)
    show ?thesis
      by (rule expand_span_inv [OF expand(4) _ sh expand(3) _ te])
        (use I w' assms(4) expand(1) fields_cong [of "report ds st0" st0] in simp_all)
  qed
qed

lemma Step2_result:
  assumes "Step2 P st = Some (Ret st')"
  shows "same_shape st st' \<and> op_QA st' = [] \<and> op_QB st' = [] \<and> (round_inv P st \<longrightarrow> op_diags st' = [] \<longrightarrow> round_inv P st')"
proof -
  let ?Q = "\<lambda>P st r. \<forall>st'. r = Ret st' \<longrightarrow> same_shape st st' \<and> op_QA st' = [] \<and> op_QB st' = [] \<and>
     (round_inv P st \<longrightarrow> op_diags st' = [] \<longrightarrow> round_inv P st')"
  have "(\<lambda>(P, st). ?Q P st) (P, st) (Ret st')"
  proof (rule Step2.raw_induct [OF _ assms])
    fix rec P st r
    assume IH: "\<And>P st r. rec P st = Some r \<Longrightarrow> (\<lambda>(P, st). ?Q P st) (P, st) r"
      and eq: "(if op_QA st = [] \<and> op_QB st = [] then Some (Ret st)
        else case step2_round P st of Ret st' \<Rightarrow> rec P st' | Fail d \<Rightarrow> Some (Fail d) | Undefined \<Rightarrow> Some Undefined) = Some r"
    show "(\<lambda>(P, st). ?Q P st) (P, st) r"
    proof (cases "op_QA st = [] \<and> op_QB st = []")
      case True
      then show ?thesis using eq by auto
    next
      case False
      show ?thesis
      proof (cases "step2_round P st")
        case (Ret st1)
        then have "rec P st1 = Some r" using eq False by simp
        note IH1 = IH [OF this]
        have q: "op_QA st \<noteq> [] \<or> op_QB st \<noteq> []" using False by blast
        show ?thesis using IH1 same_shape_trans [OF step2_round_frame(1) [OF Ret q]] step2_round_inv [OF Ret q] same_shape_diags by auto
      qed (use eq False in auto)
    qed
  qed
  then show ?thesis by simp
qed

end
