(* ===== verification/Optimizer_Init.thy ===== *)
theory Optimizer_Init
  imports Optimizer_Inv
begin

text \<open>
  The initialization of the optimizer: what \<^verbatim>\<open>UpdateOffsets\<close> leaves (\<open>placed\<close>), that the
  interval tree holds every term under the bytecodes between its locations
  (\<open>itree_spans_complete\<close>), and what the first two steps establish (\<open>prepared\<close>).
\<close>

unbundle bit_operations_syntax

section \<open>Offsets\<close>

lemma getInt_range: "long_range (getInt n)"
  by (cases n) (auto simp: long_range_def limits)

lemma span_value_range: "span_value P s = Ret (v, ds) \<Longrightarrow> long_range v"
proof (cases "isRelative (sp_depval s) \<or> v_abs (sp_depval s) = None")
  case True
  assume "span_value P s = Ret (v, ds)"
  then show ?thesis using True by (auto simp: span_value_def long_range_def limits split: if_splits)
next
  case False
  then obtain e where e: "v_abs (sp_depval s) = Some e" "\<not> isRelative (sp_depval s)" by auto
  assume "span_value P s = Ret (v, ds)"
  then have "v = LONG_MAX \<or> (\<exists>n. v = getInt n)"
    using e by (auto simp: span_value_def bind_out_Ret_iff split: option.splits)
  then show ?thesis using getInt_range by (auto simp: long_range_def limits)
qed

text \<open>The bytecodes are where the lengths put them and have the length their contents claim there.\<close>

definition placed :: "int \<Rightarrow> 'f Bytecode list \<Rightarrow> bool" where
  "placed off bcs \<longleftrightarrow> (\<forall>i < length bcs. bc_offset (bcs ! i) = to_u64 (off + voff bcs i) \<and>
     bc_claim (to_u64 (off + voff bcs i + getFixedLen (bcs ! i))) (bc_contents (bcs ! i)) (bc_len (bcs ! i)))"

definition claims_placed :: "int \<Rightarrow> 'f Bytecode list \<Rightarrow> bool" where
  "claims_placed off bcs \<longleftrightarrow> (\<forall>i < length bcs. getSpecial (bcs ! i) = SPECIAL_OFFSET \<longrightarrow>
     bc_claim (to_u64 (off + voff bcs i + getFixedLen (bcs ! i))) (bc_contents (bcs ! i)) (bc_len (bcs ! i)))"

lemma voff_Cons: "voff (bc # bcs) (Suc i) = getFixedLen bc + bc_len bc + voff bcs i" "voff bcs 0 = 0"
  by (simp_all add: voff_def)

lemma next_offset:
  assumes "bc_offset bc = to_u64 off"
  shows "getNextOffset bc = to_u64 (off + (getFixedLen bc + bc_len bc))"
  unfolding getNextOffset_def getTotalLen_def assms by (simp add: take_bit_add)

lemma shift_off: "to_u64 (to_u64 a + b) = to_u64 (a + b)" for a b :: int
  by (simp add: take_bit_eq_mod mod_add_left_eq)

lemma bc_offset_simps [simp]:
  "bc_sized (bc\<lparr>bc_offset := x\<rparr>) = bc_sized bc" "bc_uleb (bc\<lparr>bc_offset := x\<rparr>) = bc_uleb bc"
  "getSpecial (bc\<lparr>bc_offset := x\<rparr>) = getSpecial bc" "bc_one_way (bc\<lparr>bc_offset := x\<rparr>) = bc_one_way bc"
  "getFixedLen (bc\<lparr>bc_offset := x\<rparr>) = getFixedLen bc" "bc_wf (bc\<lparr>bc_offset := x\<rparr>) = bc_wf bc"
  by (simp_all add: bc_sized_def bc_uleb_def getSpecial_def bc_one_way_def getFixedLen_def bc_wf_def split: option.splits)

lemma bc_shape_offset [simp]: "bc_shape bc (bc'\<lparr>bc_offset := x\<rparr>) = bc_shape bc bc'" "bc_shape (bc\<lparr>bc_offset := x\<rparr>) bc' = bc_shape bc bc'"
  by (simp_all add: bc_shape_def)

lemma UpdateOffset_kept:
  assumes "UpdateOffset off bc = Ret (bc', off', [])" "bc_sized bc"
  shows "bc_shape bc bc' \<and> bc_sized bc' \<and> bc_uleb bc' = bc_uleb bc"
proof (cases "getSpecial bc = SPECIAL_OFFSET")
  case True
  then obtain bc1 r where e: "Bytecode_Expand 1 (to_s64 (to_u64 (off + getFixedLen bc))) (initial_io (to_s64 (getNextOffset bc))) bc = Ret (bc1, r, [])"
    "bc' = bc1\<lparr>bc_offset := off\<rparr>" using assms(1) by (auto simp: UpdateOffset_def bind_out_Ret_iff Let_def)
  show ?thesis using Bytecode_Expand_shape [OF e(1)] Bytecode_Expand_sized [OF e(1) assms(2)] Bytecode_Expand_uleb [OF e(1)] e(2) by simp
next
  case False
  then have "bc' = bc\<lparr>bc_offset := off\<rparr>" using assms(1) by (auto simp: UpdateOffset_def Let_def)
  then show ?thesis using assms(2) by simp
qed

lemma update_offsets_placed:
  assumes "update_offsets (to_u64 off) bcs = Ret (bcs', [])" "\<forall>bc\<in>set bcs. bc_sized bc"
  shows "placed off bcs' \<and> list_all2 bc_shape bcs bcs' \<and> (\<forall>bc\<in>set bcs'. bc_sized bc)"
  using assms
proof (induction bcs arbitrary: off bcs')
  case (Cons bc bcs)
  obtain bc1 off1 bcs1 where u: "UpdateOffset (to_u64 off) bc = Ret (bc1, off1, [])" "update_offsets off1 bcs = Ret (bcs1, [])" "bcs' = bc1 # bcs1"
    using Cons(2) by (auto simp: bind_out_Ret_iff)
  have sz: "bc_sized bc" "\<forall>bc\<in>set bcs. bc_sized bc" using Cons(3) by auto
  note c = UpdateOffset_claim [OF u(1) sz(1)] and k = UpdateOffset_kept [OF u(1) sz(1)]
  have off1: "off1 = to_u64 (off + (getFixedLen bc1 + bc_len bc1))" using c next_offset by metis
  note IH = Cons(1) [OF u(2) [unfolded off1] sz(2)]
  have "placed off (bc1 # bcs1)"
    unfolding placed_def
  proof (intro allI impI)
    fix i assume i: "i < length (bc1 # bcs1)"
    show "bc_offset ((bc1 # bcs1) ! i) = to_u64 (off + voff (bc1 # bcs1) i) \<and>
     bc_claim (to_u64 (off + voff (bc1 # bcs1) i + getFixedLen ((bc1 # bcs1) ! i))) (bc_contents ((bc1 # bcs1) ! i)) (bc_len ((bc1 # bcs1) ! i))"
      using i c IH by (cases i) (auto simp: voff_Cons placed_def shift_off add.assoc)
  qed
  then show ?case using IH k u(3) by simp
qed (simp add: placed_def)

lemma claims_unique: "bc_claim t c l1 \<Longrightarrow> bc_claim t c l2 \<Longrightarrow> l1 = l2"
proof (cases c)
  case (Some d)
  assume "bc_claim t c l1" "bc_claim t c l2"
  then show ?thesis using Some by (cases d) (auto split: outcome.splits option.splits)
qed simp

lemma update_offsets_settled:
  assumes "update_offsets (to_u64 off) bcs = Ret (bcs', [])" "\<forall>bc\<in>set bcs. bc_sized bc" "claims_placed off bcs"
  shows "length bcs' = length bcs \<and> (\<forall>i < length bcs. bcs' ! i = (bcs ! i)\<lparr>bc_offset := to_u64 (off + voff bcs i)\<rparr>)"
  using assms
proof (induction bcs arbitrary: off bcs')
  case (Cons bc bcs)
  obtain bc1 off1 bcs1 where u: "UpdateOffset (to_u64 off) bc = Ret (bc1, off1, [])" "update_offsets off1 bcs = Ret (bcs1, [])" "bcs' = bc1 # bcs1"
    using Cons(2) by (auto simp: bind_out_Ret_iff)
  have sz: "bc_sized bc" "\<forall>bc\<in>set bcs. bc_sized bc" using Cons(3) by auto
  have bc1: "bc1 = bc\<lparr>bc_offset := to_u64 off\<rparr>"
  proof (cases "getSpecial bc = SPECIAL_OFFSET")
    case True
    let ?tail = "to_u64 (to_u64 off + getFixedLen bc)"
    obtain b r where e: "Bytecode_Expand 1 (to_s64 ?tail) (initial_io (to_s64 (getNextOffset bc))) bc = Ret (b, r, [])"
      "bc1 = b\<lparr>bc_offset := to_u64 off\<rparr>" using u(1) True by (auto simp: UpdateOffset_def bind_out_Ret_iff Let_def)
    have x: "bc_claim ?tail (bc_contents b) (bc_len b)" "bc_contents b = bc_contents bc" using special_Expand [OF e(1) True sz(1)] by auto
    have "claims_placed off (bc # bcs)" by (rule Cons(4))
    then have "bc_claim ?tail (bc_contents bc) (bc_len bc)" using True by (auto simp: claims_placed_def voff_Cons shift_off)
    then have l: "bc_len b = bc_len bc" using x claims_unique by metis
    from e(1) show ?thesis
    proof (cases rule: Bytecode_Expand_cases)
      case (contents c c')
      then show ?thesis using e(2) l x(2) by (cases r) auto
    qed (use e(2) in simp)
  next
    case False
    then show ?thesis using u(1) by (auto simp: UpdateOffset_def Let_def)
  qed
  have off1: "off1 = to_u64 (off + (getFixedLen bc + bc_len bc))"
    using UpdateOffset_claim [OF u(1) sz(1)] next_offset [of bc1 off] by (simp add: bc1 getFixedLen_def)
  have "claims_placed (off + (getFixedLen bc + bc_len bc)) bcs" unfolding claims_placed_def
  proof (intro allI impI)
    fix i assume "i < length bcs" "getSpecial (bcs ! i) = SPECIAL_OFFSET"
    then show "bc_claim (to_u64 (off + (getFixedLen bc + bc_len bc) + voff bcs i + getFixedLen (bcs ! i))) (bc_contents (bcs ! i)) (bc_len (bcs ! i))"
      using Cons(4) [unfolded claims_placed_def, rule_format, of "Suc i"] by (simp add: voff_Cons add.assoc)
  qed
  note IH = Cons(1) [OF u(2) [unfolded off1] sz(2) this]
  show ?case
  proof (intro conjI allI impI)
    show "length bcs' = length (bc # bcs)" using IH u(3) by simp
    fix i assume "i < length (bc # bcs)"
    then show "bcs' ! i = ((bc # bcs) ! i)\<lparr>bc_offset := to_u64 (off + voff (bc # bcs) i)\<rparr>"
      using IH u(3) bc1 by (cases i) (simp_all add: voff_Cons add.assoc)
  qed
qed simp


section \<open>The interval tree\<close>

text \<open>The intervals a list of terms, a list of spans is entered with.\<close>

definition t_low :: "SpanTerm \<Rightarrow> int" where "t_low t = int (min (t_from t) (t_to t)) + 1"
definition t_high :: "SpanTerm \<Rightarrow> int" where "t_high t = int (max (t_from t) (t_to t))"

fun term_entries :: "nat \<Rightarrow> nat \<Rightarrow> SpanTerm list \<Rightarrow> (int \<times> int \<times> (nat \<times> nat)) list" where
  "term_entries k j [] = []"
| "term_entries k j (t # ts) =
     (if t_from t \<noteq> t_to t then [(t_low t, t_high t, (k, j))] else []) @ term_entries k (Suc j) ts"

fun span_entries :: "nat \<Rightarrow> 'f Span list \<Rightarrow> (int \<times> int \<times> (nat \<times> nat)) list" where
  "span_entries k [] = []"
| "span_entries k (s # ss) = term_entries k 0 (sp_terms s) @ span_entries (Suc k) ss"

lemma term_entries_mem:
  "(lo, hi, (k', j')) \<in> set (term_entries k j ts) \<longleftrightarrow>
     k' = k \<and> (\<exists>i < length ts. j' = j + i \<and> t_from (ts ! i) \<noteq> t_to (ts ! i) \<and> lo = t_low (ts ! i) \<and> hi = t_high (ts ! i))"
proof (induction ts arbitrary: j)
  case (Cons t ts)
  show ?case using Cons.IH [of "Suc j"] by (auto simp: Ex_less_Suc2)
qed simp

lemma span_entries_mem:
  "e \<in> set (span_entries k ss) \<longleftrightarrow> (\<exists>i < length ss. e \<in> set (term_entries (k + i) 0 (sp_terms (ss ! i))))"
proof (induction ss arbitrary: k)
  case (Cons s ss)
  show ?case using Cons.IH [of "Suc k"] by (simp add: Ex_less_Suc2)
qed simp

lemma term_entries_distinct: "distinct (List.map (\<lambda>e. snd (snd e)) (term_entries k j ts))"
proof (induction ts arbitrary: j)
  case (Cons t ts)
  have "(k, j) \<notin> (\<lambda>e. snd (snd e)) ` set (term_entries k (Suc j) ts)" using term_entries_mem [of _ _ k j k "Suc j" ts] by auto
  then show ?case using Cons.IH [of "Suc j"] by auto
qed simp

lemma span_entries_distinct: "distinct (List.map (\<lambda>e. snd (snd e)) (span_entries k ss))"
proof (induction ss arbitrary: k)
  case (Cons s ss)
  have "(\<lambda>e. snd (snd e)) ` set (term_entries k 0 (sp_terms s)) \<inter> (\<lambda>e. snd (snd e)) ` set (span_entries (Suc k) ss) = {}"
    by (auto simp: term_entries_mem span_entries_mem)
  then show ?case using Cons.IH [of "Suc k"] term_entries_distinct by simp
qed simp

lemma prec_index_Ret:
  assumes "prec_index bcs s loc = Ret i" "indexed bcs" "loc_bc loc \<noteq> None"
  shows "the (loc_bc loc) < length bcs \<and> i = int (the (loc_bc loc)) + 1"
proof -
  obtain b where b: "loc_bc loc = Some b" using assms(3) by auto
  then have "b < length bcs" using assms(1) by (auto simp: prec_index_def loc_index_def split: if_splits)
  then show ?thesis using prec_index_value [OF assms(2) b, of s] assms(1) b by simp
qed

definition locs_known :: "SpanTerm \<Rightarrow> bool" where
  "locs_known t \<longleftrightarrow> loc_bc (st_loc t) \<noteq> None \<and> loc_bc (st_loc2 t) \<noteq> None"

lemma ITreeAdd_entry:
  assumes "ITreeAdd bcs (k, j) s t tree = Ret tree'" "indexed bcs" "locs_known t"
  shows "term_in (length bcs) t \<and> tree' = itree.insert_all (term_entries k j [t]) tree"
proof -
  obtain i1 i2 where i: "prec_index bcs s (st_loc t) = Ret i1" "prec_index bcs s (st_loc2 t) = Ret i2"
    using assms(1) by (auto simp: ITreeAdd_def bind_out_Ret_iff)
  have "t_from t < length bcs \<and> i1 = int (t_from t) + 1" "t_to t < length bcs \<and> i2 = int (t_to t) + 1"
    using prec_index_Ret [OF i(1) assms(2)] prec_index_Ret [OF i(2) assms(2)] assms(3) by (auto simp: locs_known_def t_from_def t_to_def)
  then show ?thesis using assms(1,3) i
    by (auto simp: ITreeAdd_def term_in_def locs_known_def t_from_def t_to_def itree.insert_all_def t_low_def t_high_def min_def max_def)
qed

lemma insert_all_append: "itree.insert_all (xs @ ys) tree = itree.insert_all ys (itree.insert_all xs tree)"
  by (simp add: itree.insert_all_def)

lemma itree_terms_entries:
  "itree_terms bcs k s j ts tree = Ret tree' \<Longrightarrow> indexed bcs \<Longrightarrow> \<forall>t\<in>set ts. locs_known t \<Longrightarrow>
     (\<forall>t\<in>set ts. term_in (length bcs) t) \<and> tree' = itree.insert_all (term_entries k j ts) tree"
proof (induction ts arbitrary: j tree)
  case (Cons t ts)
  obtain tree1 where t1: "ITreeAdd bcs (k, j) s t tree = Ret tree1" "itree_terms bcs k s (Suc j) ts tree1 = Ret tree'"
    using Cons(2) by (auto simp: bind_out_Ret_iff)
  have e: "term_entries k j (t # ts) = term_entries k j [t] @ term_entries k (Suc j) ts" by simp
  show ?case unfolding e insert_all_append using ITreeAdd_entry [OF t1(1) Cons(3)] Cons(1) [OF t1(2) Cons(3)] Cons(4) by simp
qed (simp add: itree.insert_all_def)

lemma itree_spans_entries:
  "itree_spans bcs k ss tree = Ret tree' \<Longrightarrow> indexed bcs \<Longrightarrow> \<forall>s\<in>set ss. \<forall>t\<in>set (sp_terms s). locs_known t \<Longrightarrow>
     (\<forall>s\<in>set ss. \<forall>t\<in>set (sp_terms s). term_in (length bcs) t) \<and> tree' = itree.insert_all (span_entries k ss) tree"
proof (induction ss arbitrary: k tree)
  case (Cons s ss)
  obtain tree1 where t1: "itree_terms bcs k s 0 (sp_terms s) tree = Ret tree1" "itree_spans bcs (Suc k) ss tree1 = Ret tree'"
    using Cons(2) by (auto simp: bind_out_Ret_iff)
  show ?case using itree_terms_entries [OF t1(1) Cons(3)] Cons(1) [OF t1(2) Cons(3)] Cons(4) by (simp add: insert_all_append)
qed (simp add: itree.insert_all_def)

lemma itree_spans_complete:
  assumes "itree_spans (op_bcs st) 0 (op_spans st) ITNil = Ret (op_itree st)" "indexed (op_bcs st)"
    "\<forall>s\<in>set (op_spans st). \<forall>t\<in>set (sp_terms s). locs_known t"
  shows "terms_in st" "tree_complete st"
proof -
  let ?es = "span_entries 0 (op_spans st)"
  have T: "\<forall>s\<in>set (op_spans st). \<forall>t\<in>set (sp_terms s). term_in (length (op_bcs st)) t" "op_itree st = itree.insert_all ?es ITNil"
    using itree_spans_entries [OF assms] by auto
  show ti: "terms_in st" using T(1) by (simp add: terms_in_def all_set_conv_all_nth)
  have mem: "(lo, hi, (k, j)) \<in> set ?es \<longleftrightarrow> k < length (op_spans st) \<and> j < length (sp_terms (op_spans st ! k)) \<and>
     t_from (sp_terms (op_spans st ! k) ! j) \<noteq> t_to (sp_terms (op_spans st ! k) ! j) \<and>
     lo = t_low (sp_terms (op_spans st ! k) ! j) \<and> hi = t_high (sp_terms (op_spans st ! k) ! j)" for lo hi k j
    by (auto simp: span_entries_mem term_entries_mem)
  have n: "int (length (op_bcs st)) < 2 ^ 31 - 1" using assms(2) by (simp add: indexed_def)
  have rg: "list_all (\<lambda>(lo, hi, d). int_range lo \<and> int_range hi \<and> lo \<le> hi) ?es"
    unfolding list_all_iff
  proof clarify
    fix lo hi k j assume "(lo, hi, k, j) \<in> set ?es"
    then have "term_in (length (op_bcs st)) (sp_terms (op_spans st ! k) ! j)" "(lo, hi, (k, j)) \<in> set ?es"
      using ti mem [of lo hi k j] by (auto simp: terms_in_def)
    then show "int_range lo \<and> int_range hi \<and> lo \<le> hi" using mem [of lo hi k j] n
      by (auto simp: term_in_def int_range_def t_low_def t_high_def)
  qed
  show "tree_complete st"
    unfolding tree_complete_def
  proof (intro allI impI)
    fix b assume b: "b < length (op_bcs st)"
    let ?hit = "filter (hits (int b + 1) (int b + 1)) ?es"
    have m: "mset (Enumerate (int b + 1) (int b + 1) (op_itree st)) = mset (List.map (\<lambda>e. snd (snd e)) ?hit)"
      unfolding T(2) using b n by (intro itree.enumerate_inserted [OF rg]) (auto simp: int_range_def)
    have "distinct (List.map (\<lambda>e. snd (snd e)) ?hit)" using span_entries_distinct by (rule distinct_map_filter)
    then have d: "distinct (Enumerate (int b + 1) (int b + 1) (op_itree st))" using mset_eq_imp_distinct_iff [OF m] by simp
    have "set (Enumerate (int b + 1) (int b + 1) (op_itree st)) = (\<lambda>e. snd (snd e)) ` set ?hit" using mset_eq_setD [OF m] by simp
    then have s: "(k, j) \<in> set (Enumerate (int b + 1) (int b + 1) (op_itree st)) \<longleftrightarrow>
        (\<exists>lo hi. (lo, hi, (k, j)) \<in> set ?es \<and> lo \<le> int b + 1 \<and> int b + 1 \<le> hi)" for k j
      by (force simp: hits_def image_iff)
    show "distinct (Enumerate (int b + 1) (int b + 1) (op_itree st)) \<and>
     (\<forall>k j. (k, j) \<in> set (Enumerate (int b + 1) (int b + 1) (op_itree st)) \<longleftrightarrow>
        k < length (op_spans st) \<and> j < length (sp_terms (op_spans st ! k)) \<and> crosses b (sp_terms (op_spans st ! k) ! j))"
      using d unfolding s mem by (auto simp: crosses_def t_low_def t_high_def min_def max_def split: if_splits)
  qed
qed


section \<open>Step 1a\<close>

definition special_at :: "'f Bytecode list \<Rightarrow> nat \<Rightarrow> bool" where
  "special_at bcs b \<longleftrightarrow> getSpecial (bcs ! b) = SPECIAL_OFFSET"

text \<open>
  After the first \<open>i\<close> bytecodes: the setters are those of the special ones and the
  placeholder, and a span knows how many come before its bytecode.
\<close>

definition span_known :: "'f Bytecode list \<Rightarrow> nat \<Rightarrow> 'f Span \<Rightarrow> bool" where
  "span_known bcs i s \<longleftrightarrow> sp_bc s < i \<and> \<not> special_at bcs (sp_bc s) \<and>
     sp_os_index s = length (filter (special_at bcs) [0..<sp_bc s]) \<and> sp_active s \<noteq> ON_Q"

definition step1a_inv :: "nat \<Rightarrow> 'f Optimizer \<Rightarrow> bool" where
  "step1a_inv i st \<longleftrightarrow> i \<le> length (op_bcs st) \<and>
     (\<forall>b < length (op_bcs st). bc_wf (op_bcs st ! b)) \<and>
     (\<forall>b < i. bc_index (op_bcs st ! b) = int b + 1 \<and> bc_sized (op_bcs st ! b)) \<and>
     List.map os_bc (op_setters st) = List.map Some (filter (special_at (op_bcs st)) [0..<i]) @ [None] \<and>
     (\<forall>s\<in>set (op_spans st). span_known (op_bcs st) i s) \<and> op_QA st = [] \<and> op_QB st = [] \<and> op_itree st = ITNil"

lemma bc_sized_wf: "bc_sized bc \<Longrightarrow> bc_wf bc"
  by (auto simp: bc_sized_def bc_wf_def split: option.splits)

lemma CalcLen_reqs:
  assumes "Contents_CalcLen tail c = Ret (c', r, reqs, ds)" "Contents_getSpecial c = SPECIAL_OFFSET"
  shows "reqs = []"
  using assms by (cases c) (auto simp: bind_out_Ret_iff)

lemma Bytecode_CalcLen_facts:
  assumes "Bytecode_CalcLen bc = Ret (bc', ok, reqs, ds)" "bc_wf bc" "ds = []"
  shows "ok" "bc_sized bc'" "bc_index bc' = bc_index bc" "getSpecial bc' = getSpecial bc" "getSpecial bc = SPECIAL_OFFSET \<Longrightarrow> reqs = []"
proof -
  show ok
  proof (cases "bc_contents bc")
    case (Some c)
    then obtain c' r where "Contents_CalcLen (getTailOffset bc) c = Ret (c', r, reqs, ds)" "ok \<longleftrightarrow> r \<noteq> None"
      using assms(1) by (auto simp: Bytecode_CalcLen_def bind_out_Ret_iff split: option.splits)
    then show ?thesis using assms(3)
      by (cases c) (auto simp: bind_out_Ret_iff LEB128_CalcLen_def Jmp_CalcLen_def Multiple_CalcLen_def Let_def split: option.splits if_splits)
  qed (use assms(1) in \<open>simp add: Bytecode_CalcLen_def\<close>)
  then have e: "Bytecode_CalcLen bc = Ret (bc', True, reqs, ds)" using assms(1) by simp
  show "bc_sized bc'" "getSpecial bc' = getSpecial bc" using Bytecode_CalcLen_sized [OF e assms(2)] by auto
  show "bc_index bc' = bc_index bc" using assms(1)
    by (auto simp: Bytecode_CalcLen_def bind_out_Ret_iff split: option.splits)
  show "getSpecial bc = SPECIAL_OFFSET \<Longrightarrow> reqs = []"
    using assms(1) CalcLen_reqs by (auto simp: Bytecode_CalcLen_def getSpecial_def bind_out_Ret_iff split: option.splits) 
qed


lemma fold_AddSpan:
  "op_bcs (fold (AddSpan i) reqs st) = op_bcs st" "op_setters (fold (AddSpan i) reqs st) = op_setters st"
  "op_QA (fold (AddSpan i) reqs st) = op_QA st" "op_QB (fold (AddSpan i) reqs st) = op_QB st"
  "op_itree (fold (AddSpan i) reqs st) = op_itree st" "op_diags (fold (AddSpan i) reqs st) = op_diags st"
  by (induction reqs arbitrary: st) (simp_all add: AddSpan_def)

lemma fold_AddSpan_spans:
  "s \<in> set (op_spans (fold (AddSpan i) reqs st)) \<Longrightarrow> s \<in> set (op_spans st) \<or>
     reqs \<noteq> [] \<and> sp_bc s = i \<and> sp_active s = ACTIVE \<and> sp_os_index s = length (op_setters st) - 1"
proof (induction reqs arbitrary: st)
  case (Cons r reqs)
  have "s \<in> set (op_spans (fold (AddSpan i) reqs (AddSpan i r st)))" using Cons(2) by simp
  from Cons(1) [OF this] show ?case by (auto simp: AddSpan_def)
qed simp

lemma span_known_cong:
  assumes "\<And>b. b \<le> sp_bc s \<Longrightarrow> special_at bcs' b = special_at bcs b"
  shows "span_known bcs' i s = span_known bcs i s"
proof -
  have "filter (special_at bcs') [0..<sp_bc s] = filter (special_at bcs) [0..<sp_bc s]"
    by (rule filter_cong) (use assms in auto)
  then show ?thesis using assms [of "sp_bc s"] by (simp add: span_known_def)
qed

lemma step1a_step:
  assumes "step1a_inv i st" "i < length (op_bcs st)"
    "Bytecode_CalcLen ((op_bcs st ! i)\<lparr>bc_index := int i + 1, bc_offset := off\<rparr>) = Ret (bc, ok, reqs, [])"
  defines "st1 \<equiv> report [] (fold (AddSpan i) reqs (set_bc i bc st))"
  shows "ok \<and> step1a_inv (Suc i) (if getSpecial bc = SPECIAL_OFFSET then AddOffsetSetter i st1 else st1)"
proof -
  let ?bc = "(op_bcs st ! i)\<lparr>bc_index := int i + 1, bc_offset := off\<rparr>" and ?sp = "special_at (op_bcs st)"
  have A: "\<forall>b < length (op_bcs st). bc_wf (op_bcs st ! b)" "\<forall>b < i. bc_index (op_bcs st ! b) = int b + 1 \<and> bc_sized (op_bcs st ! b)"
    "List.map os_bc (op_setters st) = List.map Some (filter ?sp [0..<i]) @ [None]" "\<forall>s\<in>set (op_spans st). span_known (op_bcs st) i s"
    "op_QA st = []" "op_QB st = []" "op_itree st = ITNil" using assms(1) by (auto simp: step1a_inv_def)
  have "bc_wf ?bc" using A(1) assms(2) by (simp add: bc_wf_def)
  note C = Bytecode_CalcLen_facts [OF assms(3) this refl]
  have sp: "getSpecial bc = getSpecial (op_bcs st ! i)" using C(4) by (simp add: getSpecial_def)
  have bcs: "op_bcs st1 = (op_bcs st)[i := bc]" by (simp add: st1_def fold_AddSpan)
  have sa: "special_at (op_bcs st1) = ?sp"
  proof
    fix b show "special_at (op_bcs st1) b = ?sp b" using sp assms(2) by (cases "b = i") (simp_all add: special_at_def bcs)
  qed
  have set1: "op_setters st1 = op_setters st" by (simp add: st1_def fold_AddSpan)
  have len: "length (op_setters st) - 1 = length (filter ?sp [0..<i])" using arg_cong [OF A(3), of length] by simp
  have spans: "\<forall>s\<in>set (op_spans st1). span_known (op_bcs st1) (Suc i) s"
  proof
    fix s assume "s \<in> set (op_spans st1)"
    then consider "s \<in> set (op_spans st)" | "reqs \<noteq> []" "sp_bc s = i" "sp_active s = ACTIVE" "sp_os_index s = length (filter ?sp [0..<i])"
      using fold_AddSpan_spans [of s i reqs "set_bc i bc st"] len by (auto simp: st1_def)
    then show "span_known (op_bcs st1) (Suc i) s"
    proof cases
      case 1
      then show ?thesis using A(4) by (auto simp: span_known_def sa)
    next
      case 2
      have "\<not> ?sp i" using C(5) 2(1) by (auto simp: special_at_def getSpecial_def)
      then show ?thesis using 2 by (simp add: span_known_def sa)
    qed
  qed
  have wf: "\<forall>b < length (op_bcs st1). bc_wf (op_bcs st1 ! b)" using A(1) bc_sized_wf [OF C(2)] by (simp add: bcs nth_update)
  have ix: "\<forall>b < Suc i. bc_index (op_bcs st1 ! b) = int b + 1 \<and> bc_sized (op_bcs st1 ! b)"
    using A(2) C(2,3) assms(2) by (auto simp: bcs less_Suc_eq)
  have q: "op_QA st1 = []" "op_QB st1 = []" "op_itree st1 = ITNil" using A by (simp_all add: st1_def fold_AddSpan)
  have ne: "op_setters st \<noteq> []" using A(3) by auto
  show ?thesis
  proof (cases "?sp i")
    case True
    have bl: "List.map os_bc (butlast (op_setters st)) = List.map Some (filter ?sp [0..<i])"
      using A(3) by (metis butlast_snoc map_butlast)
    have "step1a_inv (Suc i) (AddOffsetSetter i st1)" unfolding step1a_inv_def
      using wf ix spans q sa True bl assms(2)
      by (auto simp: AddOffsetSetter_def set1 bcs OffsetSetter_new_def)
    moreover have "getSpecial bc = SPECIAL_OFFSET" using True sp by (simp add: special_at_def)
    ultimately show ?thesis using C(1) by simp
  next
    case False
    have "step1a_inv (Suc i) st1" unfolding step1a_inv_def
      using wf ix spans q sa False A(3) assms(2) by (auto simp: set1 bcs)
    moreover have "getSpecial bc \<noteq> SPECIAL_OFFSET" using False sp by (simp add: special_at_def)
    ultimately show ?thesis using C(1) by simp
  qed
qed

lemma AddOffsetSetter_simps: "op_bcs (AddOffsetSetter i st) = op_bcs st" "op_diags (AddOffsetSetter i st) = op_diags st"
  by (simp_all add: AddOffsetSetter_def)

lemma step1a_diags: "step1a is off st = Ret st' \<Longrightarrow> \<exists>ds. op_diags st' = op_diags st @ ds"
proof (induction "is" arbitrary: off st)
  case (Cons i "is")
  obtain bc ok reqs ds where c: "Bytecode_CalcLen ((op_bcs st ! i)\<lparr>bc_index := int i + 1, bc_offset := off\<rparr>) = Ret (bc, ok, reqs, ds)"
    using Cons(2) by (auto simp: bind_out_Ret_iff)
  then obtain off1 st1 where "step1a is off1 st1 = Ret st'" "op_diags st1 = op_diags st @ ds"
    using Cons(2) by (auto simp: Let_def AddOffsetSetter_simps fold_AddSpan split: if_splits)
  then show ?case using Cons(1) by fastforce
qed simp

lemma step1a_inv_loop:
  "step1a [i..<length (op_bcs st)] off st = Ret st' \<Longrightarrow> step1a_inv i st \<Longrightarrow> op_diags st' = [] \<Longrightarrow>
     step1a_inv (length (op_bcs st)) st' \<and> length (op_bcs st') = length (op_bcs st)"
proof (induction "length (op_bcs st) - i" arbitrary: i off st)
  case 0
  then have "i = length (op_bcs st)" by (simp add: step1a_inv_def)
  then show ?case using 0 by simp
next
  case (Suc n)
  then have i: "i < length (op_bcs st)" by simp
  then have M: "step1a (i # [Suc i..<length (op_bcs st)]) off st = Ret st'" using Suc(3) by (simp add: upt_conv_Cons)
  then obtain bc ok reqs ds where c: "Bytecode_CalcLen ((op_bcs st ! i)\<lparr>bc_index := int i + 1, bc_offset := off\<rparr>) = Ret (bc, ok, reqs, ds)"
    by (auto simp: bind_out_Ret_iff)
  let ?st1 = "report ds (fold (AddSpan i) reqs (set_bc i bc st))"
  let ?st2 = "if getSpecial bc = SPECIAL_OFFSET then AddOffsetSetter i ?st1 else ?st1"
  have d: "op_diags ?st1 = op_diags st @ ds" "op_diags ?st2 = op_diags st @ ds" by (simp_all add: AddOffsetSetter_simps fold_AddSpan)
  have r: "step1a [Suc i..<length (op_bcs st)] (if ok then getNextOffset bc else off) (if ok then ?st2 else ?st1) = Ret st'"
    using M c by (auto simp: Let_def)
  then have ds: "ds = []" using step1a_diags [OF r] Suc(5) d by (auto split: if_splits)
  note S = step1a_step [OF Suc(4) i c [unfolded ds]]
  have l: "length (op_bcs ?st2) = length (op_bcs st)" by (simp add: AddOffsetSetter_simps fold_AddSpan)
  have r2: "step1a [Suc i..<length (op_bcs ?st2)] (getNextOffset bc) ?st2 = Ret st'" using r S l by simp
  have "step1a_inv (Suc i) ?st2" using S unfolding ds by blast
  then show ?case using Suc(1) [OF _ r2 _ Suc(5)] Suc(2) l by simp
qed


section \<open>Steps 1b to 1e\<close>

text \<open>What holds of the spans and the setters once the bytecodes have been numbered.\<close>

definition prepared :: "'f Optimizer \<Rightarrow> bool" where
  "prepared st \<longleftrightarrow> (\<forall>b < length (op_bcs st). bc_index (op_bcs st ! b) = int b + 1) \<and> all_sized st \<and>
     List.map os_bc (op_setters st) = List.map Some (filter (special_at (op_bcs st)) [0..<length (op_bcs st)]) @ [None] \<and>
     (\<forall>s\<in>set (op_spans st). span_known (op_bcs st) (length (op_bcs st)) s) \<and> op_QA st = [] \<and> op_QB st = [] \<and> op_itree st = ITNil"

lemma step1a_prepared:
  assumes "step1a [0..<length bcs] 0 (Optimizer_new bcs) = Ret st" "\<forall>bc\<in>set bcs. bc_wf bc" "op_diags st = []"
  shows "prepared st \<and> length (op_bcs st) = length bcs"
proof -
  let ?st0 = "Optimizer_new bcs"
  have b: "op_bcs ?st0 = bcs" by (simp add: Optimizer_new_def)
  have "step1a_inv 0 ?st0" using assms(2) by (simp add: step1a_inv_def Optimizer_new_def OffsetSetter_new_def)
  from step1a_inv_loop [of 0 ?st0 0 st] this assms(1,3) b
  have "step1a_inv (length bcs) st \<and> length (op_bcs st) = length bcs" by simp
  then show ?thesis by (auto simp: prepared_def step1a_inv_def all_sized_def all_set_conv_all_nth)
qed

text \<open>The bytecodes keep their shape, so what is known stays known.\<close>

lemma special_at_shape: "list_all2 bc_shape bcs bcs' \<Longrightarrow> b < length bcs \<Longrightarrow> special_at bcs' b = special_at bcs b"
  by (auto simp: special_at_def bc_shape_def dest: list_all2_nthD)

lemma prepared_shape:
  assumes "list_all2 bc_shape (op_bcs st) (op_bcs st')" "all_sized st'" "prepared st"
    "List.map os_bc (op_setters st') = List.map os_bc (op_setters st)" "op_QA st' = []" "op_QB st' = []" "op_itree st' = ITNil"
    "\<forall>s\<in>set (op_spans st'). \<exists>s0\<in>set (op_spans st). sp_bc s = sp_bc s0 \<and> sp_os_index s = sp_os_index s0" "\<forall>s\<in>set (op_spans st'). sp_active s \<noteq> ON_Q"
  shows "prepared st'"
proof -
  have n: "length (op_bcs st') = length (op_bcs st)" using list_all2_lengthD [OF assms(1)] by simp
  have sa: "\<And>b. b < length (op_bcs st) \<Longrightarrow> special_at (op_bcs st') b = special_at (op_bcs st) b" using special_at_shape [OF assms(1)] by blast
  have f: "filter (special_at (op_bcs st')) [0..<m] = filter (special_at (op_bcs st)) [0..<m]" if "m \<le> length (op_bcs st)" for m
    by (rule filter_cong) (use that sa in auto)
  have "span_known (op_bcs st') (length (op_bcs st')) s" if s: "s \<in> set (op_spans st')" for s
  proof -
    obtain s0 where "s0 \<in> set (op_spans st)" "sp_bc s = sp_bc s0" "sp_os_index s = sp_os_index s0" using assms(8) s by blast
    then show ?thesis using assms(3,9) s sa f [of "sp_bc s"] n by (auto simp: prepared_def span_known_def)
  qed
  moreover have "\<forall>b < length (op_bcs st'). bc_index (op_bcs st' ! b) = int b + 1"
    using assms(1,3) n list_all2_nthD [OF assms(1)] by (auto simp: prepared_def bc_shape_def)
  ultimately show ?thesis using assms(2-7) f [of "length (op_bcs st)"] n by (simp add: prepared_def)
qed

lemma CreateTerms_kept:
  assumes "CreateTerms P bcs s = Ret (s', ok, ds)"
  shows "sp_bc s' = sp_bc s \<and> sp_os_index s' = sp_os_index s \<and> sp_active s' = sp_active s \<and> sp_id s' = sp_id s"
proof (cases "v_abs (sp_depval s)")
  case None
  then show ?thesis using assms by (simp add: CreateTerms_def)
next
  case (Some e)
  then show ?thesis using assms by (auto simp: CreateTerms_def Let_def bind_out_Ret_iff split: if_splits)
qed

lemma step1b_span_cases:
  assumes "step1b_span P s bcs = Ret (r, bcs', ds)"
  obtains (circular) s1 where "CreateTerms P bcs s = Ret (s1, False, ds)" "r = Kept (s1\<lparr>sp_cur := sp_new s1\<rparr>)" "bcs' = bcs"
  | (quiet) s1 ds1 s2 ds2 where "CreateTerms P bcs s = Ret (s1, True, ds1)" "RecalcNormal P s1 = Ret (s2, False, ds2)"
      "r = Kept (s2\<lparr>sp_cur := sp_new s2\<rparr>)" "bcs' = bcs"
  | (expand) s1 ds1 s2 ds2 bc' x ds3 where "CreateTerms P bcs s = Ret (s1, True, ds1)" "RecalcNormal P s1 = Ret (s2, True, ds2)"
      "Expand_span s2 bcs = Ret (bc', x, ds3)" "bcs' = bcs[sp_bc s2 := bc']"
      "r = (case x of None \<Rightarrow> Endless | Some io \<Rightarrow> if ex_keep io then Kept (s2\<lparr>sp_neg := ex_neg io, sp_pos := ex_pos io, sp_cur := sp_new s2\<rparr>) else Deleted)"
proof -
  obtain s1 ok ds1 where c: "CreateTerms P bcs s = Ret (s1, ok, ds1)" using assms by (auto simp: step1b_span_def bind_out_Ret_iff)
  show thesis
  proof (cases ok)
    case False
    then show ?thesis using assms c by (intro circular) (auto simp: step1b_span_def)
  next
    case True
    obtain s2 exc ds2 where rn: "RecalcNormal P s1 = Ret (s2, exc, ds2)"
      using assms c True by (cases "RecalcNormal P s1") (auto simp: step1b_span_def)
    show ?thesis
    proof (cases exc)
      case False
      then show ?thesis using assms c True rn by (intro quiet [of s1 ds1 s2 ds2]) (auto simp: step1b_span_def)
    next
      case exc: True
      obtain bc' x ds3 where e: "Expand_span s2 bcs = Ret (bc', x, ds3)"
        using assms c True rn exc by (cases "Expand_span s2 bcs") (auto simp: step1b_span_def)
      show ?thesis
        by (rule expand [OF c [unfolded True [THEN eqTrueI]] rn [unfolded exc [THEN eqTrueI]] e])
          (use assms c True rn exc e in \<open>auto simp: step1b_span_def Let_def split: option.splits if_splits\<close>)
    qed
  qed
qed

lemma step1b_span_kept:
  assumes "step1b_span P s bcs = Ret (r, bcs', ds)"
  shows "list_all2 bc_shape bcs bcs' \<and> ((\<forall>bc\<in>set bcs. bc_sized bc) \<longrightarrow> (\<forall>bc\<in>set bcs'. bc_sized bc)) \<and>
     (\<forall>s'. r = Kept s' \<longrightarrow> sp_bc s' = sp_bc s \<and> sp_os_index s' = sp_os_index s \<and> (sp_active s \<noteq> ON_Q \<longrightarrow> sp_active s' \<noteq> ON_Q))"
  using assms
proof (cases rule: step1b_span_cases)
  case (circular s1)
  then show ?thesis using CreateTerms_kept [OF circular(1)] by (auto simp: list_all2_refl)
next
  case (quiet s1 ds1 s2 ds2)
  then show ?thesis using CreateTerms_kept [OF quiet(1)] RecalcNormal_shape [OF quiet(2)] by (auto simp: list_all2_refl span_shape_def)
next
  case (expand s1 ds1 s2 ds2 bc' x ds3)
  have s2: "sp_bc s2 = sp_bc s" "sp_os_index s2 = sp_os_index s" "sp_active s \<noteq> ON_Q \<longrightarrow> sp_active s2 \<noteq> ON_Q"
    using CreateTerms_kept [OF expand(1)] RecalcNormal_shape [OF expand(2)] by (auto simp: span_shape_def)
  have E: "sp_bc s2 < length bcs" "Bytecode_Expand (sp_id s2) (sp_new s2) \<lparr>ex_len = 0, ex_keep = False, ex_neg = sp_neg s2, ex_pos = sp_pos s2\<rparr> (bcs ! sp_bc s2) = Ret (bc', x, ds3)"
    using expand(3) by (auto simp: Expand_span_iff)
  have "(\<forall>bc\<in>set bcs. bc_sized bc) \<Longrightarrow> bc_sized bc'" using Bytecode_Expand_sized [OF E(2)] E(1) by simp
  moreover have "set bcs' \<subseteq> insert bc' (set bcs)" unfolding expand(4) by (rule set_update_subset_insert)
  moreover have "list_all2 bc_shape bcs bcs'" unfolding expand(4)
    using Bytecode_Expand_shape [OF E(2)] by (intro list_all2_update_same) (simp_all add: list_all2_refl)
  moreover have "sp_bc s' = sp_bc s2 \<and> sp_os_index s' = sp_os_index s2 \<and> sp_active s' = sp_active s2" if "r = Kept s'" for s'
    using expand(5) that by (cases x) (auto split: if_splits)
  ultimately show ?thesis using s2 by (metis (no_types, lifting) insertE subsetD)
qed

lemma step1b_loop_Cons:
  assumes "step1b_loop P (s # ss) bcs = Ret (Some (ss', bcs', ds))"
  obtains r bcs1 ds1 ss1 ds2 where "step1b_span P s bcs = Ret (r, bcs1, ds1)" "r \<noteq> Endless" "step1b_loop P ss bcs1 = Ret (Some (ss1, bcs', ds2))"
    "ss' = (case r of Kept s' \<Rightarrow> s' # ss1 | _ \<Rightarrow> ss1)"
proof -
  obtain r bcs1 ds1 where x: "step1b_span P s bcs = Ret (r, bcs1, ds1)" "r \<noteq> Endless"
    using assms by (cases "step1b_span P s bcs") (auto split: if_splits)
  then obtain ss1 ds2 where "step1b_loop P ss bcs1 = Ret (Some (ss1, bcs', ds2))" "ss' = (case r of Kept s' \<Rightarrow> s' # ss1 | _ \<Rightarrow> ss1)"
    using assms by (cases "step1b_loop P ss bcs1") (auto split: option.splits)
  then show thesis using that x by blast
qed

lemma step1b_loop_kept:
  "step1b_loop P ss bcs = Ret (Some (ss', bcs', ds)) \<Longrightarrow>
     list_all2 bc_shape bcs bcs' \<and> ((\<forall>bc\<in>set bcs. bc_sized bc) \<longrightarrow> (\<forall>bc\<in>set bcs'. bc_sized bc)) \<and>
     (\<forall>s'\<in>set ss'. \<exists>s\<in>set ss. sp_bc s' = sp_bc s \<and> sp_os_index s' = sp_os_index s \<and> (sp_active s \<noteq> ON_Q \<longrightarrow> sp_active s' \<noteq> ON_Q))"
proof (induction ss arbitrary: bcs ss' ds)
  case (Cons s ss)
  obtain r bcs1 ds1 ss1 ds2 where x: "step1b_span P s bcs = Ret (r, bcs1, ds1)" "r \<noteq> Endless" "step1b_loop P ss bcs1 = Ret (Some (ss1, bcs', ds2))"
    "ss' = (case r of Kept s' \<Rightarrow> s' # ss1 | _ \<Rightarrow> ss1)"
    using Cons(2) by (rule step1b_loop_Cons)
  note k = step1b_span_kept [OF x(1)] and IH = Cons(1) [OF x(3)]
  have "list_all2 bc_shape bcs bcs'"
    by (rule list_all2_trans [of bc_shape bc_shape bc_shape bcs bcs1 bcs', OF bc_shape_trans]) (use k IH in auto)
  moreover have "s' \<in> set ss' \<Longrightarrow> r = Kept s' \<or> s' \<in> set ss1" for s' using x(4) by (auto split: step1b_result.splits)
  ultimately show ?case using k IH by (metis list.set_intros)
qed (simp add: list_all2_refl)

lemma Step1b_loop:
  assumes "Step1b P st = Ret (Some st')"
  obtains ss bcs ds where "step1b_loop P (op_spans st) (op_bcs st) = Ret (Some (ss, bcs, ds))" "st' = report ds (st\<lparr>op_spans := ss, op_bcs := bcs\<rparr>)"
  using assms by (auto simp: Step1b_def bind_out_Ret_iff split: option.splits)

lemma Step1b_prepared:
  assumes "Step1b P st = Ret (Some st')" "prepared st"
  shows "prepared st' \<and> length (op_bcs st') = length (op_bcs st)"
proof -
  obtain ss bcs ds where x: "step1b_loop P (op_spans st) (op_bcs st) = Ret (Some (ss, bcs, ds))" "st' = report ds (st\<lparr>op_spans := ss, op_bcs := bcs\<rparr>)"
    using assms(1) by (rule Step1b_loop)
  have p: "\<forall>bc\<in>set (op_bcs st). bc_sized bc" "\<forall>s\<in>set (op_spans st). sp_active s \<noteq> ON_Q" "op_QA st = []" "op_QB st = []" "op_itree st = ITNil"
    using assms(2) by (auto simp: prepared_def all_sized_def span_known_def)
  note k = step1b_loop_kept [OF x(1)]
  have "\<forall>s\<in>set ss. sp_active s \<noteq> ON_Q" using k p(2) by metis
  then have "prepared st'" by (intro prepared_shape [OF _ _ assms(2)]) (use k x(2) p in \<open>auto simp: all_sized_def\<close>)
  then show ?thesis using k x(2) by (auto dest: list_all2_lengthD)
qed

end
