(* ===== verification/Optimizer_Steps.thy ===== *)
theory Optimizer_Steps
  imports Optimizer_Init
begin

text \<open>
  Steps 1c to 1e establish the invariant of the main loop (\<open>Step1e_inv\<close>), and the whole
  optimization leaves the bytecodes at their places and the watched spans resolved
  (\<open>Optimize_resolved\<close>).
\<close>

unbundle bit_operations_syntax

section \<open>Step 1c\<close>

lemma update_offsets_st_Ret:
  assumes "update_offsets_st st = Ret st'"
  shows "\<exists>bcs ds bs. bs \<noteq> [] \<and> op_bcs st = bs \<and> update_offsets 0 ((hd bs)\<lparr>bc_offset := 0\<rparr> # tl bs) = Ret (bcs, ds) \<and> st' = report ds (st\<lparr>op_bcs := bcs\<rparr>)"
  using assms by (cases "op_bcs st") (auto simp: update_offsets_st_def UpdateOffsets_def bind_out_Ret_iff)

lemma update_offsets_st_placed:
  assumes "update_offsets_st st = Ret st'" "op_diags st' = []" "all_sized st"
  shows "placed 0 (op_bcs st') \<and> list_all2 bc_shape (op_bcs st) (op_bcs st') \<and> all_sized st' \<and> (\<exists>bcs. st' = st\<lparr>op_bcs := bcs\<rparr>)"
proof -
  obtain bcs ds bs where u: "bs \<noteq> []" "op_bcs st = bs" "update_offsets 0 ((hd bs)\<lparr>bc_offset := 0\<rparr> # tl bs) = Ret (bcs, ds)" "st' = report ds (st\<lparr>op_bcs := bcs\<rparr>)"
    using update_offsets_st_Ret [OF assms(1)] by blast
  let ?bs = "(hd bs)\<lparr>bc_offset := 0\<rparr> # tl bs"
  have ds: "ds = []" using assms(2) u(4) by simp
  have bs: "op_bcs st = hd bs # tl bs" using u(1,2) by simp
  have sz: "\<forall>bc\<in>set ?bs. bc_sized bc" using assms(3) by (simp add: all_sized_def bs)
  have "update_offsets (to_u64 0) ?bs = Ret (bcs, [])" using u(3) ds by simp
  note p = update_offsets_placed [OF this sz]
  then have "list_all2 bc_shape (op_bcs st) bcs" unfolding bs by (cases bcs) auto
  then show ?thesis using p u(4) ds by (auto simp: all_sized_def report_def)
qed

lemma update_offsets_st_prepared:
  assumes "update_offsets_st st = Ret st'" "op_diags st' = []" "prepared st"
  shows "prepared st' \<and> placed 0 (op_bcs st') \<and> length (op_bcs st') = length (op_bcs st)"
proof -
  have "all_sized st" using assms(3) by (simp add: prepared_def)
  note p = update_offsets_st_placed [OF assms(1,2) this]
  then obtain bcs where st': "st' = st\<lparr>op_bcs := bcs\<rparr>" by blast
  have "prepared st'"
    by (rule prepared_shape [OF _ _ assms(3)]) (use p st' assms(3) in \<open>auto simp: prepared_def span_known_def all_sized_def\<close>)
  then show ?thesis using p list_all2_lengthD [of bc_shape "op_bcs st" "op_bcs st'"] by simp
qed


section \<open>Step 1d\<close>

text \<open>A term's distance as a \<^verbatim>\<open>long\<close> is not one of the values the conversion saturates to.\<close>

definition unsaturated :: "'f Optimizer \<Rightarrow> bool" where
  "unsaturated st \<longleftrightarrow> (\<forall>s\<in>set (op_spans st). \<forall>t\<in>set (sp_terms s). LONG_MIN < st_new t \<and> st_new t < LONG_MAX)"

lemma getInt_unsaturated: "LONG_MIN < getInt n \<Longrightarrow> getInt n < LONG_MAX \<Longrightarrow> wf_IntNum n \<Longrightarrow> getInt n = intnum_val n"
  by (cases n) (auto split: if_splits)

lemma update_term_value:
  assumes "update_term env t = Ret t'" "LONG_MIN < st_new t'" "st_new t' < LONG_MAX"
  shows "locs_known t' \<and> st_loc t' = st_loc t \<and> st_loc2 t' = st_loc2 t \<and>
     st_new t' = to_u64 (env_offset env (t_to t') + loc_off (st_loc2 t')) - to_u64 (env_offset env (t_from t') + loc_off (st_loc t'))"
proof -
  obtain n where n: "CalcDist env (st_loc t) (st_loc2 t) = Ret (Some n)" "t' = t\<lparr>st_cur := st_new t, st_new := getInt n\<rparr>"
    using assms(1) by (auto simp: update_term_def bind_out_Ret_iff split: option.splits)
  obtain b1 b2 where b: "loc_bc (st_loc t) = Some b1" "loc_bc (st_loc2 t) = Some b2" "env_container env b1 = env_container env b2"
    using n(1) by (auto simp: CalcDist_def split: option.splits if_splits)
  obtain n' where "CalcDist env (st_loc t) (st_loc2 t) = Ret (Some n')" "wf_IntNum n'"
    "intnum_val n' = to_u64 (env_offset env b2 + loc_off (st_loc2 t)) - to_u64 (env_offset env b1 + loc_off (st_loc t))"
    using CalcDist_value [OF b] by blast
  then show ?thesis using n b assms(2,3) getInt_unsaturated [of n'] by (simp add: locs_known_def t_from_def t_to_def)
qed

lemma update_terms_nth:
  "update_terms env ts = Ret ts' \<Longrightarrow> list_all2 (\<lambda>t t'. update_term env t = Ret t') ts ts'"
  by (induction ts arbitrary: ts') (auto simp: bind_out_Ret_iff)

lemma placed_term_exact:
  assumes "placed 0 bcs" "term_in (length bcs) t" "LONG_MIN < st_new t" "st_new t < LONG_MAX"
    "st_new t = to_u64 (env_offset (cur_env env bcs) (t_to t) + loc_off (st_loc2 t)) -
       to_u64 (env_offset (cur_env env bcs) (t_from t) + loc_off (st_loc t))"
  shows "term_exact bcs t"
proof -
  have o: "env_offset (cur_env env bcs) b = to_u64 (voff bcs b)" if "b < length bcs" for b using assms(1) that by (simp add: cur_env_def placed_def)
  have "to_u64 (st_new t) = to_u64 (loc_pos bcs (st_loc2 t) - loc_pos bcs (st_loc t))"
    unfolding assms(5) using assms(2) o by (intro u64_cong_diff) (simp_all add: term_in_def loc_pos_def t_from_def t_to_def shift_off)
  moreover have "long_range (st_new t)" using assms(3,4) by (simp add: long_range_def)
  ultimately show ?thesis using to_s64_cong to_s64_id by (metis term_exact_def)
qed

lemma step1d_loop_nth:
  "step1d_loop P env k ss = Ret (ss', q, ds) \<Longrightarrow> length ss' = length ss \<and> (\<forall>i < length ss. \<exists>ts s1 exc ds1.
     update_terms env (sp_terms (ss ! i)) = Ret ts \<and> RecalcNormal P ((ss ! i)\<lparr>sp_terms := ts\<rparr>) = Ret (s1, exc, ds1) \<and>
     ss' ! i = (if exc then s1\<lparr>sp_active := ON_Q\<rparr> else s1) \<and> (exc \<longrightarrow> k + i \<in> set q))"
proof (induction ss arbitrary: k ss' q ds)
  case (Cons s ss)
  obtain ts where ts: "update_terms env (sp_terms s) = Ret ts" using Cons(2) by (auto simp: bind_out_Ret_iff)
  obtain s1 exc ds1 where s1: "RecalcNormal P (s\<lparr>sp_terms := ts\<rparr>) = Ret (s1, exc, ds1)"
    using Cons(2) ts by (cases "RecalcNormal P (s\<lparr>sp_terms := ts\<rparr>)") auto
  obtain ss1 q1 ds2 where r: "step1d_loop P env (Suc k) ss = Ret (ss1, q1, ds2)"
    using Cons(2) ts s1 by (cases "step1d_loop P env (Suc k) ss") auto
  have e: "ss' = (if exc then s1\<lparr>sp_active := ON_Q\<rparr> else s1) # ss1" "q = (if exc then k # q1 else q1)"
    using Cons(2) ts s1 r by simp_all
  note IH = Cons(1) [OF r]
  show ?case
  proof (intro conjI allI impI)
    show "length ss' = length (s # ss)" using e IH by simp
    fix i assume i: "i < length (s # ss)"
    show "\<exists>ts s1 exc ds1. update_terms env (sp_terms ((s # ss) ! i)) = Ret ts \<and> RecalcNormal P (((s # ss) ! i)\<lparr>sp_terms := ts\<rparr>) = Ret (s1, exc, ds1) \<and>
     ss' ! i = (if exc then s1\<lparr>sp_active := ON_Q\<rparr> else s1) \<and> (exc \<longrightarrow> k + i \<in> set q)"
    proof (cases i)
      case 0
      then show ?thesis using ts s1 e by auto
    next
      case (Suc j)
      then obtain ts' s1' exc' ds1' where "update_terms env (sp_terms (ss ! j)) = Ret ts'" "RecalcNormal P ((ss ! j)\<lparr>sp_terms := ts'\<rparr>) = Ret (s1', exc', ds1')"
        "ss1 ! j = (if exc' then s1'\<lparr>sp_active := ON_Q\<rparr> else s1')" "exc' \<longrightarrow> Suc k + j \<in> set q1" using IH i by auto
      then show ?thesis using Suc e by auto
    qed
  qed
qed simp

lemma Step1d_inv:
  assumes "Step1d P st = Ret (st', done)" "prepared st" "placed 0 (op_bcs st)" "unsaturated st'"
  shows "op_bcs st' = op_bcs st" "op_setters st' = op_setters st" "op_itree st' = ITNil" "done \<Longrightarrow> op_QA st' = [] \<and> op_QB st' = []" "watched P st'"
    "\<forall>s\<in>set (op_spans st'). \<forall>t\<in>set (sp_terms s). locs_known t \<and> (term_in (length (op_bcs st)) t \<longrightarrow> term_exact (op_bcs st) t)"
    "\<forall>s\<in>set (op_spans st'). \<exists>s0\<in>set (op_spans st). sp_bc s = sp_bc s0 \<and> sp_os_index s = sp_os_index s0"
proof -
  let ?env = "cur_env (of_env P) (op_bcs st)"
  obtain ss q ds where x: "step1d_loop P ?env 0 (op_spans st) = Ret (ss, q, ds)" "st' = report ds (st\<lparr>op_spans := ss, op_QB := op_QB st @ q\<rparr>)" "done = (op_QB st' = [])"
    using assms(1) by (auto simp: Step1d_def bind_out_Ret_iff Let_def)
  have p: "op_QA st = []" "op_QB st = []" "op_itree st = ITNil" "\<forall>s\<in>set (op_spans st). sp_active s \<noteq> ON_Q"
    using assms(2) by (auto simp: prepared_def span_known_def)
  show "op_bcs st' = op_bcs st" "op_setters st' = op_setters st" "op_itree st' = ITNil" "done \<Longrightarrow> op_QA st' = [] \<and> op_QB st' = []"
    using x(2,3) p by simp_all
  note L = step1d_loop_nth [OF x(1)]
  have S: "\<exists>ts s1 exc ds1. list_all2 (\<lambda>t t'. update_term ?env t = Ret t') (sp_terms (op_spans st ! i)) ts \<and>
     RecalcNormal P ((op_spans st ! i)\<lparr>sp_terms := ts\<rparr>) = Ret (s1, exc, ds1) \<and> sp_terms (ss ! i) = ts \<and>
     sp_bc (ss ! i) = sp_bc (op_spans st ! i) \<and> sp_os_index (ss ! i) = sp_os_index (op_spans st ! i) \<and>
     ss ! i = (if exc then s1\<lparr>sp_active := ON_Q\<rparr> else s1) \<and> sp_active s1 \<noteq> ON_Q \<and> (exc \<longrightarrow> i \<in> set q)"
    if i: "i < length ss" for i
  proof -
    obtain ts s1 exc ds1 where y: "update_terms ?env (sp_terms (op_spans st ! i)) = Ret ts"
      "RecalcNormal P ((op_spans st ! i)\<lparr>sp_terms := ts\<rparr>) = Ret (s1, exc, ds1)" "ss ! i = (if exc then s1\<lparr>sp_active := ON_Q\<rparr> else s1)" "exc \<longrightarrow> i \<in> set q"
      using L i by auto
    have "sp_active (op_spans st ! i) \<noteq> ON_Q" using p(4) L i by simp
    then have "sp_terms (ss ! i) = ts \<and> sp_bc (ss ! i) = sp_bc (op_spans st ! i) \<and> sp_os_index (ss ! i) = sp_os_index (op_spans st ! i) \<and> sp_active s1 \<noteq> ON_Q"
      using y(3) RecalcNormal_shape [OF y(2)] by (auto simp: span_shape_def)
    then show ?thesis using y update_terms_nth [OF y(1)] by blast
  qed
  show "\<forall>s\<in>set (op_spans st'). \<exists>s0\<in>set (op_spans st). sp_bc s = sp_bc s0 \<and> sp_os_index s = sp_os_index s0"
  proof
    fix s assume "s \<in> set (op_spans st')"
    then obtain i where i: "i < length ss" "s = ss ! i" using x(2) by (auto simp: in_set_conv_nth)
    then show "\<exists>s0\<in>set (op_spans st). sp_bc s = sp_bc s0 \<and> sp_os_index s = sp_os_index s0"
      using S [OF i(1)] L nth_mem [of i "op_spans st"] by metis
  qed
  show "\<forall>s\<in>set (op_spans st'). \<forall>t\<in>set (sp_terms s). locs_known t \<and> (term_in (length (op_bcs st)) t \<longrightarrow> term_exact (op_bcs st) t)"
  proof (intro ballI)
    fix s t assume s: "s \<in> set (op_spans st')" "t \<in> set (sp_terms s)"
    obtain i where i: "i < length ss" "s = ss ! i" using s(1) x(2) by (auto simp: in_set_conv_nth)
    obtain t0 where t0: "update_term ?env t0 = Ret t" using S [OF i(1)] s(2) i(2) by (auto simp: list_all2_conv_all_nth in_set_conv_nth)
    have us: "LONG_MIN < st_new t" "st_new t < LONG_MAX" using assms(4) s by (auto simp: unsaturated_def)
    show "locs_known t \<and> (term_in (length (op_bcs st)) t \<longrightarrow> term_exact (op_bcs st) t)"
      using update_term_value [OF t0 us] placed_term_exact [OF assms(3) _ us] by blast
  qed
  show "watched P st'"
    unfolding watched_def
  proof (intro allI impI)
    fix k assume "k < length (op_spans st')"
    then have k: "k < length ss" using x(2) by simp
    obtain s0 s1 exc ds1 where y: "RecalcNormal P s0 = Ret (s1, exc, ds1)" "ss ! k = (if exc then s1\<lparr>sp_active := ON_Q\<rparr> else s1)"
      "sp_active s1 \<noteq> ON_Q" "exc \<longrightarrow> k \<in> set q" using S [OF k] by blast
    show "(sp_active (op_spans st' ! k) = ACTIVE \<longrightarrow> accepted P (op_bcs st') (op_spans st' ! k)) \<and>
     (sp_active (op_spans st' ! k) = ON_Q \<longrightarrow> k \<in> set (op_QA st') \<union> set (op_QB st'))"
      using y x(2) RecalcNormal_accepted [of P s0 s1 ds1] by (cases exc) auto
  qed
qed

section \<open>Step 1e\<close>

text \<open>The search for cycles changes nothing but the backtraces and the messages.\<close>

definition erase :: "'f Optimizer \<Rightarrow> 'f Optimizer" where
  "erase st = st\<lparr>op_spans := List.map (\<lambda>s. s\<lparr>sp_backtrace := []\<rparr>) (op_spans st), op_diags := []\<rparr>"

lemma CheckCycle_erase: "erase (CheckCycle k n st) = erase st"
  by (simp add: CheckCycle_def erase_def Let_def report_def set_span_def map_update)
     (metis list_update_beyond list_update_id map_update not_le nth_map length_map)

lemma fold_erase: "(\<And>x st. erase (f x st) = erase st) \<Longrightarrow> erase (fold f xs st) = erase st"
  by (induction xs arbitrary: st) simp_all

lemma check_cycles_erase: "erase (check_cycles k st) = erase st"
  by (simp add: check_cycles_def Let_def fold_erase CheckCycle_erase)

lemma fold_diags:
  assumes "\<And>x st. \<exists>ds. op_diags (f x st) = op_diags st @ ds"
  shows "\<exists>ds. op_diags (fold f xs st) = op_diags st @ ds"
proof (induction xs arbitrary: st)
  case (Cons x xs)
  obtain ds where "op_diags (fold f xs (f x st)) = op_diags (f x st) @ ds" using Cons by blast
  moreover obtain ds' where "op_diags (f x st) = op_diags st @ ds'" using assms by blast
  ultimately show ?case by simp
qed simp

lemma CheckCycle_diags: "\<exists>ds. op_diags (CheckCycle k n st) = op_diags st @ ds"
  by (simp add: CheckCycle_def Let_def)

lemma check_cycles_diags: "\<exists>ds. op_diags (check_cycles k st) = op_diags st @ ds"
  by (simp add: check_cycles_def Let_def) (intro impI fold_diags CheckCycle_diags)

lemma Step1e_diags: "Step1e st = Ret st' \<Longrightarrow> \<exists>ds. op_diags st' = op_diags st @ ds"
proof -
  assume "Step1e st = Ret st'"
  then obtain st2 where "st' = fold check_cycles [0..<length (op_spans st)] st2" "op_diags st2 = op_diags st"
    by (fastforce simp: Step1e_def bind_out_Ret_iff Let_def)
  then show ?thesis using fold_diags [of check_cycles, OF check_cycles_diags] by metis
qed

lemma Step1e_terms: "Step1e st = Ret st' \<Longrightarrow> List.map sp_terms (op_spans (erase st')) = List.map sp_terms (op_spans (erase st))"
proof -
  assume "Step1e st = Ret st'"
  then obtain st2 where "st' = fold check_cycles [0..<length (op_spans st)] st2" "op_spans st2 = op_spans st"
    by (fastforce simp: Step1e_def bind_out_Ret_iff Let_def)
  moreover have "erase (fold check_cycles [0..<length (op_spans st)] st2) = erase st2" by (rule fold_erase [OF check_cycles_erase])
  ultimately have "erase st' = erase st2" "op_spans (erase st2) = op_spans (erase st)" by (simp only:) (simp add: erase_def \<open>op_spans st2 = op_spans st\<close>)
  then show ?thesis by simp
qed

lemma unsaturated_erase:
  "unsaturated st \<longleftrightarrow> (\<forall>ts\<in>set (List.map sp_terms (op_spans (erase st))). \<forall>t\<in>set ts. LONG_MIN < st_new t \<and> st_new t < LONG_MAX)"
  by (simp add: unsaturated_def erase_def)

lemma unsaturated_terms:
  "List.map sp_terms (op_spans (erase st')) = List.map sp_terms (op_spans (erase st)) \<Longrightarrow> unsaturated st' = unsaturated st"
  by (simp only: unsaturated_erase)

lemma accepted_erase: "accepted P bcs (s\<lparr>sp_backtrace := b\<rparr>) = accepted P bcs s"
proof -
  have "span_value P (s\<lparr>sp_backtrace := b\<rparr>) = span_value P s" by (rule span_value_cong) simp_all
  then show ?thesis by (simp add: accepted_def exceeds_def)
qed

lemma round_inv_erase: "round_inv P (erase st) = round_inv P st"
proof -
  have n: "k < length (op_spans st) \<Longrightarrow> op_spans (erase st) ! k = (op_spans st ! k)\<lparr>sp_backtrace := []\<rparr>" for k by (simp add: erase_def)
  have e: "op_bcs (erase st) = op_bcs st" "op_setters (erase st) = op_setters st" "op_itree (erase st) = op_itree st"
    "op_QA (erase st) = op_QA st" "op_QB (erase st) = op_QB st" "length (op_spans (erase st)) = length (op_spans st)" by (simp_all add: erase_def)
  have "terms_in (erase st) = terms_in st" by (simp add: terms_in_def e n)
  moreover have "tree_complete (erase st) = tree_complete st" by (auto simp: tree_complete_def e n)
  moreover have "exact_for (op_bcs st) (erase st) = exact_for (op_bcs st) st" by (simp add: exact_for_def e n)
  moreover have "watched P (erase st) = watched P st" by (simp add: watched_def e n accepted_erase)
  moreover have "span_setters (erase st) = span_setters st" by (simp add: span_setters_def e n)
  moreover have "setters_sorted (erase st) = setters_sorted st" by (simp add: setters_sorted_def e)
  moreover have "all_sized (erase st) = all_sized st" "moving 0 0 (erase st) = moving 0 0 st" by (simp_all add: all_sized_def moving_def e)
  ultimately show ?thesis by (simp add: round_inv_def loop_inv_def e)
qed

text \<open>The order of the setters is that of the special bytecodes.\<close>

lemma filter_upt_nth:
  assumes "i < length (filter Q [0..<n])" "b \<le> n"
  shows "filter Q [0..<n] ! i < b \<longleftrightarrow> i < length (filter Q [0..<b])"
proof -
  have e: "filter Q [0..<n] = filter Q [0..<b] @ filter Q [b..<n]" using upt_add_eq_append [of 0 b "n - b"] assms(2) by simp
  show ?thesis
  proof (cases "i < length (filter Q [0..<b])")
    case True
    then have "filter Q [0..<b] ! i \<in> set (filter Q [0..<b])" by (rule nth_mem)
    then show ?thesis using True by (simp add: e nth_append)
  next
    case False
    then have "filter Q [b..<n] ! (i - length (filter Q [0..<b])) \<in> set (filter Q [b..<n])" using assms(1) by (intro nth_mem) (simp add: e)
    then show ?thesis using False by (auto simp add: e nth_append)
  qed
qed

lemma prepared_setter:
  assumes "List.map os_bc setters = List.map Some (filter Q [0..<n]) @ [None]" "i < length setters"
  shows "os_bc (setters ! i) = (if i < length (filter Q [0..<n]) then Some (filter Q [0..<n] ! i) else None)"
    "length setters = Suc (length (filter Q [0..<n]))"
proof -
  show l: "length setters = Suc (length (filter Q [0..<n]))" using arg_cong [OF assms(1), of length] by simp
  have "os_bc (setters ! i) = (List.map Some (filter Q [0..<n]) @ [None]) ! i" using assms by (metis nth_map)
  then show "os_bc (setters ! i) = (if i < length (filter Q [0..<n]) then Some (filter Q [0..<n] ! i) else None)"
    using assms(2) l by (auto simp: nth_append)
qed

lemma prepared_setters:
  assumes "prepared st0" "op_bcs st = op_bcs st0" "List.map os_bc (op_setters st) = List.map os_bc (op_setters st0)"
    "\<forall>s\<in>set (op_spans st). \<exists>s0\<in>set (op_spans st0). sp_bc s = sp_bc s0 \<and> sp_os_index s = sp_os_index s0"
  shows "setters_sorted st" "span_setters st"
    "\<forall>b < length (op_bcs st). getSpecial (op_bcs st ! b) = SPECIAL_OFFSET \<longrightarrow> (\<exists>i < length (op_setters st). os_bc (op_setters st ! i) = Some b)"
proof -
  let ?Q = "special_at (op_bcs st)" and ?n = "length (op_bcs st)"
  have m: "List.map os_bc (op_setters st) = List.map Some (filter ?Q [0..<?n]) @ [None]" using assms(1-3) by (simp add: prepared_def)
  note P = prepared_setter [OF m]
  have at: "i < length (filter ?Q [0..<?n]) \<and> b = filter ?Q [0..<?n] ! i \<and> b < ?n \<and> ?Q b"
    if "i < length (op_setters st)" "os_bc (op_setters st ! i) = Some b" for i b
    using P(1) [OF that(1)] that(2) nth_mem [of i "filter ?Q [0..<?n]"] by (auto split: if_splits)
  have s: "sorted_wrt (<) (filter ?Q [0..<?n])" using sorted_wrt_filter [OF sorted_wrt_upt] by simp
  show "setters_sorted st"
    unfolding setters_sorted_def
  proof (intro allI impI)
    fix i b assume i: "i < length (op_setters st)" "os_bc (op_setters st ! i) = Some b"
    note A = at [OF i]
    have "\<exists>b' < b. os_bc (op_setters st ! j) = Some b'" if "j < i" for j
      using A that i(1) P(1) [of j] sorted_wrt_nth_less [OF s that] by simp
    then show "b < ?n \<and> getSpecial (op_bcs st ! b) = SPECIAL_OFFSET \<and> (\<forall>j<i. \<exists>b'<b. os_bc (op_setters st ! j) = Some b')"
      using A unfolding special_at_def by blast
  qed
  show "span_setters st"
    unfolding span_setters_def
  proof (intro allI impI)
    fix k assume k: "k < length (op_spans st)"
    let ?s = "op_spans st ! k"
    obtain s0 where s0: "s0 \<in> set (op_spans st0)" "sp_bc ?s = sp_bc s0" "sp_os_index ?s = sp_os_index s0" using assms(4) k nth_mem by blast
    have K: "sp_bc ?s < ?n" "\<not> ?Q (sp_bc ?s)" "sp_os_index ?s = length (filter ?Q [0..<sp_bc ?s])"
      using s0 assms(1,2) by (auto simp: prepared_def span_known_def)
    have "i < sp_os_index ?s \<longleftrightarrow> b < sp_bc ?s" if "i < length (op_setters st)" "os_bc (op_setters st ! i) = Some b" for i b
      using at [OF that] filter_upt_nth [of i ?Q ?n "sp_bc ?s"] K by simp
    then show "sp_bc ?s < ?n \<and> getSpecial (op_bcs st ! sp_bc ?s) \<noteq> SPECIAL_OFFSET \<and>
      (\<forall>i < length (op_setters st). \<forall>b. os_bc (op_setters st ! i) = Some b \<longrightarrow> (i < sp_os_index ?s \<longleftrightarrow> b < sp_bc ?s))"
      using K by (auto simp: special_at_def)
  qed
  show "\<forall>b < ?n. getSpecial (op_bcs st ! b) = SPECIAL_OFFSET \<longrightarrow> (\<exists>i < length (op_setters st). os_bc (op_setters st ! i) = Some b)"
  proof (intro allI impI)
    fix b assume "b < ?n" "getSpecial (op_bcs st ! b) = SPECIAL_OFFSET"
    then have "b \<in> set (filter ?Q [0..<?n])" by (simp add: special_at_def)
    then obtain i where i: "i < length (filter ?Q [0..<?n])" "filter ?Q [0..<?n] ! i = b" by (meson in_set_conv_nth)
    have "length (op_setters st) = Suc (length (filter ?Q [0..<?n]))" using arg_cong [OF m, of length] by simp
    then show "\<exists>i < length (op_setters st). os_bc (op_setters st ! i) = Some b" using i P(1) [of i] by (intro exI [of _ i]) simp
  qed
qed

lemma Step1e_inv:
  assumes "Step1e st = Ret st'" "prepared st0" "placed 0 (op_bcs st0)" "Step1d P st0 = Ret (st, done)" "unsaturated st" "int (length (op_bcs st0)) < 2 ^ 31 - 1"
  shows "round_inv P st'" "length (op_bcs st') = length (op_bcs st0)"
    "\<forall>b < length (op_bcs st'). getSpecial (op_bcs st' ! b) = SPECIAL_OFFSET \<longrightarrow> (\<exists>i < length (op_setters st'). os_bc (op_setters st' ! i) = Some b)"
proof -
  note D = Step1d_inv [OF assms(4,2,3,5)]
  let ?st1 = "st\<lparr>op_setters := List.map (update_setter (op_bcs st)) (op_setters st)\<rparr>"
  obtain tree where t: "itree_spans (op_bcs st) 0 (op_spans st) ITNil = Ret tree" "st' = fold check_cycles [0..<length (op_spans st)] (?st1\<lparr>op_itree := tree\<rparr>)"
    using assms(1) D(3) by (auto simp: Step1e_def bind_out_Ret_iff Let_def)
  define st2 where "st2 = ?st1\<lparr>op_itree := tree\<rparr>"
  have f: "op_bcs st2 = op_bcs st0" "op_spans st2 = op_spans st" "op_itree st2 = tree" "op_QA st2 = op_QA st" "op_QB st2 = op_QB st"
    "op_setters st2 = List.map (update_setter (op_bcs st0)) (op_setters st)" "op_bcs st = op_bcs st0" using D(1) by (simp_all add: st2_def)
  have os: "List.map os_bc (op_setters st2) = List.map os_bc (op_setters st0)"
    using D(2) by (simp add: f(6) update_setter_def Let_def split: option.splits)
  note S = prepared_setters [OF assms(2) f(1) os D(7) [folded f(2)]]
  have ix: "indexed (op_bcs st2)" using assms(2,6) by (simp add: f(1) indexed_def prepared_def)
  have T: "terms_in st2" "tree_complete st2" using t(1) D(6) ix by (auto intro!: itree_spans_complete simp: f)
  have "exact_for (op_bcs st2) st2" using D(6) T(1) unfolding exact_for_def terms_in_def f by (meson nth_mem)
  moreover have "watched P st2" using D(5) by (simp add: watched_def f)
  moreover have "all_sized st2" using assms(2) by (simp add: prepared_def all_sized_def f)
  moreover have "moving 0 0 st2"
    unfolding moving_def
  proof (intro allI impI)
    fix i b assume i: "i < length (op_setters st2)" "os_bc (op_setters st2 ! i) = Some b"
    let ?bc = "op_bcs st0 ! b" and ?v = "to_u64 (bc_offset (op_bcs st0 ! b) + getFixedLen (op_bcs st0 ! b))"
    have b: "b < length (op_bcs st0)" using setters_sortedD(1) [OF S(1) i] by (simp add: f)
    have "os_bc (op_setters st ! i) = Some b" using i by (simp add: f update_setter_def Let_def split: option.splits)
    then have o: "os_new (op_setters st2 ! i) = ?v" "os_cur (op_setters st2 ! i) = ?v" using i by (simp_all add: f update_setter_def Let_def)
    have p: "bc_offset ?bc = to_u64 (voff (op_bcs st0) b)" "bc_claim (to_u64 (voff (op_bcs st0) b + getFixedLen ?bc)) (bc_contents ?bc) (bc_len ?bc)"
      using assms(3) b by (simp_all add: placed_def)
    show "os_cur (op_setters st2 ! i) = os_new (op_setters st2 ! i) \<and> to_u64 (os_new (op_setters st2 ! i)) = os_new (op_setters st2 ! i) \<and>
     bc_claim (os_new (op_setters st2 ! i)) (bc_contents (op_bcs st2 ! b)) (bc_len (op_bcs st2 ! b)) \<and>
     to_u64 (os_new (op_setters st2 ! i) + (if i < 0 then 0 else 0)) = to_u64 (voff (op_bcs st2) b + getFixedLen (op_bcs st2 ! b))"
      using p unfolding o f(1) by (simp add: shift_off)
  qed
  ultimately have r: "round_inv P st2" using ix T S by (simp add: round_inv_def loop_inv_def)
  have e: "erase st' = erase st2" unfolding t(2) st2_def by (rule fold_erase [OF check_cycles_erase])
  show "round_inv P st'" using r e round_inv_erase by metis
  have "op_bcs (erase st') = op_bcs (erase st2)" "op_setters (erase st') = op_setters (erase st2)" unfolding e by simp_all
  then have b: "op_bcs st' = op_bcs st2" "op_setters st' = op_setters st2" by (simp_all add: erase_def)
  then show "length (op_bcs st') = length (op_bcs st0)" by (simp add: f)
  show "\<forall>b < length (op_bcs st'). getSpecial (op_bcs st' ! b) = SPECIAL_OFFSET \<longrightarrow> (\<exists>i < length (op_setters st'). os_bc (op_setters st' ! i) = Some b)"
    using S(3) b by simp
qed


section \<open>The whole optimization\<close>

lemma Optimize_init_cases:
  assumes "Optimize_init P bcs = Ret (Some (st, fin))"
  obtains (error) "hasErrorOccurred st" "fin"
  | (steps) a b c d dn where "step1a [0..<length bcs] 0 (Optimizer_new bcs) = Ret a" "Step1b P a = Ret (Some b)"
      "update_offsets_st b = Ret c" "Step1d P c = Ret (d, dn)" "if dn then fin \<and> st = d else Step1e d = Ret st \<and> fin = hasErrorOccurred st"
proof -
  obtain a where a: "step1a [0..<length bcs] 0 (Optimizer_new bcs) = Ret a" using assms by (auto simp: Optimize_init_def bind_out_Ret_iff split: if_splits)
  show thesis
  proof (cases "hasErrorOccurred a")
    case True
    then show ?thesis using assms a error by (auto simp: Optimize_init_def split: if_splits)
  next
    case a0: False
    then obtain b where b: "Step1b P a = Ret (Some b)"
      using assms a by (cases "Step1b P a") (auto simp: Optimize_init_def split: if_splits option.splits)
    show ?thesis
    proof (cases "hasErrorOccurred b")
      case True
      then show ?thesis using assms a a0 b error by (auto simp: Optimize_init_def split: if_splits)
    next
      case b0: False
      then obtain c where c: "update_offsets_st b = Ret c"
        using assms a a0 b by (cases "update_offsets_st b") (auto simp: Optimize_init_def split: if_splits)
      show ?thesis
      proof (cases "hasErrorOccurred c")
        case True
        then show ?thesis using assms a a0 b b0 c error by (auto simp: Optimize_init_def split: if_splits)
      next
        case c0: False
        then obtain d dn where d: "Step1d P c = Ret (d, dn)"
          using assms a a0 b b0 c by (cases "Step1d P c") (auto simp: Optimize_init_def split: if_splits)
        then have "if dn then fin \<and> st = d else Step1e d = Ret st \<and> fin = hasErrorOccurred st"
          using assms a a0 b b0 c c0 by (cases "Step1e d") (auto simp: Optimize_init_def split: if_splits)
        then show ?thesis using steps a b c d by blast
      qed
    qed
  qed
qed

lemma Optimize_init_steps:
  assumes "Optimize_init P bcs = Ret (Some (st, fin))" "op_diags st = []"
  obtains a b c d dn where "step1a [0..<length bcs] 0 (Optimizer_new bcs) = Ret a" "op_diags a = []" "Step1b P a = Ret (Some b)" "op_diags b = []"
    "update_offsets_st b = Ret c" "op_diags c = []" "Step1d P c = Ret (d, dn)" "op_diags d = []"
    "if dn then fin \<and> st = d else Step1e d = Ret st \<and> \<not> fin"
  using assms(1)
proof (cases rule: Optimize_init_cases)
  case error
  then show ?thesis using assms(2) by (simp add: hasErrorOccurred_def)
next
  case (steps a b c d dn)
  have "op_diags d = []" using steps(5) assms(2) Step1e_diags [of d st] by (auto split: if_splits)
  moreover from this have "op_diags c = []" using steps(4) by (auto simp: Step1d_def bind_out_Ret_iff Let_def)
  moreover from this have "op_diags b = []" using steps(3) by (auto dest!: update_offsets_st_Ret)
  moreover from this have "op_diags a = []" using steps(2) by (auto elim: Step1b_loop)
  moreover have "\<not> hasErrorOccurred st" using assms(2) by (simp add: hasErrorOccurred_def)
  ultimately show ?thesis using that steps by simp
qed

lemma Step2_claims:
  assumes "round_inv P st" "\<forall>b < length (op_bcs st). getSpecial (op_bcs st ! b) = SPECIAL_OFFSET \<longrightarrow> (\<exists>i < length (op_setters st). os_bc (op_setters st ! i) = Some b)"
  shows "claims_placed 0 (op_bcs st)"
  unfolding claims_placed_def
proof (intro allI impI)
  fix b assume b: "b < length (op_bcs st)" "getSpecial (op_bcs st ! b) = SPECIAL_OFFSET"
  then obtain i where i: "i < length (op_setters st)" "os_bc (op_setters st ! i) = Some b" using assms(2) by blast
  have "moving 0 0 st" using assms(1) by (simp add: round_inv_def loop_inv_def)
  then show "bc_claim (to_u64 (0 + voff (op_bcs st) b + getFixedLen (op_bcs st ! b))) (bc_contents (op_bcs st ! b)) (bc_len (op_bcs st ! b))"
    using i unfolding moving_def by (metis add_0 add_0_right less_nat_zero_code)
qed

lemma voff_offsets:
  assumes "length bcs' = length bcs" "\<forall>i < length bcs. bcs' ! i = (bcs ! i)\<lparr>bc_offset := f i\<rparr>"
  shows "voff bcs' = voff bcs"
proof
  fix i
  have "List.map (\<lambda>bc. getFixedLen bc + bc_len bc) bcs' = List.map (\<lambda>bc. getFixedLen bc + bc_len bc) bcs"
    using assms by (intro nth_equalityI) simp_all
  then have "List.map (\<lambda>bc. getFixedLen bc + bc_len bc) (take i bcs') = List.map (\<lambda>bc. getFixedLen bc + bc_len bc) (take i bcs)"
    by (metis take_map)
  then show "voff bcs' i = voff bcs i" by (simp add: voff_def size_sum_def)
qed

lemma update_offsets_st_settled:
  assumes "update_offsets_st st = Ret st'" "op_diags st' = []" "all_sized st" "claims_placed 0 (op_bcs st)"
  shows "length (op_bcs st') = length (op_bcs st) \<and> (\<exists>f. \<forall>i < length (op_bcs st). op_bcs st' ! i = (op_bcs st ! i)\<lparr>bc_offset := f i\<rparr>)"
proof -
  obtain bcs ds bs where u: "bs \<noteq> []" "op_bcs st = bs" "update_offsets 0 ((hd bs)\<lparr>bc_offset := 0\<rparr> # tl bs) = Ret (bcs, ds)" "st' = report ds (st\<lparr>op_bcs := bcs\<rparr>)"
    using update_offsets_st_Ret [OF assms(1)] by blast
  let ?bs = "(hd bs)\<lparr>bc_offset := 0\<rparr> # tl bs"
  have ds: "ds = []" using assms(2) u(4) by simp
  have bs: "op_bcs st = hd bs # tl bs" using u(1,2) by simp
  have n: "?bs ! i = (op_bcs st ! i)\<lparr>bc_offset := (if i = 0 then 0 else bc_offset (op_bcs st ! i))\<rparr>" for i unfolding bs by (cases i) simp_all
  have l: "length ?bs = length (op_bcs st)" unfolding bs by simp
  have v: "voff ?bs = voff (op_bcs st)" by (rule voff_offsets [OF l, of "\<lambda>i. if i = 0 then 0 else bc_offset (op_bcs st ! i)"]) (use n in blast)
  have "claims_placed 0 ?bs" using assms(4) unfolding claims_placed_def l v n by simp
  moreover have "\<forall>bc\<in>set ?bs. bc_sized bc" using assms(3) by (simp add: all_sized_def bs)
  moreover have "update_offsets (to_u64 0) ?bs = Ret (bcs, [])" using u(3) ds by simp
  ultimately have "length bcs = length ?bs \<and> (\<forall>i < length ?bs. bcs ! i = (?bs ! i)\<lparr>bc_offset := to_u64 (0 + voff ?bs i)\<rparr>)"
    using update_offsets_settled by blast
  then show ?thesis unfolding l n using u(4) by auto
qed


text \<open>
  What is left of the spans: the value of a span that is still watched is the one its
  expression has at the offsets of the bytecodes, and it needs no expansion.
\<close>

definition loc_value :: "'f Bytecode list \<Rightarrow> Location \<Rightarrow> int" where
  "loc_value bcs loc = bc_offset (bcs ! the (loc_bc loc)) + loc_off loc"

definition resolved :: "'f opt_iface \<Rightarrow> 'f Bytecode list \<Rightarrow> 'f Span \<Rightarrow> bool" where
  "resolved P bcs s \<longleftrightarrow> (\<exists>ds. span_value P s = Ret (sp_new s, ds)) \<and>
     (exceeds s \<longrightarrow> 0 < sp_id s \<and> sp_new s < 0 \<and> sp_bc s < length bcs \<and> bc_uleb (bcs ! sp_bc s)) \<and>
     (\<forall>t\<in>set (sp_terms s). term_in (length bcs) t \<longrightarrow>
        st_new t = to_s64 (loc_value bcs (st_loc2 t) - loc_value bcs (st_loc t)))"

lemma loc_value_exact:
  assumes "placed 0 bcs" "term_in (length bcs) t" "term_exact bcs t"
  shows "st_new t = to_s64 (loc_value bcs (st_loc2 t) - loc_value bcs (st_loc t))"
proof -
  have o: "bc_offset (bcs ! b) = to_u64 (voff bcs b)" if "b < length bcs" for b using assms(1) that by (simp add: placed_def)
  have "to_u64 (loc_pos bcs (st_loc2 t) - loc_pos bcs (st_loc t)) = to_u64 (loc_value bcs (st_loc2 t) - loc_value bcs (st_loc t))"
    using assms(2) o by (intro u64_cong_diff) (simp_all add: loc_pos_def loc_value_def term_in_def t_from_def t_to_def shift_off)
  then show ?thesis using assms(3) to_s64_cong by (metis term_exact_def)
qed

lemma accepted_resolved:
  assumes "accepted P bcs s" "placed 0 bcs" "\<forall>t\<in>set (sp_terms s). term_in (length bcs) t \<longrightarrow> term_exact bcs t"
  shows "resolved P bcs s"
proof -
  obtain ds where "span_value P s = Ret (sp_new s, ds)" using assms(1) by (auto simp: accepted_def)
  then have "long_range (sp_new s)" by (rule span_value_range)
  then show ?thesis using assms loc_value_exact [OF assms(2)] by (simp add: resolved_def accepted_def)
qed

lemma term_exact_voff: "voff bcs' = voff bcs \<Longrightarrow> term_exact bcs' t = term_exact bcs t"
  by (simp add: term_exact_def loc_pos_def)

lemma Optimize_steps:
  assumes "Optimize P bcs = Some (Ret st)" "op_diags st = []"
  obtains (early) "Optimize_init P bcs = Ret (Some (st, True))"
    | (loop) st0 st1 where "Optimize_init P bcs = Ret (Some (st0, False))" "Step2 P st0 = Some (Ret st1)" "update_offsets_st st1 = Ret st" "op_diags st0 = []" "op_diags st1 = []"
proof -
  obtain st0 fin where i: "Optimize_init P bcs = Ret (Some (st0, fin))" using assms(1) by (auto simp: Optimize_def split: outcome.splits option.splits)
  show thesis
  proof (cases fin)
    case True
    then show ?thesis using i assms(1) early by (simp add: Optimize_def)
  next
    case False
    then obtain r where r: "Step2 P st0 = Some r" "bind_out r (\<lambda>st1. if hasErrorOccurred st1 then Ret st1 else update_offsets_st st1) = Ret st"
      using assms(1) i by (auto simp: Optimize_def split: option.splits)
    obtain st1 where st1: "r = Ret st1" "(if hasErrorOccurred st1 then Ret st1 else update_offsets_st st1) = Ret st"
      using r(2) by (auto simp: bind_out_Ret_iff)
    have d1: "op_diags st1 = []" using st1(2) assms(2) by (auto dest!: update_offsets_st_Ret split: if_splits)
    have "op_diags st0 = []" using Step2_result r(1) st1(1) same_shape_diags d1 by blast
    then show ?thesis using loop i False r(1) st1 d1 by (simp add: hasErrorOccurred_def)
  qed
qed

lemma Optimize_init_inv:
  assumes "Optimize_init P bcs = Ret (Some (st, fin))" "op_diags st = []" "\<forall>bc\<in>set bcs. bc_wf bc" "int (length bcs) < 2 ^ 31 - 1" "unsaturated st"
  shows "if fin then placed 0 (op_bcs st) \<and> (\<forall>s\<in>set (op_spans st). sp_active s \<noteq> INACTIVE \<longrightarrow> resolved P (op_bcs st) s)
    else round_inv P st \<and> (\<forall>b < length (op_bcs st). getSpecial (op_bcs st ! b) = SPECIAL_OFFSET \<longrightarrow> (\<exists>i < length (op_setters st). os_bc (op_setters st ! i) = Some b))"
proof -
  obtain a b c d dn where x: "step1a [0..<length bcs] 0 (Optimizer_new bcs) = Ret a" "op_diags a = []" "Step1b P a = Ret (Some b)" "op_diags b = []"
    "update_offsets_st b = Ret c" "op_diags c = []" "Step1d P c = Ret (d, dn)" "op_diags d = []" "if dn then fin \<and> st = d else Step1e d = Ret st \<and> \<not> fin"
    using Optimize_init_steps [OF assms(1,2)] .
  have pa: "prepared a" "length (op_bcs a) = length bcs" using step1a_prepared [OF x(1) assms(3) x(2)] by auto
  have pb: "prepared b" "length (op_bcs b) = length bcs" using Step1b_prepared [OF x(3) pa(1)] pa(2) by auto
  have pc: "prepared c" "placed 0 (op_bcs c)" "length (op_bcs c) = length bcs" using update_offsets_st_prepared [OF x(5,6) pb(1)] pb(2) by auto
  show ?thesis
  proof (cases dn)
    case True
    then have d: "st = d" "fin" using x(9) by auto
    note D = Step1d_inv [OF x(7) pc(1,2) assms(5) [unfolded d]]
    have q: "op_QA d = []" "op_QB d = []" using D(4) True by auto
    have "resolved P (op_bcs d) s" if s: "s \<in> set (op_spans d)" "sp_active s \<noteq> INACTIVE" for s
    proof (rule accepted_resolved)
      obtain k where "k < length (op_spans d)" "s = op_spans d ! k" using s(1) by (auto simp: in_set_conv_nth)
      then show "accepted P (op_bcs d) s" using D(5) q s(2) by (cases "sp_active s") (auto simp: watched_def)
    qed (use D(1,6) pc s in auto)
    then show ?thesis using d D(1) pc by simp
  next
    case False
    then have e: "Step1e d = Ret st" "\<not> fin" using x(9) by auto
    have "unsaturated d" using assms(5) unsaturated_terms [OF Step1e_terms [OF e(1)]] by blast
    then show ?thesis using Step1e_inv [OF e(1) pc(1,2) x(7)] e(2) assms(4) pc(3) by simp
  qed
qed

lemma Optimize_resolved:
  assumes "Optimize P bcs = Some (Ret st)" "op_diags st = []" "\<forall>bc\<in>set bcs. bc_wf bc" "int (length bcs) < 2 ^ 31 - 1"
    "Optimize_init P bcs = Ret (Some (st0, fin))" "unsaturated st0"
  shows "placed 0 (op_bcs st) \<and> (\<forall>s\<in>set (op_spans st). sp_active s \<noteq> INACTIVE \<longrightarrow> resolved P (op_bcs st) s)"
  using assms(1,2)
proof (cases rule: Optimize_steps)
  case early
  then show ?thesis using Optimize_init_inv [OF early assms(2-4)] assms(5,6) by simp
next
  case (loop st0' st1)
  have st0: "st0' = st0" "fin = False" using loop(1) assms(5) by auto
  have I: "round_inv P st0" "\<forall>b < length (op_bcs st0). getSpecial (op_bcs st0 ! b) = SPECIAL_OFFSET \<longrightarrow> (\<exists>i < length (op_setters st0). os_bc (op_setters st0 ! i) = Some b)"
    using Optimize_init_inv [OF assms(5) _ assms(3,4,6)] loop(4) st0 by auto
  note R = Step2_result [OF loop(2)]
  have r1: "round_inv P st1" "same_shape st0 st1" "op_QA st1 = []" "op_QB st1 = []" using R loop(5) I(1) st0 by auto
  note n = same_shape_nth [OF r1(2)]
  have "\<exists>i < length (op_setters st1). os_bc (op_setters st1 ! i) = Some b"
    if b: "b < length (op_bcs st1)" "getSpecial (op_bcs st1 ! b) = SPECIAL_OFFSET" for b
  proof -
    have "getSpecial (op_bcs st0 ! b) = SPECIAL_OFFSET" using b n(1) n(4) [of b] by (simp add: bc_shape_def)
    then obtain i where "i < length (op_setters st0)" "os_bc (op_setters st0 ! i) = Some b" using I(2) b(1) n(1) by auto
    then show ?thesis using n(3) n(6) [of i] by (intro exI [of _ i]) simp
  qed
  then have "claims_placed 0 (op_bcs st1)" using Step2_claims [OF r1(1)] by blast
  moreover have sz: "all_sized st1" using r1(1) by (simp add: round_inv_def loop_inv_def)
  ultimately obtain f where f: "length (op_bcs st) = length (op_bcs st1)" "\<forall>i < length (op_bcs st1). op_bcs st ! i = (op_bcs st1 ! i)\<lparr>bc_offset := f i\<rparr>"
    using update_offsets_st_settled [OF loop(3) assms(2)] by blast
  have v: "voff (op_bcs st) = voff (op_bcs st1)" by (rule voff_offsets [OF f])
  have P: "placed 0 (op_bcs st)" "op_spans st = op_spans st1" using update_offsets_st_placed [OF loop(3) assms(2) sz] by auto
  have "resolved P (op_bcs st) s" if s: "s \<in> set (op_spans st)" "sp_active s \<noteq> INACTIVE" for s
  proof (rule accepted_resolved [OF _ P(1)])
    obtain k where k: "k < length (op_spans st1)" "s = op_spans st1 ! k" using s(1) P(2) by (auto simp: in_set_conv_nth)
    have "accepted P (op_bcs st1) s" using r1(1,3,4) s(2) k by (cases "sp_active s") (auto simp: round_inv_def loop_inv_def watched_def)
    then show "accepted P (op_bcs st) s" using f by (auto simp: accepted_def)
    show "\<forall>t\<in>set (sp_terms s). term_in (length (op_bcs st)) t \<longrightarrow> term_exact (op_bcs st) t"
      using r1(1) s(2) k by (auto simp: round_inv_def loop_inv_def exact_for_def term_exact_voff [OF v] in_set_conv_nth)
  qed
  then show ?thesis using P(1) by simp
qed

lemma placed_laid_out:
  "placed off bcs \<Longrightarrow> 0 \<le> off \<Longrightarrow> off + size_sum bcs \<le> ULONG_MAX \<Longrightarrow> laid_out off bcs"
proof (induction bcs arbitrary: off)
  case (Cons bc bcs)
  have p: "bc_offset bc = to_u64 off" "bc_claim (to_u64 (off + getFixedLen bc)) (bc_contents bc) (bc_len bc)"
    using Cons(2) [unfolded placed_def, rule_format, of 0] by (simp_all add: voff_Cons)
  have "placed (off + getFixedLen bc + bc_len bc) bcs" unfolding placed_def
  proof (intro allI impI)
    fix i assume "i < length bcs"
    then show "bc_offset (bcs ! i) = to_u64 (off + getFixedLen bc + bc_len bc + voff bcs i) \<and>
       bc_claim (to_u64 (off + getFixedLen bc + bc_len bc + voff bcs i + getFixedLen (bcs ! i))) (bc_contents (bcs ! i)) (bc_len (bcs ! i))"
      using Cons(2) [unfolded placed_def, rule_format, of "Suc i"] by (simp add: voff_Cons add.assoc)
  qed
  moreover have nn: "0 \<le> bc_len bc" "0 \<le> getFixedLen bc" "0 \<le> size_sum bcs"
  proof -
    show "0 \<le> bc_len bc" using p(2) by (cases "bc_contents bc") auto
    show "0 \<le> getFixedLen bc" by (simp add: getFixedLen_def)
    have "0 \<le> bc_len b" if b: "b \<in> set bcs" for b
    proof -
      obtain i where "i < length bcs" "b = bcs ! i" using b by (auto simp: in_set_conv_nth)
      then show ?thesis using Cons(2) [unfolded placed_def, rule_format, of "Suc i"] by (cases "bc_contents b") auto
    qed
    then show "0 \<le> size_sum bcs" unfolding size_sum_def by (intro sum_list_nonneg) (auto simp: getFixedLen_def)
  qed
  ultimately have "laid_out (off + getFixedLen bc + bc_len bc) bcs" using Cons(1) [of "off + getFixedLen bc + bc_len bc"] Cons(3,4) by simp
  moreover have "to_u64 off = off" "to_u64 (off + getFixedLen bc) = off + getFixedLen bc" using nn Cons(3,4) by (auto intro!: to_u64_id)
  ultimately show ?case using p Cons(3) by simp
qed simp

end
