(* ===== verification/Optimizer_Correct.thy ===== *)
theory Optimizer_Correct
  imports Optimizer_Steps
begin

text \<open>
  The termination of \<^verbatim>\<open>BytecodeContainer::Optimize\<close> and the properties of the optimizer.
\<close>

unbundle bit_operations_syntax

section \<open>Termination\<close>

text \<open>A repetition has a constant count: the optimizer never shrinks a bytecode again.\<close>

definition settles :: "'f Bytecode \<Rightarrow> bool" where
  "settles bc \<longleftrightarrow> (case bc_contents bc of Some (FillBytecode mul v sk) \<Rightarrow> isIntNum (mul_expr mul) | _ \<Rightarrow> True)"

lemma Contents_CalcLen_kind:
  assumes "Contents_CalcLen tail c = Ret (c', r, reqs, ds)"
  shows "Contents_getSpecial c' = Contents_getSpecial c" "one_way c' = one_way c"
    "(case c' of FillBytecode mul v sk \<Rightarrow> isIntNum (mul_expr mul) | _ \<Rightarrow> True) = (case c of FillBytecode mul v sk \<Rightarrow> isIntNum (mul_expr mul) | _ \<Rightarrow> True)"
    "(case c of FillBytecode mul v sk \<Rightarrow> isIntNum (mul_expr mul) | _ \<Rightarrow> True) \<Longrightarrow> reqs \<noteq> [] \<Longrightarrow> one_way c"
  using assms by (cases c; auto simp: bind_out_Ret_iff LEB128_CalcLen_def Jmp_CalcLen_def Multiple_CalcLen_def Let_def split: option.splits if_splits)+

lemma Bytecode_CalcLen_kind:
  assumes "Bytecode_CalcLen bc = Ret (bc', ok, reqs, ds)"
  shows "getSpecial bc' = getSpecial bc \<and> bc_one_way bc' = bc_one_way bc \<and> settles bc' = settles bc \<and> (settles bc \<longrightarrow> reqs \<noteq> [] \<longrightarrow> bc_one_way bc)"
proof (cases "bc_contents bc")
  case (Some c)
  then obtain c' r where c: "Contents_CalcLen (getTailOffset bc) c = Ret (c', r, reqs, ds)" "bc_contents bc' = Some c'"
    using assms by (auto simp: Bytecode_CalcLen_def bind_out_Ret_iff split: option.splits)
  show ?thesis using Contents_CalcLen_kind [OF c(1)] c(2) Some by (simp add: getSpecial_def bc_one_way_def settles_def)
qed (use assms in \<open>auto simp: Bytecode_CalcLen_def getSpecial_def bc_one_way_def settles_def\<close>)

text \<open>The hypotheses of \<open>Step2_terminates\<close> are kept as long as the kinds of the bytecodes are.\<close>

definition bounded_growth :: "'f Optimizer \<Rightarrow> bool" where
  "bounded_growth st \<longleftrightarrow> setters_special st \<and> spans_one_way st"

lemma bounded_growth_kept:
  assumes "bounded_growth st" "length (op_bcs st') = length (op_bcs st)"
    "\<And>b. b < length (op_bcs st) \<Longrightarrow> getSpecial (op_bcs st' ! b) = getSpecial (op_bcs st ! b) \<and> bc_one_way (op_bcs st' ! b) = bc_one_way (op_bcs st ! b)"
    "\<And>os b. os \<in> set (op_setters st') \<Longrightarrow> os_bc os = Some b \<Longrightarrow> b < length (op_bcs st) \<Longrightarrow> os_bc os \<in> os_bc ` set (op_setters st) \<or> getSpecial (op_bcs st' ! b) = SPECIAL_OFFSET"
    "\<And>s. s \<in> set (op_spans st') \<Longrightarrow> sp_bc s \<in> sp_bc ` set (op_spans st) \<or> bc_one_way (op_bcs st' ! sp_bc s)"
  shows "bounded_growth st'"
proof -
  have "getSpecial (op_bcs st' ! b) = SPECIAL_OFFSET" if o: "os \<in> set (op_setters st')" "os_bc os = Some b" "b < length (op_bcs st')" for os b
  proof (cases "os_bc os \<in> os_bc ` set (op_setters st)")
    case True
    then obtain os' where "os' \<in> set (op_setters st)" "os_bc os' = Some b" using o(2) by (metis imageE)
    then show ?thesis using assms(1) assms(3) [of b] o(3) assms(2) by (auto simp: bounded_growth_def setters_special_def)
  qed (use assms(4) [OF o(1,2)] o(3) assms(2) in simp)
  moreover have "bc_one_way (op_bcs st' ! sp_bc s)" if "s \<in> set (op_spans st')" "sp_bc s < length (op_bcs st')" for s
    using assms(5) [OF that(1)] assms(1) assms(3) [of "sp_bc s"] that(2) assms(2) by (auto simp: bounded_growth_def spans_one_way_def)
  ultimately show ?thesis by (auto simp: bounded_growth_def setters_special_def spans_one_way_def)
qed

lemma step1a_growth:
  "step1a is off st = Ret st' \<Longrightarrow> \<forall>i\<in>set is. i < length (op_bcs st) \<Longrightarrow> \<forall>bc\<in>set (op_bcs st). settles bc \<Longrightarrow> bounded_growth st \<Longrightarrow> bounded_growth st'"
proof (induction "is" arbitrary: off st)
  case (Cons i "is")
  obtain bc ok reqs ds where c: "Bytecode_CalcLen ((op_bcs st ! i)\<lparr>bc_index := int i + 1, bc_offset := off\<rparr>) = Ret (bc, ok, reqs, ds)"
    using Cons(2) by (auto simp: bind_out_Ret_iff)
  have i: "i < length (op_bcs st)" using Cons(3) by simp
  have ix: "getSpecial (b\<lparr>bc_index := x\<rparr>) = getSpecial b" "bc_one_way (b\<lparr>bc_index := x\<rparr>) = bc_one_way b" "settles (b\<lparr>bc_index := x, bc_offset := y\<rparr>) = settles b"
    for b :: "'a Bytecode" and x y by (simp_all add: getSpecial_def bc_one_way_def settles_def)
  have k: "getSpecial bc = getSpecial (op_bcs st ! i)" "bc_one_way bc = bc_one_way (op_bcs st ! i)" "settles bc" "reqs \<noteq> [] \<Longrightarrow> bc_one_way bc"
    using Bytecode_CalcLen_kind [OF c] Cons(4) i by (simp_all add: ix)
  define st1 where "st1 = report ds (fold (AddSpan i) reqs (set_bc i bc st))"
  have f: "op_bcs st1 = (op_bcs st)[i := bc]" "op_setters st1 = op_setters st" by (simp_all add: st1_def fold_AddSpan)
  have "bounded_growth st1"
  proof (rule bounded_growth_kept [OF Cons(5)])
    fix s assume "s \<in> set (op_spans st1)"
    then show "sp_bc s \<in> sp_bc ` set (op_spans st) \<or> bc_one_way (op_bcs st1 ! sp_bc s)"
      using fold_AddSpan_spans [of s i reqs "set_bc i bc st"] k(4) i f by (auto simp: st1_def)
  qed (use f k i in \<open>auto simp: nth_update intro: rev_image_eqI\<close>)
  moreover have "bounded_growth (AddOffsetSetter i st1)" if "getSpecial bc = SPECIAL_OFFSET"
  proof (rule bounded_growth_kept [OF \<open>bounded_growth st1\<close>])
    fix os b assume "os \<in> set (op_setters (AddOffsetSetter i st1))" "os_bc os = Some b"
    then have "os \<in> set (op_setters st1) \<or> b = i" by (auto simp: AddOffsetSetter_def OffsetSetter_new_def dest: in_set_butlastD)
    then show "os_bc os \<in> os_bc ` set (op_setters st1) \<or> getSpecial (op_bcs (AddOffsetSetter i st1) ! b) = SPECIAL_OFFSET"
      using \<open>os_bc os = Some b\<close> that i f by (force simp: AddOffsetSetter_def image_iff)
  qed (auto simp: AddOffsetSetter_def)
  ultimately obtain off2 st2 where r: "step1a is off2 st2 = Ret st'" "bounded_growth st2" "op_bcs st2 = op_bcs st1"
    using Cons(2) c by (auto simp: Let_def AddOffsetSetter_simps simp flip: st1_def split: if_splits)
  have "\<forall>bc\<in>set (op_bcs st2). settles bc" using set_update_subset_insert [of "op_bcs st" i bc] Cons(4) k(3) by (auto simp: r(3) f)
  then show ?case using Cons(1) [OF r(1) _ _ r(2)] Cons(3) r(3) f by simp
qed simp

lemma UpdateOffset_shape: "UpdateOffset off bc = Ret (bc', off', ds) \<Longrightarrow> bc_shape bc bc'"
  by (auto simp: UpdateOffset_def bind_out_Ret_iff Let_def dest!: Bytecode_Expand_shape split: if_splits)

lemma update_offsets_shape: "update_offsets off bcs = Ret (bcs', ds) \<Longrightarrow> list_all2 bc_shape bcs bcs'"
  by (induction bcs arbitrary: off bcs' ds) (auto simp: bind_out_Ret_iff dest: UpdateOffset_shape)

lemma bounded_growth_shape:
  assumes "bounded_growth st" "list_all2 bc_shape (op_bcs st) (op_bcs st')" "List.map os_bc (op_setters st') = List.map os_bc (op_setters st)"
    "sp_bc ` set (op_spans st') \<subseteq> sp_bc ` set (op_spans st)"
  shows "bounded_growth st'"
proof (rule bounded_growth_kept [OF assms(1)])
  have "os_bc ` set (op_setters st') = os_bc ` set (op_setters st)" using arg_cong [OF assms(3), of set] by simp
  then show "os_bc os \<in> os_bc ` set (op_setters st) \<or> getSpecial (op_bcs st' ! b) = SPECIAL_OFFSET" if "os \<in> set (op_setters st')" "os_bc os = Some b" for os b
    using that by (metis imageI)
qed (use assms(2,4) in \<open>auto simp: bc_shape_def dest: list_all2_lengthD list_all2_nthD\<close>)


lemma step1d_loop_bcs: "step1d_loop P env k ss = Ret (ss', q, ds) \<Longrightarrow> List.map sp_bc ss' = List.map sp_bc ss"
proof (induction ss arbitrary: k ss' q ds)
  case (Cons s ss)
  obtain ts where ts: "update_terms env (sp_terms s) = Ret ts" using Cons(2) by (auto simp: bind_out_Ret_iff)
  obtain s1 exc ds1 where s1: "RecalcNormal P (s\<lparr>sp_terms := ts\<rparr>) = Ret (s1, exc, ds1)"
    using Cons(2) ts by (cases "RecalcNormal P (s\<lparr>sp_terms := ts\<rparr>)") auto
  obtain ss1 q1 ds2 where r: "step1d_loop P env (Suc k) ss = Ret (ss1, q1, ds2)"
    using Cons(2) ts s1 by (cases "step1d_loop P env (Suc k) ss") auto
  have "sp_bc s1 = sp_bc s" using RecalcNormal_shape [OF s1] by (simp add: span_shape_def)
  then show ?case using Cons(2) ts s1 r Cons(1) [OF r] by auto
qed simp

lemma Step1e_growth: "Step1e st = Ret st' \<Longrightarrow> bounded_growth st \<Longrightarrow> bounded_growth st'"
proof -
  assume e: "Step1e st = Ret st'" and g: "bounded_growth st"
  let ?st1 = "st\<lparr>op_setters := List.map (update_setter (op_bcs st)) (op_setters st)\<rparr>"
  obtain tree where t: "st' = fold check_cycles [0..<length (op_spans st)] (?st1\<lparr>op_itree := tree\<rparr>)"
    using e by (auto simp: Step1e_def bind_out_Ret_iff Let_def)
  have er: "erase st' = erase (?st1\<lparr>op_itree := tree\<rparr>)" unfolding t by (rule fold_erase [OF check_cycles_erase])
  have "op_bcs (erase st') = op_bcs st" "op_setters (erase st') = op_setters ?st1" "sp_bc ` set (op_spans (erase st')) = sp_bc ` set (op_spans st)"
    unfolding er by (simp_all add: erase_def image_image)
  then have f: "op_bcs st' = op_bcs st" "op_setters st' = op_setters ?st1" "sp_bc ` set (op_spans st') = sp_bc ` set (op_spans st)"
    by (simp_all add: erase_def image_image)
  have "os_bc (update_setter bcs os) = os_bc os" for bcs :: "'a Bytecode list" and os by (simp add: update_setter_def Let_def split: option.splits)
  then have "List.map os_bc (op_setters st') = List.map os_bc (op_setters st)" by (simp add: f)
  then show ?thesis by (intro bounded_growth_shape [OF g]) (simp_all add: f list_all2_refl)
qed

lemma step1a_start_growth:
  assumes "step1a [0..<length bcs] 0 (Optimizer_new bcs) = Ret st" "\<forall>bc\<in>set bcs. settles bc"
  shows "bounded_growth st"
  by (rule step1a_growth [OF assms(1)])
    (use assms(2) in \<open>auto simp: Optimizer_new_def OffsetSetter_new_def bounded_growth_def setters_special_def spans_one_way_def\<close>)

lemma Optimize_init_growth:
  assumes "Optimize_init P bcs = Ret (Some (st, False))" "\<forall>bc\<in>set bcs. settles bc"
  shows "bounded_growth st"
  using assms(1)
proof (cases rule: Optimize_init_cases)
  case (steps a b c d dn)
  have ga: "bounded_growth a" by (rule step1a_start_growth [OF steps(1) assms(2)])
  obtain ss bs ds where x: "step1b_loop P (op_spans a) (op_bcs a) = Ret (Some (ss, bs, ds))" "b = report ds (a\<lparr>op_spans := ss, op_bcs := bs\<rparr>)"
    using steps(2) by (rule Step1b_loop)
  have "sp_bc ` set ss \<subseteq> sp_bc ` set (op_spans a)" using step1b_loop_kept [OF x(1)] by fastforce
  then have gb: "bounded_growth b" by (intro bounded_growth_shape [OF ga]) (use step1b_loop_kept [OF x(1)] x(2) in simp_all)
  obtain bcs' ds' bs' where u: "bs' \<noteq> []" "op_bcs b = bs'" "update_offsets 0 ((hd bs')\<lparr>bc_offset := 0\<rparr> # tl bs') = Ret (bcs', ds')" "c = report ds' (b\<lparr>op_bcs := bcs'\<rparr>)"
    using update_offsets_st_Ret [OF steps(3)] by blast
  have "op_bcs b = hd bs' # tl bs'" using u(1,2) by simp
  then have "list_all2 bc_shape (op_bcs b) bcs'" using update_offsets_shape [OF u(3)] by (cases bcs') auto
  then have gc: "bounded_growth c" by (intro bounded_growth_shape [OF gb]) (use u(4) in simp_all)
  obtain ss q ds where x: "step1d_loop P (cur_env (of_env P) (op_bcs c)) 0 (op_spans c) = Ret (ss, q, ds)" "d = report ds (c\<lparr>op_spans := ss, op_QB := op_QB c @ q\<rparr>)"
    using steps(4) by (auto simp: Step1d_def bind_out_Ret_iff Let_def)
  have "sp_bc ` set ss = sp_bc ` set (op_spans c)" using arg_cong [OF step1d_loop_bcs [OF x(1)], of set] by simp
  then have "bounded_growth d" by (intro bounded_growth_shape [OF gc]) (simp_all add: x(2) list_all2_refl)
  then show ?thesis using Step1e_growth [of d st] steps(5) by (auto split: if_splits)
qed simp

text \<open>Step 1b ends: the expansion of a jump or a LEB128 number does not fail.\<close>

lemma one_way_special: "bc_one_way bc \<Longrightarrow> getSpecial bc \<noteq> SPECIAL_OFFSET"
  by (auto simp: bc_one_way_def getSpecial_def split: option.splits elim!: one_way.elims)

lemma step1b_loop_ends:
  "\<forall>s\<in>set ss. sp_bc s < length bcs \<longrightarrow> bc_one_way (bcs ! sp_bc s) \<Longrightarrow> step1b_loop P ss bcs \<noteq> Ret None"
proof (induction ss arbitrary: bcs)
  case (Cons s ss)
  show ?case
  proof (cases "step1b_span P s bcs")
    case (Ret x)
    obtain r bcs1 ds1 where x: "step1b_span P s bcs = Ret (r, bcs1, ds1)" using Ret by (cases x) auto
    have ne: "r \<noteq> Endless" using x
    proof (cases rule: step1b_span_cases)
      case (expand s1 ds1 s2 ds2 bc' y ds3)
      have "sp_bc s2 = sp_bc s" using CreateTerms_kept [OF expand(1)] RecalcNormal_shape [OF expand(2)] by (simp add: span_shape_def)
      then have "sp_bc s2 < length bcs" "getSpecial (bcs ! sp_bc s2) \<noteq> SPECIAL_OFFSET"
        using expand(3) Cons(2) one_way_special by (auto simp: Expand_span_iff)
      then have "y \<noteq> None" using expand(3) Bytecode_Expand_Some by (auto simp: Expand_span_iff)
      then show ?thesis using expand(5) by (auto split: if_splits)
    qed auto
    have sh: "list_all2 bc_shape bcs bcs1" using step1b_span_kept [OF x] by simp
    have "bc_one_way (bcs1 ! sp_bc t)" if t: "t \<in> set ss" "sp_bc t < length bcs1" for t
      using Cons(2) t list_all2_nthD [OF sh, of "sp_bc t"] list_all2_lengthD [OF sh] by (auto simp: bc_shape_def)
    then have "step1b_loop P ss bcs1 \<noteq> Ret None" using Cons(1) by blast
    then show ?thesis using x ne by (cases "step1b_loop P ss bcs1") (auto split: option.splits)
  qed simp_all
qed simp

lemma Optimize_init_ends:
  assumes "\<forall>bc\<in>set bcs. settles bc"
  shows "Optimize_init P bcs \<noteq> Ret None"
proof
  assume n: "Optimize_init P bcs = Ret None"
  obtain a where a: "step1a [0..<length bcs] 0 (Optimizer_new bcs) = Ret a" using n by (auto simp: Optimize_init_def bind_out_Ret_iff split: if_splits)
  have "spans_one_way a" using step1a_start_growth [OF a assms] by (simp add: bounded_growth_def)
  then have "step1b_loop P (op_spans a) (op_bcs a) \<noteq> Ret None" by (intro step1b_loop_ends) (simp add: spans_one_way_def)
  then have "Step1b P a \<noteq> Ret None" by (cases "step1b_loop P (op_spans a) (op_bcs a)") (auto simp: Step1b_def split: option.splits)
  then show False using n a by (auto simp: Optimize_init_def bind_out_Ret_iff split: if_splits option.splits)
qed

lemma Optimize_returns:
  assumes "\<forall>bc\<in>set bcs. settles bc"
  shows "\<exists>r. Optimize P bcs = Some r"
proof (cases "Optimize_init P bcs")
  case (Ret x)
  then obtain st fin where x: "x = Some (st, fin)" using Optimize_init_ends [OF assms, of P] by (cases x) auto
  show ?thesis
  proof (cases fin)
    case True
    then show ?thesis using Ret x by (simp add: Optimize_def)
  next
    case False
    then have "bounded_growth st" using Optimize_init_growth [of P bcs st] Ret x assms by simp
    then obtain r where "Step2 P st = Some r" using Step2_terminates by (auto simp: bounded_growth_def)
    then show ?thesis using Ret x False by (simp add: Optimize_def)
  qed
qed (simp_all add: Optimize_def)

section \<open>Properties\<close>

definition sample_jmp :: "nat \<Rightarrow> nat \<Rightarrow> unit Bytecode" where
  "sample_jmp here n = Bytecode_new\<lparr>bc_contents := Some (X86JmpContents \<lparr>j_common = X86Common_init\<lparr>m_mode_bits := 64, m_opersize := 32\<rparr>,
     j_shortop = \<lparr>m_opcode = [0xeb, 0, 0], m_len = 1\<rparr>, j_nearop = \<lparr>m_opcode = [0xe9, 0, 0], m_len = 1\<rparr>,
     j_target = Value_of_expr 0 (flatten 0 (Node Op_SUB [Leaf (T_SYM n), Leaf (T_LOC \<lparr>loc_bc = Some here, loc_off = 0\<rparr>)])),
     j_op_sel = X86_JMP_SHORT\<rparr>)\<rparr>"

text \<open>Symbol 0 is a label at bytecode 3, symbol 1 one at bytecode 6; the target of a jump is the distance from its own bytecode.\<close>

definition sample_opt :: "unit opt_iface" where
  "sample_opt = \<lparr>of_floats = \<lparr>fo_arith = \<lambda>oper a b. ((), 0), fo_neg = id, fo_promote = \<lambda>w. id, fo_nonzero = \<lambda>f. True\<rparr>,
     of_env = \<lparr>env_label = \<lambda>s. Some \<lparr>loc_bc = Some (if s = 0 then 3 else 6), loc_off = 0\<rparr>, env_offset = \<lambda>bc. 0, env_container = \<lambda>bc. 0\<rparr>\<rparr>"

definition sample_section :: "unit Bytecode list" where
  "sample_section = [sample_jmp 0 0, sample_jmp 1 1, Bytecode_new\<lparr>bc_contents := Some (GapBytecode 125)\<rparr>,
     Bytecode_new\<lparr>bc_contents := Some (AlignBytecode [mk_term (T_INT (SV 8)) 0] [] [] None)\<rparr>, sample_jmp 4 0,
     Bytecode_new\<lparr>bc_contents := Some (GapBytecode 200)\<rparr>, Bytecode_new\<lparr>bc_fixed := [9]\<rparr>]"

lemma sample_Optimize:
  "case Optimize sample_opt sample_section of
     Some (Ret st) \<Rightarrow> op_diags st = [] \<and> List.map bc_offset (op_bcs st) = [0, 5, 10, 135, 136, 138, 338] \<and>
       List.map sp_active (op_spans st) = [INACTIVE, ACTIVE] \<and> size_sum (op_bcs st) = 339
   | _ \<Rightarrow> False"
  by code_simp


lemma sample_init:
  "case Optimize_init sample_opt sample_section of Ret (Some (st, fin)) \<Rightarrow> unsaturated st | _ \<Rightarrow> False"
  by code_simp

lemma sample_wf: "\<forall>bc\<in>set sample_section. bc_wf bc"
  using sample_align_wf
  by (simp add: sample_section_def sample_jmp_def bc_wf_def Bytecode_new_def limits opcode_ok_def del: wf_contents.simps(1))

text \<open>
  C1. When \<open>Optimize\<close> ends without a message, the bytecodes are laid out: each begins where
  the ones before it end and has the length its contents claim at that offset.  A span that
  is still watched has the value its expression has for the final offsets of its locations,
  and that value is within its thresholds (or unchanged, for a span that follows every
  change), except for negative values of unsigned LEB128 numbers.
\<close>

theorem Optimize_correct:
  assumes "Optimize P bcs = Some (Ret st)" "op_diags st = []" "\<forall>bc\<in>set bcs. bc_wf bc" "int (length bcs) < 2 ^ 31 - 1"
    "Optimize_init P bcs = Ret (Some (st0, fin))" "unsaturated st0" "size_sum (op_bcs st) \<le> ULONG_MAX"
  shows "laid_out 0 (op_bcs st) \<and> (\<forall>s\<in>set (op_spans st). sp_active s \<noteq> INACTIVE \<longrightarrow> resolved P (op_bcs st) s)"
  using Optimize_resolved [OF assms(1-6)] placed_laid_out [of 0 "op_bcs st"] assms(7) by simp

theorem Optimize_correct_witness:
  "\<exists>st s. Optimize sample_opt sample_section = Some (Ret st) \<and> List.map bc_offset (op_bcs st) = [0, 5, 10, 135, 136, 138, 338] \<and>
     laid_out 0 (op_bcs st) \<and> s \<in> set (op_spans st) \<and> sp_active s = ACTIVE \<and> resolved sample_opt (op_bcs st) s"
proof -
  obtain st where st: "Optimize sample_opt sample_section = Some (Ret st)" "op_diags st = []" "List.map bc_offset (op_bcs st) = [0, 5, 10, 135, 136, 138, 338]"
    "List.map sp_active (op_spans st) = [INACTIVE, ACTIVE]" "size_sum (op_bcs st) \<le> ULONG_MAX"
    using sample_Optimize by (auto simp: limits split: option.splits outcome.splits)
  obtain st0 fin where st0: "Optimize_init sample_opt sample_section = Ret (Some (st0, fin))" "unsaturated st0"
    using sample_init by (auto split: outcome.splits option.splits)
  have l: "int (length sample_section) < 2 ^ 31 - 1" by (simp add: sample_section_def)
  obtain s where s: "s \<in> set (op_spans st)" "sp_active s = ACTIVE" using arg_cong [OF st(4), of set] by (auto simp: image_iff)
  show ?thesis using Optimize_correct [OF st(1,2) sample_wf l st0 st(5)] st s by auto
qed

text \<open>
  C4. \<open>Optimize\<close> always ends when every repetition count is a number: jumps and LEB128
  numbers only grow, and they grow a bounded number of times.
\<close>

theorem Optimize_terminates:
  assumes "\<forall>bc\<in>set bcs. settles bc"
  shows "\<exists>r. Optimize P bcs = Some r"
  by (rule Optimize_returns [OF assms])

theorem Optimize_terminates_witness: "\<exists>r. Optimize sample_opt sample_section = Some r"
proof -
  have "\<forall>bc\<in>set sample_section. settles bc" by code_simp
  then show ?thesis by (rule Optimize_terminates)
qed

end
