(* ===== verification/Optimizer_Jumps.thy ===== *)
theory Optimizer_Jumps
  imports Optimizer_Correct
begin

text \<open>
  Short jumps through the optimizer: every jump in its short form has a span that is still
  watched (\<open>jumps_watched\<close>), from step 1a to the end of the main loop, so its displacement
  fits.
\<close>

unbundle bit_operations_syntax

section \<open>The spans of short jumps\<close>

definition short_jmp :: "'f Bytecode \<Rightarrow> 'f X86Jmp option" where
  "short_jmp bc = (case bc_contents bc of
      Some (X86JmpContents j) \<Rightarrow> if j_op_sel j = X86_JMP_NEAR \<or> 8 < jmp_short_len j then None else Some j
    | _ \<Rightarrow> None)"

text \<open>\<open>L\<close> says how the span's value and its terms' locations come from the jump's target.\<close>

type_synonym 'f link = "'f Value \<Rightarrow> 'f Value \<Rightarrow> (Location \<times> Location) list \<Rightarrow> bool"

definition sp_locs :: "'f Span \<Rightarrow> (Location \<times> Location) list" where
  "sp_locs s = List.map (\<lambda>t. (st_loc t, st_loc2 t)) (sp_terms s)"

definition watches :: "'f link \<Rightarrow> 'f Span \<Rightarrow> nat \<Rightarrow> 'f X86Jmp \<Rightarrow> bool" where
  "watches L s b j \<longleftrightarrow> sp_bc s = b \<and> sp_id s = 1 \<and> sp_neg s = -128 + jmp_short_len j \<and> sp_pos s = 127 + jmp_short_len j \<and>
     sp_active s \<noteq> INACTIVE \<and> L (j_target j) (sp_depval s) (sp_locs s)"

definition jumps_watched :: "'f link \<Rightarrow> nat set \<Rightarrow> 'f Bytecode list \<Rightarrow> 'f Span list \<Rightarrow> bool" where
  "jumps_watched L B bcs ss \<longleftrightarrow> (\<forall>b\<in>B. b < length bcs \<longrightarrow> (\<forall>j. short_jmp (bcs ! b) = Some j \<longrightarrow> (\<exists>s\<in>set ss. watches L s b j)))"

lemma jumps_watched_mono:
  assumes "jumps_watched L B bcs ss" "length bcs' = length bcs" "\<And>b. b < length bcs \<Longrightarrow> short_jmp (bcs' ! b) = None \<or> short_jmp (bcs' ! b) = short_jmp (bcs ! b)"
    "\<And>s b j. s \<in> set ss \<Longrightarrow> b < length bcs \<Longrightarrow> short_jmp (bcs' ! b) = Some j \<Longrightarrow> watches L s b j \<Longrightarrow> \<exists>s'\<in>set ss'. watches L' s' b j"
  shows "jumps_watched L' B bcs' ss'"
  unfolding jumps_watched_def
proof (intro ballI allI impI)
  fix b j assume b: "b \<in> B" "b < length bcs'" "short_jmp (bcs' ! b) = Some j"
  then have "short_jmp (bcs ! b) = Some j" using assms(2,3) by force
  then obtain s where "s \<in> set ss" "watches L s b j" using assms(1,2) b by (auto simp: jumps_watched_def)
  then show "\<exists>s\<in>set ss'. watches L' s b j" using assms(2,4) b by auto
qed

lemma short_jmp_bound: "short_jmp bc = Some j \<Longrightarrow> jmp_short_len j \<le> 8"
proof -
  assume s: "short_jmp bc = Some j"
  then obtain c where c: "bc_contents bc = Some c" by (cases "bc_contents bc") (auto simp: short_jmp_def)
  show ?thesis using s c by (cases c) (auto simp: short_jmp_def split: if_splits)
qed

lemma Expand_short_jmp:
  assumes "Bytecode_Expand span nv io bc = Ret (bc', r, ds)"
  shows "short_jmp bc' = None"
  using assms
proof (cases rule: Bytecode_Expand_cases)
  case (contents c c')
  then show ?thesis by (cases c) (auto simp: short_jmp_def bind_out_Ret_iff Jmp_Expand_def Let_def split: if_splits)
qed (simp add: short_jmp_def)

lemma watches_shape:
  assumes "watches L s b j" "span_shape s s'" "sp_neg s' = sp_neg s" "sp_pos s' = sp_pos s" "sp_active s' \<noteq> INACTIVE"
  shows "watches L s' b j"
  using assms by (simp add: watches_def span_shape_def sp_locs_def)

text \<open>A span that cannot be computed exceeds the thresholds of a jump, so it is queued and not forgotten.\<close>

lemma RecalcNormal_watches:
  assumes "RecalcNormal P s = Ret (s', exc, ds)" "watches L s b j" "jmp_short_len j \<le> 8"
  shows "\<not> exc \<Longrightarrow> watches L s' b j" "watches L (s'\<lparr>sp_active := ON_Q\<rparr>) b j"
proof -
  note sh = RecalcNormal_shape [OF assms(1)]
  show "watches L (s'\<lparr>sp_active := ON_Q\<rparr>) b j"
    by (rule watches_shape [OF assms(2)]) (use sh in \<open>simp_all add: span_shape_def\<close>)
  assume n: "\<not> exc"
  have "sp_active s' \<noteq> INACTIVE"
    using assms(1)
  proof (rule RecalcNormal_cases)
    fix v assume v: "s' = (if v = LONG_MAX then s\<lparr>sp_new := v, sp_active := INACTIVE\<rparr> else s\<lparr>sp_new := v\<rparr>)" "exc = exceeds s'"
    then have "v \<noteq> LONG_MAX" using n assms(2,3) by (auto simp: exceeds_def watches_def limits)
    then show ?thesis using v assms(2) by (simp add: watches_def)
  qed
  then show "watches L s' b j" using sh by (intro watches_shape [OF assms(2)]) simp_all
qed

section \<open>The main loop\<close>

lemma Step2_invariant:
  assumes "Step2 P st = Some (Ret st')" "I st" "\<And>st st'. I st \<Longrightarrow> step2_round P st = Ret st' \<Longrightarrow> I st'"
  shows "I st'"
proof -
  let ?Q = "\<lambda>Q st r. Q = P \<longrightarrow> I st \<longrightarrow> (\<forall>st'. r = Ret st' \<longrightarrow> I st')"
  have "(\<lambda>(P, st). ?Q P st) (P, st) (Ret st')"
  proof (rule Step2.raw_induct [OF _ assms(1)])
    fix f :: "'a opt_iface \<Rightarrow> 'a Optimizer \<Rightarrow> 'a Optimizer outcome option" and Q st y
    assume IH: "\<And>Q st y. f Q st = Some y \<Longrightarrow> (\<lambda>(P, st). ?Q P st) (Q, st) y"
      and y: "(if op_QA st = [] \<and> op_QB st = [] then Some (Ret st)
        else case step2_round Q st of Ret st' \<Rightarrow> f Q st' | Fail d \<Rightarrow> Some (Fail d) | Undefined \<Rightarrow> Some Undefined) = Some y"
    show "(\<lambda>(P, st). ?Q P st) (Q, st) y"
    proof (cases "op_QA st = [] \<and> op_QB st = []")
      case False
      show ?thesis
      proof (cases "step2_round Q st")
        case (Ret st1)
        have "f Q st1 = Some y" using y False Ret by (auto split: if_splits)
        from IH [OF this] have h: "Q = P \<Longrightarrow> I st1 \<Longrightarrow> y = Ret st' \<Longrightarrow> I st'" for st' by simp
        have "Q = P \<Longrightarrow> I st \<Longrightarrow> I st1" using assms(3) Ret by blast
        then show ?thesis using h by blast
      qed (use y False in \<open>auto split: if_splits\<close>)
    qed (use y in auto)
  qed
  then show ?thesis using assms(2) by simp
qed

abbreviation jw :: "'f link \<Rightarrow> 'f Optimizer \<Rightarrow> bool" where
  "jw L st \<equiv> jumps_watched L UNIV (op_bcs st) (op_spans st)"

lemma jw_set_span:
  assumes "jw L st" "\<And>b j. jmp_short_len j \<le> 8 \<Longrightarrow> watches L (op_spans st ! k) b j \<Longrightarrow> watches L s b j"
  shows "jumps_watched L UNIV (op_bcs st) ((op_spans st)[k := s])"
proof (cases "k < length (op_spans st)")
  case True
  show ?thesis
  proof (rule jumps_watched_mono [OF assms(1)])
    fix s0 b j assume s0: "s0 \<in> set (op_spans st)" "short_jmp (op_bcs st ! b) = Some j" "watches L s0 b j"
    obtain i where i: "i < length (op_spans st)" "s0 = op_spans st ! i" using s0(1) by (auto simp: in_set_conv_nth)
    have "(op_spans st)[k := s] ! i \<in> set ((op_spans st)[k := s])" using i(1) by (intro nth_mem) simp
    moreover have "watches L ((op_spans st)[k := s] ! i) b j" using i s0(3) assms(2) [OF short_jmp_bound [OF s0(2)]] by (auto simp: nth_update)
    ultimately show "\<exists>s'\<in>set ((op_spans st)[k := s]). watches L s' b j" by blast
  qed simp_all
qed (use assms(1) in \<open>simp add: list_update_beyond\<close>)

lemma ExpandTerm_jw:
  assumes "ExpandTerm P d n st = Ret st'" "jw L st"
  shows "jw L st'"
proof -
  obtain k i where n: "n = (k, i)" by (cases n)
  let ?s = "op_spans st ! k"
  show ?thesis using assms(1) [unfolded n]
  proof (cases rule: ExpandTerm_cases)
    case (queued i1 i2 v)
    let ?s1 = "?s\<lparr>sp_terms := (sp_terms ?s)[i := (sp_terms ?s ! i)\<lparr>st_new := v\<rparr>]\<rparr>"
    have w: "watches L ?s b j \<Longrightarrow> watches L ?s1 b j" for b j
      by (rule watches_shape [OF _ span_shape_term [OF queued(2), of v]]) (simp_all add: queued(7))
    then show ?thesis using jw_set_span [OF assms(2), of k ?s1] queued(8) by simp
  next
    case (active i1 i2 v s2 exc ds)
    let ?s1 = "?s\<lparr>sp_terms := (sp_terms ?s)[i := (sp_terms ?s ! i)\<lparr>st_new := v\<rparr>]\<rparr>"
    have w: "watches L ?s b j \<Longrightarrow> watches L ?s1 b j" for b j
      by (rule watches_shape [OF _ span_shape_term [OF active(2), of v]]) (simp_all add: active(7))
    show ?thesis
    proof (cases exc)
      case True
      then show ?thesis using active(9) jw_set_span [OF assms(2), of k "s2\<lparr>sp_active := ON_Q\<rparr>"] RecalcNormal_watches(2) [OF active(8) w] by (auto simp: Let_def split: if_splits)
    next
      case False
      then show ?thesis using active(9) jw_set_span [OF assms(2), of k s2] RecalcNormal_watches(1) [OF active(8) w] by auto
    qed
  qed (use assms in simp)
qed

lemma ExpandTerms_jw: "ExpandTerms P d ns st = Ret st' \<Longrightarrow> jw L st \<Longrightarrow> jw L st'"
  by (induction ns arbitrary: st) (auto simp: bind_out_Ret_iff dest: ExpandTerm_jw)

lemma expand_over_jw: "expand_over P d b st = Ret st' \<Longrightarrow> jw L st \<Longrightarrow> jw L st'"
  by (auto simp: expand_over_def Let_def dest: ExpandTerms_jw)

lemma jw_set_bc:
  assumes "jw L st" "short_jmp bc = None"
  shows "jw L (set_bc b bc st)"
  by (rule jumps_watched_mono [OF assms(1)]) (use assms(2) in \<open>auto simp: nth_update\<close>)

lemma move_setter_jw:
  assumes "move_setter P m b d st = Ret (st', d')" "jw L st"
  shows "jw L st'"
  using assms(1)
proof (rule move_setter_cases)
  fix bc' r ds st1 st2
  assume x: "Bytecode_Expand 1 (to_s64 (to_u64 (os_new (op_setters st ! m) + d))) (initial_io 0) (op_bcs st ! b) = Ret (bc', r, ds)"
    "st1 = report ds (set_bc b bc' st)"
    "if to_s64 (to_u64 (bc_len bc' - bc_len (op_bcs st ! b))) = 0 then st2 = st1
     else expand_over P (to_s64 (to_u64 (bc_len bc' - bc_len (op_bcs st ! b)))) b st1 = Ret st2"
    "st' = st2\<lparr>op_setters := (op_setters st2)[m := (op_setters st ! m)\<lparr>os_new := to_u64 (os_new (op_setters st ! m) + d), os_cur := to_u64 (os_new (op_setters st ! m) + d)\<rparr>]\<rparr>"
  have "jw L st1" using jw_set_bc [OF assms(2) Expand_short_jmp [OF x(1)]] x(2) by simp
  then have "jw L st2" using x(3) by (auto split: if_splits dest: expand_over_jw)
  then show ?thesis using x(4) by simp
qed

lemma move_setters_jw: "move_setters P ms d st = Ret st' \<Longrightarrow> jw L st \<Longrightarrow> jw L st'"
proof (induction ms arbitrary: d st)
  case (Cons m ms)
  show ?case
  proof (cases "os_bc (op_setters st ! m) = None \<or> d = 0")
    case False
    then obtain b st1 d1 where "move_setter P m b d st = Ret (st1, d1)" "move_setters P ms d1 st1 = Ret st'"
      using Cons(2) by (auto simp: bind_out_Ret_iff)
    then show ?thesis using Cons(1,3) move_setter_jw by blast
  qed (use Cons in \<open>auto split: option.splits\<close>)
qed simp

lemma jw_expanded:
  assumes "jw L st" "short_jmp bc' = None" "sp_bc (op_spans st ! k) = b"
  shows "jw L (set_span k s (set_bc b bc' st))"
proof (rule jumps_watched_mono [OF assms(1)])
  fix s0 c j assume s0: "s0 \<in> set (op_spans st)" "c < length (op_bcs st)" "short_jmp (op_bcs (set_span k s (set_bc b bc' st)) ! c) = Some j" "watches L s0 c j"
  obtain i where i: "i < length (op_spans st)" "s0 = op_spans st ! i" using s0(1) by (auto simp: in_set_conv_nth)
  have "c \<noteq> b" using s0(2,3) assms(2) by auto
  then have "i \<noteq> k" using s0(4) i(2) assms(3) by (auto simp: watches_def)
  then have "(op_spans st)[k := s] ! i = s0" using i by simp
  then show "\<exists>s'\<in>set (op_spans (set_span k s (set_bc b bc' st))). watches L s' c j" using s0(4) i(1) nth_mem [of i "(op_spans st)[k := s]"] by auto
qed (use assms(2) in \<open>auto simp: nth_update\<close>)

lemma expand_span_jw:
  assumes "expand_span P k s st = Ret st'" "jw L st" "sp_bc (op_spans st ! k) = sp_bc s"
  shows "jw L st'"
  using assms(1)
proof (cases rule: expand_span_cases)
  case (error bc' ds)
  have "short_jmp bc' = None" using error(1) Expand_short_jmp by (auto simp: Expand_span_iff)
  then show ?thesis using jw_expanded [OF assms(2) _ assms(3)] error(2) by (simp add: set_span_def set_bc_def report_def)
next
  case (expanded bc' io ds s2 st2)
  have "short_jmp bc' = None" using expanded(1) Expand_short_jmp by (auto simp: Expand_span_iff)
  then have "jw L st2" using jw_expanded [OF assms(2) _ assms(3), of bc' s2] expanded(3) by simp
  then show ?thesis using expanded(4) by (auto split: if_splits dest: expand_over_jw move_setters_jw)
qed

lemma step2_span_jw:
  assumes "step2_span P k st = Ret st'" "jw L st"
  shows "jw L st'"
  using assms(1)
proof (cases rule: step2_span_cases)
  case (quiet s1 ds)
  have w: "watches L (op_spans st ! k) b j \<Longrightarrow> watches L ((op_spans st ! k)\<lparr>sp_active := ACTIVE\<rparr>) b j" for b j
    by (simp add: watches_def sp_locs_def)
  show ?thesis using jw_set_span [OF assms(2), of k s1] RecalcNormal_watches(1) [OF quiet(3) w] quiet(4) by auto
next
  case (expand s1 ds)
  have "sp_bc s1 = sp_bc (op_spans st ! k)" using RecalcNormal_shape [OF expand(3)] by (simp add: span_shape_def)
  then show ?thesis using expand_span_jw [OF expand(4)] assms(2) by simp
qed (use assms in simp)

lemma step2_round_jw:
  assumes "step2_round P st = Ret st'" "jw L st"
  shows "jw L st'"
proof (cases "op_QA st \<noteq> [] \<or> op_QB st \<noteq> []")
  case True
  obtain k st0 where x: "step2_span P k st0 = Ret st'" "st0 = st\<lparr>op_QA := op_QA st0, op_QB := op_QB st0\<rparr>"
    using step2_round_cases [OF assms(1) True] by metis
  have "op_spans st0 = op_spans st" "op_bcs st0 = op_bcs st" by (subst x(2), simp)+
  then show ?thesis using step2_span_jw [OF x(1)] assms(2) by simp
qed (use assms in \<open>simp add: step2_round_def\<close>)

lemma Step2_jw: "Step2 P st = Some (Ret st') \<Longrightarrow> jw L st \<Longrightarrow> jw L st'"
  by (rule Step2_invariant) (auto dest: step2_round_jw)


section \<open>Initialization\<close>

text \<open>Before and after the differences of locations have been taken out of the target.\<close>

definition link_raw :: "'f link" where
  "link_raw v d ps \<longleftrightarrow> d = v \<and> ps = []"

definition link_subst :: "'f opt_iface \<Rightarrow> 'f link" where
  "link_subst P v d ps \<longleftrightarrow> (case v_abs v of
      None \<Rightarrow> d = v \<and> ps = []
    | Some e \<Rightarrow> \<exists>e' ds. SubstDist (of_floats P) (of_env P) e = Ret (e', ps, ds) \<and> d = v\<lparr>v_abs := Some e'\<rparr>)"

lemma CalcLen_short_jmp:
  assumes "Bytecode_CalcLen bc = Ret (bc', ok, reqs, ds)" "short_jmp bc' = Some j"
  shows "reqs = [\<lparr>sr_id = 1, sr_value = j_target j, sr_neg = -128 + jmp_short_len j, sr_pos = 127 + jmp_short_len j\<rparr>]"
proof (cases "bc_contents bc")
  case (Some c)
  then obtain c' r where c: "Contents_CalcLen (getTailOffset bc) c = Ret (c', r, reqs, ds)" "bc_contents bc' = Some c'"
    using assms by (auto simp: Bytecode_CalcLen_def bind_out_Ret_iff split: option.splits)
  show ?thesis
  proof (cases c)
    case (X86JmpContents j')
    then show ?thesis using c assms(2) by (auto simp: Jmp_CalcLen_def short_jmp_def Let_def split: if_splits)
  next
    case (LEB128Bytecode v)
    then show ?thesis using c assms(2) by (auto simp: LEB128_CalcLen_def short_jmp_def bind_out_Ret_iff Let_def split: option.splits if_splits)
  qed (use c assms(2) in \<open>auto simp: short_jmp_def bind_out_Ret_iff split: if_splits\<close>)
qed (use assms in \<open>auto simp: Bytecode_CalcLen_def short_jmp_def\<close>)

lemma fold_AddSpan_keeps: "s \<in> set (op_spans st) \<Longrightarrow> s \<in> set (op_spans (fold (AddSpan i) reqs st))"
  by (induction reqs arbitrary: st) (auto simp: AddSpan_def)

lemma step1a_jw:
  "step1a is off st = Ret st' \<Longrightarrow> \<forall>i\<in>set is. i < length (op_bcs st) \<Longrightarrow> jumps_watched link_raw (- set is) (op_bcs st) (op_spans st) \<Longrightarrow> jw link_raw st'"
proof (induction "is" arbitrary: off st)
  case (Cons i "is")
  obtain bc ok reqs ds where c: "Bytecode_CalcLen ((op_bcs st ! i)\<lparr>bc_index := int i + 1, bc_offset := off\<rparr>) = Ret (bc, ok, reqs, ds)"
    using Cons(2) by (auto simp: bind_out_Ret_iff)
  define st1 where "st1 = report ds (fold (AddSpan i) reqs (set_bc i bc st))"
  have i: "i < length (op_bcs st)" using Cons(3) by simp
  have f: "op_bcs st1 = (op_bcs st)[i := bc]" by (simp add: st1_def fold_AddSpan)
  have "\<exists>s\<in>set (op_spans st1). watches link_raw s b j"
    if b: "b \<in> - set is" "b < length (op_bcs st1)" "short_jmp (op_bcs st1 ! b) = Some j" for b j
  proof (cases "b = i")
    case True
    then have "short_jmp bc = Some j" using b(3) i by (simp add: f)
    then show ?thesis using CalcLen_short_jmp [OF c] True by (auto simp: st1_def AddSpan_def watches_def link_raw_def sp_locs_def)
  next
    case False
    then obtain s where "s \<in> set (op_spans st)" "watches link_raw s b j" using Cons(4) b by (auto simp: jumps_watched_def f)
    then show ?thesis using fold_AddSpan_keeps [of s "set_bc i bc st" i reqs] by (auto simp: st1_def)
  qed
  then have j: "jumps_watched link_raw (- set is) (op_bcs st1) (op_spans st1)" by (simp add: jumps_watched_def)
  obtain off2 st2 where r: "step1a is off2 st2 = Ret st'" "op_bcs st2 = op_bcs st1" "op_spans st2 = op_spans st1"
    using Cons(2) c by (auto simp: Let_def AddOffsetSetter_def simp flip: st1_def split: if_splits)
  show ?case by (rule Cons(1) [OF r(1)]) (use r(2,3) f Cons(3) j in auto)
qed simp

lemma AddTerms_locs: "AddTerms env k ps = Ret ts \<Longrightarrow> List.map (\<lambda>t. (st_loc t, st_loc2 t)) ts = ps"
  by (induction ps arbitrary: k ts) (auto simp: AddTerm_def bind_out_Ret_iff split: option.splits)

lemma CreateTerms_watches:
  assumes "CreateTerms P bcs s = Ret (s', ok, ds)" "watches link_raw s b j"
  shows "watches (link_subst P) s' b j"
proof (cases "v_abs (sp_depval s)")
  case None
  then show ?thesis using assms by (auto simp: CreateTerms_def watches_def link_raw_def link_subst_def)
next
  case (Some e)
  obtain e' ps ds1 where o: "SubstDist (of_floats P) (of_env P) e = Ret (e', ps, ds1)"
    using assms(1) Some by (auto simp: CreateTerms_def bind_out_Ret_iff)
  obtain ts where t: "AddTerms (cur_env (of_env P) bcs) 0 ps = Ret ts"
    using assms(1) Some o by (auto simp: CreateTerms_def bind_out_Ret_iff)
  have "s' = s\<lparr>sp_depval := (sp_depval s)\<lparr>v_abs := Some e'\<rparr>, sp_terms := ts\<rparr>"
    using assms(1) Some o t by (auto simp: CreateTerms_def Let_def bind_out_Ret_iff split: if_splits)
  then show ?thesis using assms(2) Some o AddTerms_locs [OF t] by (auto simp: watches_def link_raw_def link_subst_def sp_locs_def)
qed

lemma step1b_span_jw:
  assumes "step1b_span P s bcs = Ret (r, bcs', ds)" "b < length bcs"
  shows "short_jmp (bcs' ! b) = None \<or> short_jmp (bcs' ! b) = short_jmp (bcs ! b)"
    "watches link_raw s b j \<Longrightarrow> short_jmp (bcs' ! b) = Some j \<Longrightarrow> \<exists>s'. r = Kept s' \<and> watches (link_subst P) s' b j"
proof -
  have E: "short_jmp bc' = None" if "Expand_span s2 bcs = Ret (bc', x, ds3)" for s2 bc' x ds3
    using that Expand_short_jmp by (auto simp: Expand_span_iff)
  show "short_jmp (bcs' ! b) = None \<or> short_jmp (bcs' ! b) = short_jmp (bcs ! b)"
    using assms(1)
  proof (cases rule: step1b_span_cases)
    case (expand s1 ds1 s2 ds2 bc' x ds3)
    then show ?thesis using E assms(2) by (auto simp: nth_update)
  qed simp_all
  assume w: "watches link_raw s b j" "short_jmp (bcs' ! b) = Some j"
  have k: "watches L s' b j \<Longrightarrow> watches L (s'\<lparr>sp_cur := v\<rparr>) b j" for L s' v by (simp add: watches_def sp_locs_def)
  show "\<exists>s'. r = Kept s' \<and> watches (link_subst P) s' b j"
    using assms(1)
  proof (cases rule: step1b_span_cases)
    case (circular s1)
    then show ?thesis using CreateTerms_watches [OF circular(1) w(1)] k by simp
  next
    case (quiet s1 ds1 s2 ds2)
    have "watches (link_subst P) s2 b j"
      using RecalcNormal_watches(1) [OF quiet(2) CreateTerms_watches [OF quiet(1) w(1)] short_jmp_bound [OF w(2)]] by simp
    then show ?thesis using quiet(3) k by simp
  next
    case (expand s1 ds1 s2 ds2 bc' x ds3)
    have "sp_bc s2 = b" using CreateTerms_watches [OF expand(1) w(1)] RecalcNormal_shape [OF expand(2)] by (simp add: watches_def span_shape_def)
    then show ?thesis using w(2) E [OF expand(3)] expand(4) assms(2) by simp
  qed
qed

text \<open>While step 1b runs, the spans before the current one have been handled.\<close>

definition half_watched :: "'f opt_iface \<Rightarrow> 'f Bytecode list \<Rightarrow> 'f Span list \<Rightarrow> 'f Span list \<Rightarrow> bool" where
  "half_watched P bcs pre ss \<longleftrightarrow> (\<forall>b < length bcs. \<forall>j. short_jmp (bcs ! b) = Some j \<longrightarrow>
     (\<exists>s\<in>set pre. watches (link_subst P) s b j) \<or> (\<exists>s\<in>set ss. watches link_raw s b j))"

lemma step1b_loop_jw:
  "step1b_loop P ss bcs = Ret (Some (ss', bcs', ds)) \<Longrightarrow> half_watched P bcs pre ss \<Longrightarrow> half_watched P bcs' (pre @ ss') []"
proof (induction ss arbitrary: bcs ss' ds pre)
  case (Cons s ss)
  obtain r bcs1 ds1 ss1 ds2 where x: "step1b_span P s bcs = Ret (r, bcs1, ds1)" "step1b_loop P ss bcs1 = Ret (Some (ss1, bcs', ds2))"
    "ss' = (case r of Kept s' \<Rightarrow> s' # ss1 | _ \<Rightarrow> ss1)"
    using Cons(2) by (rule step1b_loop_Cons)
  let ?new = "case r of Kept s' \<Rightarrow> [s'] | _ \<Rightarrow> []"
  have l: "length bcs1 = length bcs" using step1b_span_kept [OF x(1)] by (auto dest: list_all2_lengthD)
  have "half_watched P bcs1 (pre @ ?new) ss" unfolding half_watched_def
  proof (intro allI impI)
    fix b j assume b: "b < length bcs1" "short_jmp (bcs1 ! b) = Some j"
    note S = step1b_span_jw [OF x(1), of b]
    have "short_jmp (bcs ! b) = Some j" using S(1) b l by auto
    then consider "\<exists>s\<in>set pre. watches (link_subst P) s b j" | "watches link_raw s b j" | "\<exists>s\<in>set ss. watches link_raw s b j"
      using Cons(3) b l by (auto simp: half_watched_def)
    then show "(\<exists>s\<in>set (pre @ ?new). watches (link_subst P) s b j) \<or> (\<exists>s\<in>set ss. watches link_raw s b j)"
    proof cases
      case 2
      then show ?thesis using S(2) b l by auto
    qed auto
  qed
  from Cons(1) [OF x(2) this] show ?case using x(3) by (cases r) simp_all
qed (simp add: half_watched_def)

lemma Step1b_jw:
  assumes "Step1b P st = Ret (Some st')" "jw link_raw st"
  shows "jw (link_subst P) st'"
proof -
  obtain ss bcs ds where x: "step1b_loop P (op_spans st) (op_bcs st) = Ret (Some (ss, bcs, ds))" "st' = report ds (st\<lparr>op_spans := ss, op_bcs := bcs\<rparr>)"
    using assms(1) by (rule Step1b_loop)
  have "half_watched P (op_bcs st) [] (op_spans st)" using assms(2) by (simp add: half_watched_def jumps_watched_def)
  from step1b_loop_jw [OF x(1) this] show ?thesis using x(2) by (simp add: half_watched_def jumps_watched_def)
qed

lemma UpdateOffset_short_jmp:
  assumes "UpdateOffset off bc = Ret (bc', off', ds)"
  shows "short_jmp bc' = None \<or> short_jmp bc' = short_jmp bc"
proof -
  have o: "short_jmp (b\<lparr>bc_offset := x\<rparr>) = short_jmp b" for b :: "'a Bytecode" and x by (simp add: short_jmp_def)
  show ?thesis using assms by (auto simp: UpdateOffset_def bind_out_Ret_iff Let_def o dest: Expand_short_jmp split: if_splits)
qed

lemma update_offsets_short_jmp:
  "update_offsets off bcs = Ret (bcs', ds) \<Longrightarrow> list_all2 (\<lambda>bc bc'. short_jmp bc' = None \<or> short_jmp bc' = short_jmp bc) bcs bcs'"
  by (induction bcs arbitrary: off bcs' ds) (auto simp: bind_out_Ret_iff dest: UpdateOffset_short_jmp)

lemma update_offsets_st_jw:
  assumes "update_offsets_st st = Ret st'" "jw L st"
  shows "jw L st'"
proof -
  obtain bcs ds bs where u: "bs \<noteq> []" "op_bcs st = bs" "update_offsets 0 ((hd bs)\<lparr>bc_offset := 0\<rparr> # tl bs) = Ret (bcs, ds)" "st' = report ds (st\<lparr>op_bcs := bcs\<rparr>)"
    using update_offsets_st_Ret [OF assms(1)] by blast
  have bs: "op_bcs st = hd bs # tl bs" using u(1,2) by simp
  have o: "short_jmp ((hd bs)\<lparr>bc_offset := 0\<rparr>) = short_jmp (hd bs)" by (simp add: short_jmp_def)
  have "list_all2 (\<lambda>bc bc'. short_jmp bc' = None \<or> short_jmp bc' = short_jmp bc) (op_bcs st) bcs"
    unfolding bs using update_offsets_short_jmp [OF u(3)] o by (cases bcs) auto
  then show ?thesis using u(4) by (intro jumps_watched_mono [OF assms(2)]) (auto dest: list_all2_lengthD list_all2_nthD)
qed

lemma Step1d_jw:
  assumes "Step1d P st = Ret (st', fin)" "jw L st"
  shows "jw L st'"
proof -
  let ?env = "cur_env (of_env P) (op_bcs st)"
  obtain ss q ds where x: "step1d_loop P ?env 0 (op_spans st) = Ret (ss, q, ds)" "st' = report ds (st\<lparr>op_spans := ss, op_QB := op_QB st @ q\<rparr>)"
    using assms(1) by (auto simp: Step1d_def bind_out_Ret_iff Let_def)
  note N = step1d_loop_nth [OF x(1)]
  show ?thesis
  proof (rule jumps_watched_mono [OF assms(2)])
    fix s b j assume s: "s \<in> set (op_spans st)" "short_jmp (op_bcs st' ! b) = Some j" "watches L s b j"
    obtain i where i: "i < length (op_spans st)" "s = op_spans st ! i" using s(1) by (auto simp: in_set_conv_nth)
    obtain ts s1 exc ds1 where y: "update_terms ?env (sp_terms s) = Ret ts" "RecalcNormal P (s\<lparr>sp_terms := ts\<rparr>) = Ret (s1, exc, ds1)"
      "ss ! i = (if exc then s1\<lparr>sp_active := ON_Q\<rparr> else s1)" using N i by blast
    have "list_all2 (\<lambda>t t'. st_loc t' = st_loc t \<and> st_loc2 t' = st_loc2 t) (sp_terms s) ts"
      using update_terms_nth [OF y(1)] by (rule list_all2_mono) (auto simp: update_term_def bind_out_Ret_iff split: option.splits)
    then have "List.map (\<lambda>t. (st_loc t, st_loc2 t)) ts = List.map (\<lambda>t. (st_loc t, st_loc2 t)) (sp_terms s)"
      by (simp add: list_all2_conv_all_nth list_eq_iff_nth_eq)
    then have "watches L (s\<lparr>sp_terms := ts\<rparr>) b j" using s(3) by (simp add: watches_def sp_locs_def)
    from RecalcNormal_watches [OF y(2) this short_jmp_bound [OF s(2)]] have "watches L (ss ! i) b j" using y(3) by simp
    then show "\<exists>s'\<in>set (op_spans st'). watches L s' b j" using x(2) N i nth_mem [of i ss] by auto
  qed (simp_all add: x(2))
qed

lemma Step1e_jw:
  assumes "Step1e st = Ret st'" "jw L st"
  shows "jw L st'"
proof -
  obtain st2 where st2: "st' = fold check_cycles [0..<length (op_spans st)] st2" "op_spans st2 = op_spans st" "op_bcs st2 = op_bcs st"
    using assms(1) by (fastforce simp: Step1e_def bind_out_Ret_iff Let_def)
  have er: "erase st' = erase st2" unfolding st2(1) by (rule fold_erase [OF check_cycles_erase])
  have bs: "op_bcs st' = op_bcs st" using arg_cong [OF er, of op_bcs] st2(3) by (simp add: erase_def)
  have sp: "List.map (\<lambda>s. s\<lparr>sp_backtrace := []\<rparr>) (op_spans st') = List.map (\<lambda>s. s\<lparr>sp_backtrace := []\<rparr>) (op_spans st)"
    using arg_cong [OF er, of op_spans] st2(2) by (simp add: erase_def)
  have w: "watches L (s\<lparr>sp_backtrace := []\<rparr>) b j = watches L s b j" for s b j by (simp add: watches_def sp_locs_def)
  show ?thesis
  proof (rule jumps_watched_mono [OF assms(2)])
    fix s b j assume s: "s \<in> set (op_spans st)" "watches L s b j"
    have "s\<lparr>sp_backtrace := []\<rparr> \<in> set (List.map (\<lambda>s. s\<lparr>sp_backtrace := []\<rparr>) (op_spans st'))" unfolding sp using s(1) by auto
    then obtain s' where "s' \<in> set (op_spans st')" "s'\<lparr>sp_backtrace := []\<rparr> = s\<lparr>sp_backtrace := []\<rparr>" by auto
    then show "\<exists>s'\<in>set (op_spans st'). watches L s' b j" using s(2) w by metis
  qed (simp_all add: bs)
qed

lemma Optimize_jw:
  assumes "Optimize P bcs = Some (Ret st)" "op_diags st = []"
  shows "jw (link_subst P) st"
proof -
  have I: "jw (link_subst P) st1" if i: "Optimize_init P bcs = Ret (Some (st1, fin))" "op_diags st1 = []" for st1 fin
  proof -
    obtain a b c d dn where x: "step1a [0..<length bcs] 0 (Optimizer_new bcs) = Ret a" "op_diags a = []" "Step1b P a = Ret (Some b)" "op_diags b = []"
    "update_offsets_st b = Ret c" "op_diags c = []" "Step1d P c = Ret (d, dn)" "op_diags d = []" "if dn then fin \<and> st1 = d else Step1e d = Ret st1 \<and> \<not> fin"
      using Optimize_init_steps [OF i] .
    have "jw link_raw a" by (rule step1a_jw [OF x(1)]) (auto simp: Optimizer_new_def jumps_watched_def)
    then have "jw (link_subst P) d" using Step1b_jw [OF x(3)] update_offsets_st_jw [OF x(5)] Step1d_jw [OF x(7)] by blast
    then show ?thesis using x(9) Step1e_jw [of d st1] by (cases dn) auto
  qed
  from assms show ?thesis
  proof (cases rule: Optimize_steps)
    case early
    then show ?thesis using I assms(2) by blast
  next
    case (loop st0 st1)
    then show ?thesis using I Step2_jw update_offsets_st_jw by blast
  qed
qed


section \<open>Properties\<close>

lemma sample_short_jump:
  "case Optimize sample_opt sample_section of
     Some (Ret st) \<Rightarrow> 4 < length (op_bcs st) \<and> (case bc_contents (op_bcs st ! 4) of Some (X86JmpContents j) \<Rightarrow> j_op_sel j \<noteq> X86_JMP_NEAR \<and> jmp_short_len j = 2 \<and>
       j_target j = Value_of_expr 0 (flatten 0 (Node Op_SUB [Leaf (T_SYM 0), Leaf (T_LOC \<lparr>loc_bc = Some 4, loc_off = 0\<rparr>)])) | _ \<Rightarrow> False)
   | _ \<Rightarrow> False"
  by code_simp

lemma short_jumps_span:
  assumes "Optimize P bcs = Some (Ret st)" "op_diags st = []" "\<forall>bc\<in>set bcs. bc_wf bc" "int (length bcs) < 2 ^ 31 - 1"
    "Optimize_init P bcs = Ret (Some (st0, fin))" "unsaturated st0"
    "b < length (op_bcs st)" "bc_contents (op_bcs st ! b) = Some (X86JmpContents j)" "j_op_sel j \<noteq> X86_JMP_NEAR"
  shows "\<exists>s\<in>set (op_spans st). sp_bc s = b \<and> link_subst P (j_target j) (sp_depval s) (sp_locs s) \<and> resolved P (op_bcs st) s \<and>
     -128 \<le> sp_new s - jmp_short_len j \<and> sp_new s - jmp_short_len j \<le> 127"
proof -
  note R = Optimize_resolved [OF assms(1-6)]
  have "bc_claim (to_u64 (voff (op_bcs st) b + getFixedLen (op_bcs st ! b))) (bc_contents (op_bcs st ! b)) (bc_len (op_bcs st ! b))"
    using R assms(7) by (simp add: placed_def)
  then have "m_len (j_shortop j) \<le> 3" using assms(8) by (simp add: opcode_ok_def)
  then have "short_jmp (op_bcs st ! b) = Some j" using assms(8,9) by (simp add: short_jmp_def jmp_short_len_def Common_getLen_def)
  then obtain s where s: "s \<in> set (op_spans st)" "watches (link_subst P) s b j"
    using Optimize_jw [OF assms(1,2)] assms(7) by (auto simp: jumps_watched_def)
  then have r: "resolved P (op_bcs st) s" using R by (auto simp: watches_def)
  have "\<not> bc_uleb (op_bcs st ! b)" using assms(8) by (simp add: bc_uleb_def)
  then have "\<not> exceeds s" using r s(2) by (auto simp: resolved_def watches_def)
  then show ?thesis using s r by (intro bexI [of _ s]) (auto simp: exceeds_def watches_def)
qed

text \<open>
  C3. A jump that is still short after an optimization without messages reaches its target:
  one of the spans computes the target's expression, with its differences of locations
  replaced by the distances at the final offsets, and the result, less the length of the
  short jump, is a displacement of a signed byte.
\<close>

theorem short_jumps_reach:
  assumes "Optimize P bcs = Some (Ret st)" "op_diags st = []" "\<forall>bc\<in>set bcs. bc_wf bc" "int (length bcs) < 2 ^ 31 - 1"
    "Optimize_init P bcs = Ret (Some (st0, fin))" "unsaturated st0"
    "b < length (op_bcs st)" "bc_contents (op_bcs st ! b) = Some (X86JmpContents j)" "j_op_sel j \<noteq> X86_JMP_NEAR"
  shows "\<exists>s\<in>set (op_spans st). sp_bc s = b \<and> link_subst P (j_target j) (sp_depval s) (sp_locs s) \<and> resolved P (op_bcs st) s \<and>
     -128 \<le> sp_new s - jmp_short_len j \<and> sp_new s - jmp_short_len j \<le> 127"
  by (rule short_jumps_span [OF assms])

theorem short_jumps_reach_witness:
  "\<exists>st s. Optimize sample_opt sample_section = Some (Ret st) \<and> s \<in> set (op_spans st) \<and> sp_bc s = 4 \<and>
     -128 \<le> sp_new s - 2 \<and> sp_new s - 2 \<le> 127"
proof -
  obtain st where st: "Optimize sample_opt sample_section = Some (Ret st)" "op_diags st = []"
    using sample_Optimize by (auto split: option.splits outcome.splits)
  obtain st0 fin where st0: "Optimize_init sample_opt sample_section = Ret (Some (st0, fin))" "unsaturated st0"
    using sample_init by (auto split: outcome.splits option.splits)
  have l: "int (length sample_section) < 2 ^ 31 - 1" by (simp add: sample_section_def)
  obtain j where j: "4 < length (op_bcs st)" "bc_contents (op_bcs st ! 4) = Some (X86JmpContents j)" "j_op_sel j \<noteq> X86_JMP_NEAR" "jmp_short_len j = 2"
    using sample_short_jump st(1) by (auto split: option.splits Contents.split_asm)
  show ?thesis using short_jumps_reach [OF st sample_wf l st0 j(1-3)] st(1) j(4) by auto
qed

end
