(* ===== verification/Simplify_Level.thy ===== *)
theory Simplify_Level
  imports Simplify
begin

text \<open>
  Levelling over numbers.  The vector is split at the operator: a prefix the loops do not
  enter, the terms of the operands and the rest.  \<open>level_loop\<close> keeps one number among the terms it
  has visited; when the operands are numbers, the operator and its operands
  collapse to one number, and by induction over the tree the whole vector does.
\<close>

unbundle bit_operations_syntax

section \<open>Regions of the vector\<close>

text \<open>
  The loops run from an operator to the left and stop at the first term that is not below
  it.  \<open>stops d pre\<close> says that they stop at the end of \<open>pre\<close>.
\<close>

definition stops :: "int \<Rightarrow> 'f Expr \<Rightarrow> bool" where
  "stops d pre \<longleftrightarrow> (case rev (Cleanup pre) of [] \<Rightarrow> True | t # ts \<Rightarrow> m_depth t \<le> d)"

lemma Cleanup_simps [simp]:
  "Cleanup [] = []" "Cleanup (t # ts) = (if isEmpty t then Cleanup ts else t # Cleanup ts)"
  "Cleanup (xs @ ys) = Cleanup xs @ Cleanup ys"
  by (simp_all add: Cleanup_def)

lemma Cleanup_Nil: "Cleanup xs = [] \<longleftrightarrow> list_all isEmpty xs"
  by (auto simp: Cleanup_def filter_empty_conv list_all_iff)

lemma stops_simps [simp]: "stops d []" "stops d (xs @ [t]) = (if isEmpty t then stops d xs else m_depth t \<le> d)"
  by (simp_all add: stops_def)

lemma stops_append: "stops d (xs @ ys) = (if Cleanup ys = [] then stops d xs else m_depth (last (Cleanup ys)) \<le> d)"
  by (induction ys rule: rev_induct) (auto simp: stops_def simp flip: append_assoc)

text \<open>A loop that skips empty terms and stops leaves a prefix alone.\<close>

lemma stop_pre:
  assumes "stops d pre"
  shows reduce_pre: "reduce_children d k (length pre) (pre @ rest) = pre @ rest"
    and clear_pre: "clear_children d keep (length pre) (pre @ rest) = pre @ rest"
    and contains_pre: "contains_child d typ (length pre) (pre @ rest) = False"
proof -
  have "reduce_children d k (length pre) (pre @ rest) = pre @ rest \<and>
      clear_children d keep (length pre) (pre @ rest) = pre @ rest \<and>
      contains_child d typ (length pre) (pre @ rest) = False"
    using assms by (induction pre arbitrary: rest rule: rev_induct) (auto split: if_splits)
  then show "reduce_children d k (length pre) (pre @ rest) = pre @ rest"
    "clear_children d keep (length pre) (pre @ rest) = pre @ rest"
    "contains_child d typ (length pre) (pre @ rest) = False" by simp_all
qed

lemma level_pre:
  assumes "stops (m_depth (ls_terms st ! pos)) pre" "ls_terms st = pre @ rest"
  shows "level_loop F rm oper pos (length pre) st = Ret (st, False)"
  using assms by (induction pre arbitrary: rest rule: rev_induct) (auto simp: Let_def split: if_splits)

abbreviation deep :: "int \<Rightarrow> 'f Expr \<Rightarrow> bool" where
  "deep d xs \<equiv> list_all (\<lambda>t. isEmpty t \<or> d < m_depth t) xs"

lemma reduce_region:
  assumes "stops d pre" "deep d xs"
  shows "reduce_children d k (length pre + length xs) (pre @ xs @ rest) =
     pre @ List.map (\<lambda>t. if isEmpty t then t else add_depth (- k) t) xs @ rest"
  using assms(2)
proof (induction xs arbitrary: rest rule: rev_induct)
  case Nil
  then show ?case using reduce_pre [OF assms(1)] by simp
next
  case (snoc t xs)
  then show ?case by (auto simp: nth_append list_update_append)
qed

lemma contains_region:
  assumes "stops d pre" "deep d xs" "list_all (\<lambda>t. \<not> isType t typ) xs"
  shows "\<not> contains_child d typ (length pre + length xs) (pre @ xs @ rest)"
  using assms(2,3)
proof (induction xs arbitrary: rest rule: rev_induct)
  case Nil
  then show ?case using contains_pre [OF assms(1)] by simp
next
  case (snoc t xs)
  then show ?case by (auto simp: nth_append list_update_append)
qed

lemma clear_region:
  assumes "stops d pre" "deep d xs" "keep < int (length pre) \<or> int (length pre + length xs) \<le> keep"
  shows "clear_children d keep (length pre + length xs) (pre @ xs @ rest) = pre @ List.map Clear xs @ rest"
  using assms(2,3)
proof (induction xs arbitrary: rest rule: rev_induct)
  case Nil
  then show ?case using clear_pre [OF assms(1)] by simp
next
  case (snoc t xs)
  have "isEmpty t \<Longrightarrow> Clear t = t" by (cases t) (auto simp: Clear_def isEmpty_def split: term_data.splits)
  then show ?case using snoc by (auto simp: nth_append list_update_append)
qed

lemma clear_region_keep:
  assumes "stops d pre" "deep d (xs @ t # ys)" "\<not> isEmpty t"
  shows "clear_children d (int (length pre + length xs)) (length pre + length (xs @ t # ys)) (pre @ (xs @ t # ys) @ rest) =
     pre @ (List.map Clear xs @ t # List.map Clear ys) @ rest"
proof -
  have "clear_children d (int (length pre + length xs)) (length (pre @ xs @ [t]) + length ys) ((pre @ xs @ [t]) @ ys @ rest) =
     clear_children d (int (length pre + length xs)) (length (pre @ xs @ [t])) ((pre @ xs @ [t]) @ List.map Clear ys @ rest)"
    using assms(2)
  proof (induction ys arbitrary: rest rule: rev_induct)
    case (snoc u ys)
    have "isEmpty u \<Longrightarrow> Clear u = u" by (cases u) (auto simp: Clear_def isEmpty_def split: term_data.splits)
    then show ?case using snoc by (auto simp: nth_append list_update_append)
  qed simp
  moreover have "clear_children d (int (length pre + length xs)) (length (pre @ xs @ [t])) ((pre @ xs @ [t]) @ List.map Clear ys @ rest) =
      clear_children d (int (length pre + length xs)) (length pre + length xs) (pre @ xs @ (t # List.map Clear ys @ rest))"
    using assms(2,3) by (auto simp: nth_append)
  moreover have "clear_children d (int (length pre + length xs)) (length pre + length xs) (pre @ xs @ (t # List.map Clear ys @ rest)) =
      pre @ List.map Clear xs @ (t # List.map Clear ys @ rest)"
    using clear_region [OF assms(1), of xs "int (length pre + length xs)"] assms(2) by (simp del: clear_children.simps)
  moreover have "length pre + length (xs @ t # ys) = length (pre @ xs @ [t]) + length ys"
    "pre @ (xs @ t # ys) @ rest = (pre @ xs @ [t]) @ ys @ rest" by simp_all
  ultimately show ?thesis by (metis append_Cons append_assoc)
qed

section \<open>Folding from the right\<close>

text \<open>
  \<open>LevelOp\<close> folds the numbers below an operator from the right.  \<open>rval\<close> is the value of such
  a fold and \<open>foldable\<close> the operands it is used on: any number for an associative operator, two in the
  operator's domain for another one.  The logical \<open>LAND\<close> and \<open>LOR\<close> are not among them: their identities
  keep an operand that is not a truth value.
\<close>

fun rval :: "Op \<Rightarrow> int list \<Rightarrow> int" where
  "rval oper [] = 0"
| "rval oper [a] = a"
| "rval oper (a # b # cs) = calc_spec oper a (rval oper (b # cs))"

definition foldable :: "Op \<Rightarrow> IntNum list \<Rightarrow> bool" where
  "foldable oper ns \<longleftrightarrow>
     oper < Op_NONNUM \<and> oper \<noteq> Op_LAND \<and> oper \<noteq> Op_LOR \<and> list_all wf_IntNum ns \<and>
     (isAssociative oper \<or> length ns \<le> 1 \<or> length ns = 2 \<and> op_domain oper (intnum_val (ns ! 0)) (intnum_val (ns ! 1)))"

lemma associative_domain: "isAssociative oper \<Longrightarrow> oper < Op_NONNUM \<Longrightarrow> op_domain oper a b"
  by (cases oper) (simp_all add: isAssociative_def op_domain_def less_Op_def)

lemma identity_values:
  assumes "isRightIdentity oper x \<or> isLeftIdentity oper x" "oper \<noteq> Op_LAND" "oper \<noteq> Op_LOR"
  shows "oper \<in> {Op_ADD, Op_SUB, Op_OR, Op_SHL, Op_SHR} \<and> intnum_val x = 0 \<or> oper \<in> {Op_MUL, Op_DIV} \<and> intnum_val x = 1 \<or>
    oper = Op_AND \<and> intnum_val x = -1"
  using assms by (auto simp: isRightIdentity_def isLeftIdentity_def isZero_def isPos1_def isNeg1_def)

lemma right_identity:
  assumes "isRightIdentity oper x" "oper \<noteq> Op_LAND" "oper \<noteq> Op_LOR" "bv_range a"
  shows "calc_spec oper a (intnum_val x) = a"
  using identity_values [of oper x] assms lsr256_0 [OF assms(4)]
  by (auto simp: calc_spec_def wrap256_def bv_range_def signed_take_bit_int_eq_self signed_take_bit_take_bit min_def)

lemma left_identity:
  assumes "isLeftIdentity oper x" "oper \<noteq> Op_LAND" "oper \<noteq> Op_LOR" "bv_range a"
  shows "calc_spec oper (intnum_val x) a = a"
  using assms by (auto simp: isLeftIdentity_def isZero_def isPos1_def isNeg1_def calc_spec_def)

lemma associative_identity: "isAssociative oper \<Longrightarrow> isRightIdentity oper x \<Longrightarrow> isLeftIdentity oper x"
  by (auto simp: isAssociative_def isLeftIdentity_def isRightIdentity_def)

lemma rval_Cons: "xs \<noteq> [] \<Longrightarrow> rval oper (a # xs) = calc_spec oper a (rval oper xs)"
  by (cases xs) auto

lemma rval_last: "rval oper (xs @ [a, b]) = rval oper (xs @ [calc_spec oper a b])"
  by (induction xs) (auto simp: rval_Cons)

lemma rval_constant:
  assumes "isConstantIdentity oper x" "oper \<noteq> Op_LAND"
  shows "rval oper (xs @ intnum_val x # ys) = intnum_val x"
proof -
  have a: "calc_spec oper (intnum_val x) b = intnum_val x" "calc_spec oper b (intnum_val x) = intnum_val x" for b
    using assms by (auto simp: isConstantIdentity_def isZero_def isNeg1_def calc_spec_def wrap256_def)
  have "rval oper (intnum_val x # ys) = intnum_val x" by (cases ys) (simp_all add: a)
  then show ?thesis by (induction xs) (simp_all add: rval_Cons a)
qed

lemma rval_right_identity:
  assumes "isRightIdentity oper x" "oper \<noteq> Op_LAND" "oper \<noteq> Op_LOR" "xs \<noteq> []" "list_all bv_range xs"
  shows "rval oper (xs @ [intnum_val x]) = rval oper xs"
proof -
  obtain xs' a where xs: "xs = xs' @ [a]" using assms(4) by (cases xs rule: rev_cases) auto
  then show ?thesis using right_identity [OF assms(1-3), of a] assms(5) rval_last [of oper xs' a] by simp
qed

lemma rval_regroup:
  assumes "isAssociative oper" "oper < Op_NONNUM"
  shows "rval oper (calc_spec oper a b # cs) = rval oper (a # b # cs)"
proof -
  have "oper \<noteq> Op_COND" using assms(2) by (auto simp: less_Op_def)
  then show ?thesis using assms(1) by (cases cs) (auto simp: calc_spec_assoc)
qed

lemma fold_val_rval:
  assumes "fold_val oper a bs = Some v" "isAssociative oper \<and> oper < Op_NONNUM \<or> length bs \<le> 1"
  shows "rval oper (a # bs) = v"
  using assms
proof (induction bs arbitrary: a)
  case (Cons b bs)
  then have "rval oper (calc_spec oper a b # bs) = v" by (cases bs) (auto split: if_splits)
  then show ?case using Cons.prems(2) rval_regroup [of oper a b bs] by (cases bs) auto
qed simp

lemma foldable_calc:
  assumes "foldable oper (ns @ [x, m])"
  shows "\<exists>r. Calc oper x m = Ret r \<and> wf_IntNum r \<and> intnum_val r = calc_spec oper (intnum_val x) (intnum_val m) \<and> foldable oper (ns @ [r])"
proof -
  have "op_domain oper (intnum_val x) (intnum_val m)"
    using assms associative_domain by (cases ns) (auto simp: foldable_def)
  then obtain r where "Calc oper x m = Ret r" "wf_IntNum r" "intnum_val r = calc_spec oper (intnum_val x) (intnum_val m)"
    using intnum.returns [of x m oper] assms op_domain_calc [of oper x m] by (auto simp: foldable_def)
  then show ?thesis using assms by (cases ns) (auto simp: foldable_def)
qed

lemma foldable_drop: "foldable oper (ns @ x # ms) \<Longrightarrow> foldable oper (ns @ ms)"
  by (auto simp: foldable_def)

section \<open>Levelling an operator over numbers\<close>

abbreviation int_at :: "int \<Rightarrow> IntNum \<Rightarrow> 'f ExprTerm" where
  "int_at d n \<equiv> mk_term (T_INT n) d"

abbreviation op_at :: "int \<Rightarrow> Op \<Rightarrow> nat \<Rightarrow> 'f ExprTerm" where
  "op_at d oper k \<equiv> mk_term (T_OP oper (int k)) d"

lemma term_simps [simp]:
  "isEmpty (int_at d n) = False" "isEmpty (mk_term (T_OP oper k) d) = False" "isOp (int_at d n) = False" "isOp (mk_term (T_OP oper k) d)"
  "isEmpty (Clear t)" "getIntNum (int_at d n) = Some n" "getOp (mk_term (T_OP oper k) d) = oper" "getNumChild (mk_term (T_OP oper k) d) = k"
  "AddNumChild j (mk_term (T_OP oper k) d) = mk_term (T_OP oper (k + j)) d" "isOp_of (int_at d n) oper = False"
  "setIntNum m (int_at d n) = int_at d m" "isOp (Clear t) = False" "isType (int_at d n) 1 = False"
  by (simp_all add: mk_term_def isEmpty_def isOp_def Clear_def getIntNum_def getOp_def getNumChild_def AddNumChild_def isOp_of_def setIntNum_def isType_def)

lemma Clear_empty: "isEmpty t \<Longrightarrow> Clear t = t"
  by (cases t) (auto simp: Clear_def isEmpty_def split: term_data.splits)

text \<open>The number kept so far, in the part \<open>zs\<close> of the vector that has been visited and starts at \<open>k\<close>.\<close>

fun held :: "nat \<Rightarrow> int \<Rightarrow> 'f Expr \<Rightarrow> IntNum list \<Rightarrow> nat option \<Rightarrow> bool" where
  "held k d zs [] i \<longleftrightarrow> list_all isEmpty zs \<and> i = None"
| "held k d zs [m] i \<longleftrightarrow>
     (\<exists>z1 z2. zs = z1 @ int_at d m # z2 \<and> list_all isEmpty z1 \<and> list_all isEmpty z2 \<and> i = Some (k + length z1))"
| "held k d zs (m # n # ms) i \<longleftrightarrow> False"

lemma held_Cons: "isEmpty t \<Longrightarrow> held (Suc k) d zs acc i \<Longrightarrow> held k d (t # zs) acc i"
proof (induction k d zs acc i rule: held.induct)
  case (2 k d zs m i)
  then obtain z1 z2 where "zs = z1 @ int_at d m # z2" "list_all isEmpty z1" "list_all isEmpty z2" "i = Some (Suc k + length z1)" by auto
  then have "t # zs = (t # z1) @ int_at d m # z2 \<and> list_all isEmpty (t # z1) \<and> list_all isEmpty z2 \<and> i = Some (k + length (t # z1))"
    using 2(1) by simp
  then show ?case unfolding held.simps by blast
qed auto

lemma held_deep: "held k (d + 1) zs acc i \<Longrightarrow> deep d zs"
  by (induction k "d + 1" zs acc i rule: held.induct) (auto simp: list_all_iff)

lemma fold_int_cases:
  assumes "ls_terms st = A @ int_at (d + 1) x # B @ op_at d oper k # post" "ls_flt st = None" "oper < Op_NONNUM"
    and "n = length A" "pos = Suc (length A + length B)"
  obtains (skip) "fold_int F rm oper pos n x st =
        Ret (st\<lparr>ls_terms := A @ Clear (int_at (d + 1) x) # B @ op_at d oper (k - 1) # post\<rparr>, False)"
      "k > 1" "ls_childnum st \<noteq> 0 \<and> isRightIdentity oper x \<or> ls_childnum st = 0 \<and> isLeftIdentity oper x"
  | (const) "isConstantIdentity oper x" "fold_int F rm oper pos n x st = bind_out (ClearExcept (ls_terms st) (int pos) (int n)) (\<lambda>terms1.
            Ret (st\<lparr>ls_terms := upd_term pos Clear (upd_term n (add_depth (-1)) terms1)\<rparr>, True))"
  | (first) "ls_int st = None" "fold_int F rm oper pos n x st = Ret (st\<lparr>ls_int := Some n\<rparr>, False)"
  | (calc) i where "ls_int st = Some i" "fold_int F rm oper pos n x st =
       (case getIntNum (ls_terms st ! i) of
                           None \<Rightarrow> Undefined
                         | Some acc \<Rightarrow>
                             bind_out (calc_report (Calc oper x acc) x) (\<lambda>(r, ds).
                               Ret (st\<lparr>ls_terms := upd_term pos (AddNumChild (-1)) (upd_term n Clear
                                       (upd_term i (setIntNum r) (ls_terms st))),
                                     ls_diags := ls_diags st @ ds\<rparr>, False)))"
proof -
  let ?T = "ls_terms st"
  have pos: "?T ! pos = op_at d oper k" using assms by (simp add: nth_append)
  have "pos < length ?T" "?T \<noteq> []" using assms by simp_all
  then have c: "Contains ?T 1 (int pos) = Ret (contains_child d 1 pos ?T)"
    by (simp add: Contains_def valid_pos_def norm_pos_def pos)
  let ?P = "(rm \<or> oper \<noteq> Op_MUL \<or> \<not> isPos1 x \<or> \<not> contains_child d 1 pos ?T) \<and> int k > 1 \<and>
           (ls_childnum st \<noteq> 0 \<and> isRightIdentity oper x \<or> ls_childnum st = 0 \<and> isLeftIdentity oper x)"
  consider ?P | "\<not> ?P" "isConstantIdentity oper x" | "\<not> ?P" "\<not> isConstantIdentity oper x" by blast
  then show thesis
  proof cases
    case 1
    have "upd_term pos (AddNumChild (-1)) (upd_term n Clear ?T) = A @ Clear (int_at (d + 1) x) # B @ op_at d oper (k - 1) # post"
      using assms 1 by (auto simp: upd_term_def nth_append list_update_append of_nat_diff)
    then have "fold_int F rm oper pos n x st = Ret (st\<lparr>ls_terms := A @ Clear (int_at (d + 1) x) # B @ op_at d oper (k - 1) # post\<rparr>, False)"
      using 1 by (simp add: fold_int_def Let_def c pos)
    then show thesis using skip 1 by simp
  next
    case 2
    then show thesis using const by (simp only: fold_int_def Let_def c pos bind_out.simps term_simps if_False if_True)
  next
    case 3
    then have "fold_int F rm oper pos n x st = (case ls_int st of
                 None \<Rightarrow> Ret (st\<lparr>ls_int := Some n\<rparr>, False)
               | Some i \<Rightarrow> (case getIntNum (?T ! i) of
                           None \<Rightarrow> Undefined
                         | Some acc \<Rightarrow>
                             bind_out (calc_report (Calc oper x acc) x) (\<lambda>(r, ds).
                               Ret (st\<lparr>ls_terms := upd_term pos (AddNumChild (-1)) (upd_term n Clear
                                       (upd_term i (setIntNum r) ?T)),
                                     ls_diags := ls_diags st @ ds\<rparr>, False))))"
      unfolding fold_int_def Let_def c pos bind_out.simps term_simps if_not_P [OF 3(1)] if_not_P [OF 3(2)]
      using assms(2,3) by (simp split: option.splits)
    then show thesis using first calc by (cases "ls_int st") simp_all
  qed
qed

definition levelled :: "'f Expr \<Rightarrow> 'f Expr \<Rightarrow> int \<Rightarrow> Op \<Rightarrow> nat \<Rightarrow> IntNum list \<Rightarrow> diag list \<Rightarrow> ('f level_state \<times> bool) outcome \<Rightarrow> bool" where
  "levelled pre post d oper k ns ds res \<longleftrightarrow>
     (\<exists>r xs st leave. res = Ret (st, leave) \<and> wf_IntNum r \<and> intnum_val r = rval oper (List.map intnum_val ns) \<and>
        length xs = k \<and> ls_diags st = ds \<and>
        (if leave then \<not> isUnary oper \<and> (\<exists>t. isEmpty t \<and> ls_terms st = pre @ xs @ t # post \<and> Cleanup xs = [int_at d r])
         else ls_terms st = pre @ xs @ op_at d oper 1 # post \<and> held (length pre) (d + 1) xs [r] (ls_int st) \<and> ls_flt st = None))"

lemma rval_skip:
  assumes "foldable oper (ns @ x # acc)" "ns @ acc \<noteq> []" "length acc \<le> 1"
    and "ns \<noteq> [] \<and> isRightIdentity oper x \<or> ns = [] \<and> isLeftIdentity oper x"
  shows "rval oper (List.map intnum_val (ns @ x # acc)) = rval oper (List.map intnum_val (ns @ acc))"
proof -
  have oper: "oper \<noteq> Op_LAND" "oper \<noteq> Op_LOR" "list_all wf_IntNum (ns @ x # acc)" using assms(1) by (auto simp: foldable_def)
  consider "acc = []" "ns \<noteq> []" "isRightIdentity oper x" | m where "acc = [m]" "isLeftIdentity oper x"
    | m where "acc = [m]" "ns \<noteq> []" "isRightIdentity oper x"
    using assms(2-4) by (cases acc) auto
  then show ?thesis
  proof cases
    case 1
    then show ?thesis using rval_right_identity [OF 1(3) oper(1,2), of "List.map intnum_val ns"] oper(3) by (simp add: list_all_iff bv_range_val)
  next
    case 2
    then show ?thesis using left_identity [OF 2(2) oper(1,2), of "intnum_val m"] oper(3) by (simp add: rval_last bv_range_val)
  next
    case 3
    then have "isAssociative oper" using assms(1) by (cases ns) (auto simp: foldable_def)
    then show ?thesis using left_identity [OF associative_identity [OF _ 3(3)] oper(1,2), of "intnum_val m"] 3(1) oper(3) by (simp add: rval_last bv_range_val)
  qed
qed

lemma deep_ints: "Cleanup ys = List.map (int_at (d + 1)) ns \<Longrightarrow> deep d ys"
proof -
  assume a: "Cleanup ys = List.map (int_at (d + 1)) ns"
  have "t \<in> set ys \<Longrightarrow> \<not> isEmpty t \<Longrightarrow> t \<in> set (List.map (int_at (d + 1)) ns)" for t
    by (simp flip: a add: Cleanup_def)
  then show ?thesis by (fastforce simp: list_all_iff)
qed

lemma ClearExcept_ints:
  assumes "stops d pre" "deep d (ys @ int_at (d + 1) x # zs)"
  shows "ClearExcept (pre @ (ys @ int_at (d + 1) x # zs) @ op_at d oper k # post) (int (length pre + length (ys @ int_at (d + 1) x # zs))) (int (length pre + length ys)) =
    Ret (pre @ (List.map Clear ys @ int_at (d + 1) x # List.map Clear zs) @ op_at d oper k # post)"
  using clear_region_keep [OF assms, of "op_at d oper k # post"]
  by (simp add: ClearExcept_def valid_pos_def norm_pos_def nth_append nat_add_distrib del: clear_children.simps)

lemma level_const:
  assumes "stops d pre" "deep d ys" "deep d zs" "isConstantIdentity oper x" "foldable oper (ns @ x # acc)"
    and "ls_terms st = pre @ ys @ int_at (d + 1) x # zs @ op_at d oper k # post" "n = length pre + length ys" "pos = Suc (length pre + length ys + length zs)"
  shows "levelled pre post d oper (Suc (length ys + length zs)) (ns @ x # acc) (ls_diags st)
    (bind_out (ClearExcept (ls_terms st) (int pos) (int n)) (\<lambda>terms1.
       Ret (st\<lparr>ls_terms := upd_term pos Clear (upd_term n (add_depth (-1)) terms1)\<rparr>, True)))"
proof -
  have "deep d (ys @ int_at (d + 1) x # zs)" using assms(2,3) by simp
  from ClearExcept_ints [OF assms(1) this, of oper k post]
  have c: "ClearExcept (ls_terms st) (int pos) (int n) = Ret (pre @ List.map Clear ys @ int_at (d + 1) x # List.map Clear zs @ op_at d oper k # post)"
    using assms(6-8) by (simp add: add.assoc)
  have u: "upd_term pos Clear (upd_term n (add_depth (-1)) (pre @ List.map Clear ys @ int_at (d + 1) x # List.map Clear zs @ op_at d oper k # post)) =
     pre @ (List.map Clear ys @ int_at d x # List.map Clear zs) @ Clear (op_at d oper k) # post"
    using assms(7,8) by (simp add: upd_term_def nth_append list_update_append)
  have e: "Cleanup (List.map Clear xs) = []" for xs :: "'a Expr" by (simp add: Cleanup_Nil list_all_iff)
  have v: "rval oper (List.map intnum_val (ns @ x # acc)) = intnum_val x" "wf_IntNum x"
    using rval_constant [OF assms(4)] assms(5) by (auto simp: foldable_def)
  have "\<not> isUnary oper" using assms(4) by (auto simp: isConstantIdentity_def isUnary_def)
  then show ?thesis unfolding levelled_def c bind_out.simps u using v e
    by (intro exI [of _ x] exI [of _ "List.map Clear ys @ int_at d x # List.map Clear zs"]) auto
qed

lemma upd_mid: "n = length A \<Longrightarrow> upd_term n f (A @ t # B) = A @ f t # B"
  by (simp add: upd_term_def)

lemma held_at:
  "list_all isEmpty z1 \<Longrightarrow> list_all isEmpty z2 \<Longrightarrow> i = Some (k + length z1) \<Longrightarrow> held k d (z1 @ int_at d m # z2) [m] i"
  by auto

lemma bind_leave:
  "bind_out (bind_out c (\<lambda>ts. Ret (f ts, True))) (\<lambda>(st1, leave). if leave then Ret (st1, True) else g st1) =
   bind_out c (\<lambda>ts. Ret (f ts, True))"
  by (cases c) simp_all

lemma level_loop_ints:
  assumes "stops d pre" "Cleanup ys = List.map (int_at (d + 1)) ns"
    and "ls_terms st = pre @ ys @ zs @ op_at d oper (length ns + length acc) # post" "pos = length pre + length ys + length zs"
    and "held (length pre + length ys) (d + 1) zs acc (ls_int st)" "ls_flt st = None" "ls_childnum st = int (length ns)"
    and "foldable oper (ns @ acc)" "ns @ acc \<noteq> []"
  shows "levelled pre post d oper (length ys + length zs) (ns @ acc) (ls_diags st) (level_loop F rm oper pos (length pre + length ys) st)"
  using assms(2-9)
proof (induction ys arbitrary: ns acc zs st rule: rev_induct)
  case Nil
  then obtain m where m: "ns = []" "acc = [m]" by (cases acc rule: remdups_adj.cases) auto
  have "ls_terms st ! pos = op_at d oper 1" using Nil.prems m by (simp add: nth_append)
  then have "level_loop F rm oper pos (length pre) st = Ret (st, False)" using Nil.prems level_pre [of st pos pre] assms(1) by simp
  then show ?case unfolding levelled_def
    by (intro exI [of _ m] exI [of _ zs] exI [of _ st] exI [of _ False]) (use Nil.prems m in \<open>auto simp: foldable_def\<close>)
next
  case (snoc t ys)
  let ?n = "length pre + length ys"
  have at: "ls_terms st ! ?n = t" "ls_terms st ! pos = op_at d oper (length ns + length acc)" "length pre + length (ys @ [t]) = Suc ?n"
    using snoc.prems(2,3) by (simp_all add: nth_append)
  show ?case
  proof (cases "isEmpty t")
    case True
    have "levelled pre post d oper (length ys + length (t # zs)) (ns @ acc) (ls_diags st) (level_loop F rm oper pos ?n st)"
      by (rule snoc.IH) (use snoc.prems True in \<open>auto intro: held_Cons\<close>)
    then show ?thesis using True at by simp
  next
    case False
    obtain ns' x where ns: "ns = ns' @ [x]" "t = int_at (d + 1) x" "Cleanup ys = List.map (int_at (d + 1)) ns'"
      using snoc.prems(1) False by (cases ns rule: rev_cases) auto
    let ?st = "st\<lparr>ls_childnum := int (length ns')\<rparr>"
    have oper: "oper < Op_NONNUM" "oper \<noteq> Op_SEG" "oper \<noteq> Op_COND" using snoc.prems(7) by (auto simp: foldable_def less_Op_def)
    have "level_child F rm oper pos ?n ?st = fold_int F rm oper pos ?n x ?st"
      using at ns(2) oper by (simp add: level_child_def)
    then have step: "level_loop F rm oper pos (length pre + length (ys @ [t])) st =
       bind_out (fold_int F rm oper pos ?n x ?st) (\<lambda>(st1, leave). if leave then Ret (st1, True) else level_loop F rm oper pos ?n st1)"
      using at snoc.prems(6) ns(1,2) by simp
    have terms: "ls_terms ?st = (pre @ ys) @ int_at (d + 1) x # zs @ op_at d oper (length ns + length acc) # post"
      using snoc.prems(2) ns(2) by simp
    have fa: "foldable oper (ns' @ x # acc)" using snoc.prems(7) ns(1) by simp
    have la: "length acc \<le> 1" using snoc.prems(4) by (cases acc rule: remdups_adj.cases) auto
    have flt: "ls_flt ?st = None" and len: "?n = length (pre @ ys)" "pos = Suc (length (pre @ ys) + length zs)"
      using snoc.prems(3,5) by simp_all
    from terms flt oper(1) len show ?thesis
    proof (cases rule: fold_int_cases [where F = F and rm = rm])
      case skip
      let ?st' = "?st\<lparr>ls_terms := (pre @ ys) @ Clear t # zs @ op_at d oper (length ns + length acc - 1) # post\<rparr>"
      have "levelled pre post d oper (length ys + length (Clear t # zs)) (ns' @ acc) (ls_diags ?st') (level_loop F rm oper pos ?n ?st')"
        by (rule snoc.IH) (use snoc.prems skip(2) ns fa in \<open>auto intro: held_Cons dest: foldable_drop\<close>)
      moreover have "rval oper (List.map intnum_val (ns' @ x # acc)) = rval oper (List.map intnum_val (ns' @ acc))"
        using skip ns(1) by (intro rval_skip [OF fa _ la]) (auto simp: neq_Nil_conv)
      ultimately show ?thesis using step skip(1) ns by (simp add: levelled_def)
    next
      case const
      have "levelled pre post d oper (Suc (length ys + length zs)) (ns' @ x # acc) (ls_diags ?st)
          (bind_out (ClearExcept (ls_terms ?st) (int pos) (int ?n)) (\<lambda>terms1.
             Ret (?st\<lparr>ls_terms := upd_term pos Clear (upd_term ?n (add_depth (-1)) terms1)\<rparr>, True)))"
        using terms len by (intro level_const [OF assms(1) deep_ints [OF ns(3)] held_deep [OF snoc.prems(4)] const(1) fa, where k = "length ns + length acc"]) simp_all
      then show ?thesis unfolding step const(2) bind_leave using ns(1) by simp
    next
      case first
      then have "acc = []" using snoc.prems(4) by (cases acc rule: remdups_adj.cases) auto
      have "levelled pre post d oper (length ys + length (t # zs)) (ns' @ [x]) (ls_diags (?st\<lparr>ls_int := Some ?n\<rparr>))
          (level_loop F rm oper pos ?n (?st\<lparr>ls_int := Some ?n\<rparr>))"
        by (rule snoc.IH) (use snoc.prems ns \<open>acc = []\<close> fa in \<open>auto intro!: exI [of _ "[]"]\<close>)
      then show ?thesis using step first ns \<open>acc = []\<close> by simp
    next
      case (calc i)
      then obtain m z1 z2 where z: "acc = [m]" "zs = z1 @ int_at (d + 1) m # z2" "list_all isEmpty z1" "list_all isEmpty z2" "i = ?n + 1 + length z1"
        using snoc.prems(4) by (cases acc rule: remdups_adj.cases) auto
      obtain r where r: "Calc oper x m = Ret r" "wf_IntNum r" "intnum_val r = calc_spec oper (intnum_val x) (intnum_val m)" "foldable oper (ns' @ [r])"
        using foldable_calc [of oper ns' x m] fa z(1) by auto
      let ?st' = "?st\<lparr>ls_terms := pre @ ys @ (Clear t # z1 @ int_at (d + 1) r # z2) @ op_at d oper (length ns' + length [r]) # post\<rparr>"
      have "ls_terms st ! i = int_at (d + 1) m" using terms z by (simp add: nth_append)
      moreover have "upd_term pos (AddNumChild (-1)) (upd_term ?n Clear (upd_term i (setIntNum r) (ls_terms st))) = ls_terms ?st'"
      proof -
        have "upd_term i (setIntNum r) (ls_terms st) = (pre @ ys) @ t # z1 @ int_at (d + 1) r # z2 @ op_at d oper (length ns + length acc) # post"
          using upd_mid [of i "pre @ ys @ t # z1"] terms z ns(2) by simp
        moreover have "upd_term ?n Clear ((pre @ ys) @ t # z1 @ int_at (d + 1) r # z2 @ op_at d oper (length ns + length acc) # post) =
            (pre @ ys @ Clear t # z1 @ int_at (d + 1) r # z2) @ op_at d oper (length ns + length acc) # post"
          using upd_mid [of ?n "pre @ ys"] by simp
        ultimately show ?thesis using upd_mid [of pos "pre @ ys @ Clear t # z1 @ int_at (d + 1) r # z2"] z(1,2) ns(1) len(2) by simp
      qed
      ultimately have "fold_int F rm oper pos ?n x ?st = Ret (?st', False)"
        using calc(2) r(1) by (simp add: calc_report_def)
      moreover have "levelled pre post d oper (length ys + length (Clear t # z1 @ int_at (d + 1) r # z2)) (ns' @ [r]) (ls_diags ?st') (level_loop F rm oper pos ?n ?st')"
      proof (rule snoc.IH)
        have "ls_int ?st' = Some (Suc ?n + length z1)" using calc(1) z(5) by simp
        then show "held ?n (d + 1) (Clear t # z1 @ int_at (d + 1) r # z2) [r] (ls_int ?st')"
          by (intro held_Cons held_at z(3,4)) simp_all
      qed (use snoc.prems ns z r(4) in auto)
      ultimately show ?thesis using step z(1,2) r(3) ns(1) by (simp add: levelled_def rval_last)
    qed
  qed
qed

lemma level_end_binary:
  assumes "stops d pre" "ls_terms st = pre @ xs @ op_at d oper 1 # post" "held (length pre) (d + 1) xs [r] i" "ls_flt st = None" "\<not> isUnary oper"
  shows "\<exists>xs' t. level_end F oper (length pre + length xs) st = Ret (pre @ xs' @ t # post, ls_diags st) \<and> length xs' = length xs \<and> isEmpty t \<and> Cleanup xs' = [int_at d r]"
proof -
  obtain z1 z2 where z: "xs = z1 @ int_at (d + 1) r # z2" "list_all isEmpty z1" "list_all isEmpty z2" using assms(3) by auto
  let ?xs = "List.map (\<lambda>t. if isEmpty t then t else add_depth (- 1) t) xs"
  have e: "Cleanup (List.map (\<lambda>t. if isEmpty t then t else add_depth (- 1) t) zs) = []" if "list_all isEmpty zs" for zs :: "'a Expr"
    using that by (auto simp: Cleanup_Nil list_all_iff)
  have "reduce_children d 1 (length pre + length xs) (ls_terms st) = pre @ ?xs @ op_at d oper 1 # post"
    using reduce_region [OF assms(1) held_deep [OF assms(3)]] assms(2) by simp
  moreover have "ls_terms st ! (length pre + length xs) = op_at d oper 1" using assms(2) by (simp add: nth_append)
  ultimately have "ReduceDepth (ls_terms st) (length pre + length xs) 1 = (pre @ ?xs) @ op_at (d - 1) oper 1 # post"
    by (simp add: ReduceDepth_def list_update_append)
  then have "upd_term (length pre + length xs) Clear (ReduceDepth (ls_terms st) (length pre + length xs) 1) = (pre @ ?xs) @ Clear (op_at (d - 1) oper 1) # post"
    using upd_mid [of "length pre + length xs" "pre @ ?xs"] by simp
  moreover have "Cleanup ?xs = [int_at d r]" using e z by simp
  moreover have "oper \<noteq> Op_IDENT" "oper \<noteq> Op_NEG" using assms(5) by (auto simp: isUnary_def)
  ultimately show ?thesis using assms(2,4,5)
    by (intro exI [of _ ?xs] exI [of _ "Clear (op_at (d - 1) oper 1)"]) (simp add: level_end_def Let_def nth_append)
qed

lemma level_end_unary:
  assumes "ls_terms st = pre @ xs @ op_at d oper 1 # post" "held (length pre) (d + 1) xs [r] (ls_int st)" "ls_flt st = None"
    and "oper = Op_NOT \<or> oper = Op_LNOT" "Calc1 oper r = Ret v"
  shows "\<exists>xs' t. level_end F oper (length pre + length xs) st = Ret (pre @ xs' @ t # post, ls_diags st) \<and> length xs' = length xs \<and> isEmpty t \<and> Cleanup xs' = [int_at d v]"
proof -
  obtain z1 z2 where z: "xs = z1 @ int_at (d + 1) r # z2" "list_all isEmpty z1" "list_all isEmpty z2" "ls_int st = Some (length pre + length z1)"
    using assms(2) by auto
  let ?T = "(pre @ z1) @ int_at (d + 1) r # z2 @ op_at d oper 1 # post"
  have T: "ls_terms st = ?T" using assms(1) z(1) by simp
  have "?T ! (length pre + length z1) = int_at (d + 1) r" "ls_terms st ! (length pre + length xs) = op_at d oper 1"
    using assms(1) by (simp_all add: nth_append)
  moreover have "upd_term (length pre + length xs) Clear (upd_term (length pre + length z1) (\<lambda>t. add_depth (-1) (setIntNum v t)) ?T) =
      pre @ (z1 @ int_at d v # z2) @ Clear (op_at d oper 1) # post"
    using upd_mid [of "length pre + length z1" "pre @ z1"] upd_mid [of "length pre + length xs" "pre @ z1 @ int_at d v # z2"] z(1) by simp
  moreover have "isUnary oper" "oper < Op_NONNUM" "oper \<noteq> Op_IDENT" "oper \<noteq> Op_NEG" using assms(4) by (auto simp: isUnary_def less_Op_def)
  ultimately have "level_end F oper (length pre + length xs) st = Ret (pre @ (z1 @ int_at d v # z2) @ Clear (op_at d oper 1) # post, ls_diags st)"
    using assms(3,5) z(4) T by (simp add: level_end_def Let_def calc_report_def)
  moreover have "Cleanup (z1 @ int_at d v # z2) = [int_at d v]" "length (z1 @ int_at d v # z2) = length xs"
    using z by (simp_all flip: Cleanup_Nil)
  ultimately show ?thesis by (metis term_simps(5))
qed

text \<open>An operator over numbers becomes a number.\<close>

definition collapsed :: "'f Expr \<Rightarrow> 'f Expr \<Rightarrow> int \<Rightarrow> nat \<Rightarrow> int \<Rightarrow> ('f Expr \<times> diag list) outcome \<Rightarrow> bool" where
  "collapsed pre post d k v res \<longleftrightarrow>
     (\<exists>xs r. res = Ret (pre @ xs @ post, []) \<and> length xs = k \<and> Cleanup xs = [int_at d r] \<and> wf_IntNum r \<and> intnum_val r = v)"

lemma LevelOp_ints:
  assumes "stops d pre" "Cleanup ys = List.map (int_at (d + 1)) ns" "list_all wf_IntNum ns" "op_val oper (List.map intnum_val ns) = Some v"
    and "arity_ok oper (length ns)" "oper \<notin> {Op_NEG, Op_LAND, Op_LOR, Op_SEGOFF}"
  shows "collapsed pre post d (Suc (length ys)) v (LevelOp F rm (pre @ ys @ op_at d oper (length ns) # post) (int (length pre + length ys)))"
proof -
  let ?T = "pre @ ys @ op_at d oper (length ns) # post" and ?p = "length pre + length ys"
  let ?st = "\<lparr>ls_terms = ?T, ls_int = None, ls_flt = None, ls_childnum = int (length ns), ls_diags = []\<rparr>"
  have ne: "ns \<noteq> []" using assms(5) by (auto simp: arity_ok_def)
  consider (un) a where "ns = [a]" "oper = Op_NOT \<or> oper = Op_LNOT" "v = calc_spec oper (intnum_val a) 0"
    | (nary) "\<not> isUnary oper" "foldable oper ns" "rval oper (List.map intnum_val ns) = v"
  proof (cases ns)
    case (Cons a bs)
    show ?thesis
    proof (cases bs)
      case Nil
      then show ?thesis using Cons assms(4,6) un by (auto simp: op_val_def split: if_splits)
    next
      case bs: (Cons b cs)
      have f: "fold_val oper (intnum_val a) (List.map intnum_val bs) = Some v" using assms(4,6) Cons bs by (simp add: op_val_def)
      then have d: "op_domain oper (intnum_val a) (intnum_val b)" using bs by (auto split: if_splits)
      have ar: "isAssociative oper \<or> cs = []" "\<not> isUnary oper" using assms(5) Cons bs
        by (auto simp: arity_ok_def isUnary_def isAssociative_def split: if_splits Op.splits)
      have "foldable oper ns" using d ar assms(3,6) Cons bs by (auto simp: foldable_def op_domain_def)
      moreover have "rval oper (List.map intnum_val ns) = v"
        using fold_val_rval [OF f] ar d Cons bs by (auto simp: op_domain_def)
      ultimately show ?thesis using nary ar by blast
    qed
  qed (use ne in simp)
  note cs = this
  have fo: "foldable oper ns" using cs
  proof cases
    case un
    then show ?thesis using assms(3) by (auto simp: foldable_def less_Op_def)
  qed
  have pos: "?T ! ?p = op_at d oper (length ns)" by (simp add: nth_append)
  then have L: "LevelOp F rm ?T (int ?p) = bind_out (level_loop F rm oper ?p ?p ?st) (\<lambda>(st, leave).
               if leave then Ret (ls_terms st, ls_diags st) else level_end F oper ?p st)"
    by (simp add: LevelOp_def valid_pos_def norm_pos_def Let_def nat_add_distrib pos del: level_loop.simps cong: if_cong)
  have "levelled pre post d oper (length ys) ns [] (level_loop F rm oper ?p ?p ?st)"
    using level_loop_ints [OF assms(1,2), of ?st "[]" oper "[]" post ?p F rm] ne fo by (simp del: level_loop.simps)
  then obtain r xs st leave where r: "level_loop F rm oper ?p ?p ?st = Ret (st, leave)" "wf_IntNum r"
      "intnum_val r = rval oper (List.map intnum_val ns)" "length xs = length ys" "ls_diags st = []"
      "if leave then \<not> isUnary oper \<and> (\<exists>t. isEmpty t \<and> ls_terms st = pre @ xs @ t # post \<and> Cleanup xs = [int_at d r])
       else ls_terms st = pre @ xs @ op_at d oper 1 # post \<and> held (length pre) (d + 1) xs [r] (ls_int st) \<and> ls_flt st = None"
    by (auto simp: levelled_def)
  show ?thesis
  proof (cases leave)
    case True
    then obtain t where t: "\<not> isUnary oper" "isEmpty t" "ls_terms st = pre @ xs @ t # post" "Cleanup xs = [int_at d r]" using r(6) by auto
    from cs have "intnum_val r = v"
    proof cases
      case un
      then show ?thesis using t(1) by (auto simp: isUnary_def)
    qed (use r(3) in simp)
    then show ?thesis unfolding collapsed_def L r(1) using r(2,4,5) t True
      by (intro exI [of _ "xs @ [t]"] exI [of _ r]) simp
  next
    case False
    note f = r(6) [unfolded if_not_P [OF False]]
    from cs obtain u xs' t where "level_end F oper ?p st = Ret (pre @ xs' @ t # post, [])" "length xs' = length xs" "isEmpty t" "Cleanup xs' = [int_at d u]"
       "wf_IntNum u" "intnum_val u = v"
    proof cases
      case (un a)
      then have "calc_domain oper r (SV 0)" by (auto simp: calc_domain_def less_Op_def)
      then obtain u where "Calc1 oper r = Ret u" "wf_IntNum u" "intnum_val u = v"
        using intnum.returns [of r "SV 0" oper] r(2,3) un Calc1_eq [of oper r] by (auto simp: sv_range_def limits)
      then show ?thesis using level_end_unary [where st = st and r = r and v = u and F = F and pre = pre and xs = xs and d = d and oper = oper and post = post] f r(4,5) un(2) that by auto
    next
      case nary
      then show ?thesis using level_end_binary [OF assms(1), where st = st and r = r and i = "ls_int st" and F = F and xs = xs and oper = oper and post = post] f r(2-5) that by auto
    qed
    then show ?thesis unfolding collapsed_def L r(1) using r(4) False
      by (intro exI [of _ "xs' @ [t]"] exI [of _ u]) simp
  qed
qed

section \<open>Simplifying a tree of numbers\<close>

definition int_leaf :: "'f term_data \<Rightarrow> IntNum option" where
  "int_leaf x = (case x of T_INT n \<Rightarrow> Some n | _ \<Rightarrow> None)"

lemma stops_mono: "stops d pre \<Longrightarrow> d \<le> e \<Longrightarrow> stops e pre"
  by (auto simp: stops_def split: list.splits)

lemma simplify_loop_append:
  "simplify_loop F rm (ps @ qs) terms =
     bind_out (simplify_loop F rm ps terms) (\<lambda>(t1, ds). bind_out (simplify_loop F rm qs t1) (\<lambda>(t2, ds'). Ret (t2, ds @ ds')))"
  by (induction ps arbitrary: terms) (simp_all add: bind_out_assoc case_prod_unfold)

lemma simplify_skip:
  assumes "list_all (\<lambda>t. \<not> isOp t) xs"
  shows "simplify_loop F rm [length pre..<length pre + length xs] (pre @ xs @ post) = Ret (pre @ xs @ post, [])"
proof -
  have a: "\<forall>p \<in> set ps. \<not> isOp (ts ! p) \<Longrightarrow> simplify_loop F rm ps ts = Ret (ts, [])" for ps and ts :: "'a Expr"
    by (induction ps) auto
  show ?thesis by (rule a) (use assms in \<open>auto simp: nth_append list_all_length\<close>)
qed

lemma upt_split: "[length pre..<length pre + length (xs @ ys)] = [length pre..<length pre + length xs] @ [length (pre @ xs)..<length (pre @ xs) + length ys]"
  using upt_add_eq_append [of "length pre" "length pre + length xs" "length ys"] by (simp add: add.assoc)

lemma Cleanup_split: "Cleanup xs = as @ bs \<Longrightarrow> \<exists>ys zs. xs = ys @ zs \<and> Cleanup ys = as \<and> Cleanup zs = bs"
proof (induction xs arbitrary: as)
  case (Cons x xs)
  consider "as = []" | "isEmpty x" | a as' where "\<not> isEmpty x" "as = a # as'" by (cases as) auto
  then show ?case
  proof cases
    case 1
    then show ?thesis using Cons.prems by (intro exI [of _ "[]"] exI [of _ "x # xs"]) simp
  next
    case 2
    then obtain ys zs where "xs = ys @ zs" "Cleanup ys = as" "Cleanup zs = bs" using Cons by fastforce
    then show ?thesis using 2 by (intro exI [of _ "x # ys"] exI [of _ zs]) simp
  next
    case 3
    then obtain ys zs where "xs = ys @ zs" "Cleanup ys = as'" "Cleanup zs = bs" "x = a" using Cons.IH [of as'] Cons.prems by fastforce
    then show ?thesis using 3 by (intro exI [of _ "x # ys"] exI [of _ zs]) simp
  qed
qed simp

lemma empty_no_op: "Cleanup zs = [] \<Longrightarrow> list_all (\<lambda>t. \<not> isOp t) zs"
  unfolding Cleanup_Nil by (auto simp: list_all_iff isEmpty_def isOp_def split: term_data.splits)

lemma simplify_children:
  assumes "list_all2 (\<lambda>t v. \<forall>d xs pre post. Cleanup xs = flatten d t \<longrightarrow> stops d pre \<longrightarrow>
         collapsed pre post d (length xs) v (simplify_loop F rm [length pre..<length pre + length xs] (pre @ xs @ post))) ts vs"
    and "Cleanup ys = concat (List.map (flatten (d + 1)) ts)" "stops (d + 1) pre"
  shows "\<exists>ys' ns. simplify_loop F rm [length pre..<length pre + length ys] (pre @ ys @ post) = Ret (pre @ ys' @ post, []) \<and>
     length ys' = length ys \<and> Cleanup ys' = List.map (int_at (d + 1)) ns \<and> list_all wf_IntNum ns \<and> List.map intnum_val ns = vs"
  using assms
proof (induction ts vs arbitrary: pre ys rule: list_all2_induct)
  case Nil
  then show ?case using simplify_skip [OF empty_no_op] by (intro exI [of _ ys] exI [of _ "[]"]) auto
next
  case (Cons t ts v vs)
  then obtain y1 y2 where y: "ys = y1 @ y2" "Cleanup y1 = flatten (d + 1) t" "Cleanup y2 = concat (List.map (flatten (d + 1)) ts)"
    using Cleanup_split [of ys "flatten (d + 1) t" "concat (List.map (flatten (d + 1)) ts)"] by auto
  obtain z r where z: "simplify_loop F rm [length pre..<length pre + length y1] (pre @ y1 @ y2 @ post) = Ret (pre @ z @ y2 @ post, [])"
    "length z = length y1" "Cleanup z = [int_at (d + 1) r]" "wf_IntNum r" "intnum_val r = v"
    using Cons.hyps(1) y(2) Cons.prems(2) unfolding collapsed_def by blast
  have "stops (d + 1) (pre @ z)" using z(3) by (simp add: stops_append)
  then obtain ys' ns where ys: "simplify_loop F rm [length (pre @ z)..<length (pre @ z) + length y2] ((pre @ z) @ y2 @ post) = Ret ((pre @ z) @ ys' @ post, [])"
     "length ys' = length y2" "Cleanup ys' = List.map (int_at (d + 1)) ns" "list_all wf_IntNum ns" "List.map intnum_val ns = vs"
    using Cons.IH [OF y(3)] by blast
  have "simplify_loop F rm [length pre..<length pre + length ys] (pre @ ys @ post) = Ret (pre @ (z @ ys') @ post, [])"
    unfolding y(1) upt_split simplify_loop_append using z(1,2) ys(1) by simp
  then show ?case using z ys y(1) by (intro exI [of _ "z @ ys'"] exI [of _ "r # ns"]) simp
qed

definition plain_ops :: "'f tree \<Rightarrow> bool" where
  "plain_ops t \<longleftrightarrow> set (tree_ops t) \<inter> {Op_NEG, Op_LAND, Op_LOR, Op_SEGOFF} = {}"

lemma simplify_tree:
  assumes "wf_tree t" "plain_ops t" "tree_val int_leaf t = Some v" "Cleanup xs = flatten d t" "stops d pre"
  shows "collapsed pre post d (length xs) v (simplify_loop F rm [length pre..<length pre + length xs] (pre @ xs @ post))"
  using assms
proof (induction t arbitrary: v d xs pre post)
  case (Leaf x)
  then obtain n where n: "x = T_INT n" "wf_IntNum n" "intnum_val n = v"
    by (auto simp: int_leaf_def bind_eq_Some_conv split: term_data.splits if_splits)
  obtain z1 z2 where "xs = z1 @ int_at d n # z2" "Cleanup z1 = []" "Cleanup z2 = []"
    using Leaf.prems(4) n(1) unfolding Cleanup_def by (auto simp: filter_eq_Cons_iff Cleanup_def)
  then have "list_all (\<lambda>t. \<not> isOp t) xs" using empty_no_op [of z1] empty_no_op [of z2] by simp
  then show ?case using simplify_skip [of xs F rm pre post] Leaf.prems(4) n unfolding collapsed_def by (intro exI [of _ xs] exI [of _ n]) simp
next
  case (Node oper ts)
  then obtain vs where vs: "list_all2 (\<lambda>t v. tree_val int_leaf t = Some v) ts vs" "op_val oper vs = Some v"
    by (auto simp: bind_eq_Some_conv those_Some list_all2_map1)
  have ok: "\<forall>t \<in> set ts. wf_tree t \<and> plain_ops t" "arity_ok oper (length ts)" "oper \<notin> {Op_NEG, Op_LAND, Op_LOR, Op_SEGOFF}"
    using Node.prems(1,2) by (auto simp: plain_ops_def list_all_iff)
  have IH: "list_all2 (\<lambda>t v. \<forall>d xs pre post. Cleanup xs = flatten d t \<longrightarrow> stops d pre \<longrightarrow>
         collapsed pre post d (length xs) v (simplify_loop F rm [length pre..<length pre + length xs] (pre @ xs @ post))) ts vs"
    by (rule list.rel_mono_strong [OF vs(1)]) (use ok(1) Node.IH in blast)
  obtain ys zs where xs: "xs = ys @ op_at d oper (length ts) # zs" "Cleanup ys = concat (List.map (flatten (d + 1)) ts)" "Cleanup zs = []"
  proof -
    obtain ys y2 where y: "xs = ys @ y2" "Cleanup ys = concat (List.map (flatten (d + 1)) ts)" "Cleanup y2 = [op_at d oper (length ts)]"
      using Cleanup_split [of xs "concat (List.map (flatten (d + 1)) ts)" "[op_at d oper (length ts)]"] Node.prems(4) by auto
    then obtain z1 zs where "y2 = z1 @ op_at d oper (length ts) # zs" "Cleanup z1 = []" "Cleanup zs = []"
      unfolding Cleanup_def by (auto simp: filter_eq_Cons_iff)
    then show thesis using that [of "ys @ z1" zs] y by simp
  qed
  obtain ys' ns where ch: "simplify_loop F rm [length pre..<length pre + length ys] (pre @ ys @ op_at d oper (length ts) # zs @ post) =
        Ret (pre @ ys' @ op_at d oper (length ts) # zs @ post, [])"
      "length ys' = length ys" "Cleanup ys' = List.map (int_at (d + 1)) ns" "list_all wf_IntNum ns" "List.map intnum_val ns = vs"
    using simplify_children [OF IH xs(2) stops_mono [OF Node.prems(5)], of "op_at d oper (length ts) # zs @ post"] by auto
  have len: "length ts = length ns" using vs(1) ch(5) by (auto dest: list_all2_lengthD)
  obtain u r where u: "LevelOp F rm (pre @ ys' @ op_at d oper (length ts) # zs @ post) (int (length pre + length ys')) = Ret (pre @ u @ zs @ post, [])"
      "length u = Suc (length ys')" "Cleanup u = [int_at d r]" "wf_IntNum r" "intnum_val r = v"
    using LevelOp_ints [OF Node.prems(5) ch(3,4), of oper v "zs @ post" F rm] vs(2) ch(5) ok(2,3) len unfolding collapsed_def by auto
  have up: "[length pre..<length pre + length xs] = [length pre..<length pre + length ys] @ [length pre + length ys] @ [length (pre @ u)..<length (pre @ u) + length zs]"
    using upt_split [of pre ys "op_at d oper (length ts) # zs"] upt_conv_Cons [of "length pre + length ys" "length pre + length xs"] ch(2) u(2) xs(1)
    by (simp del: upt_Suc add: add.assoc)
  have "simplify_loop F rm [length (pre @ u)..<length (pre @ u) + length zs] ((pre @ u) @ zs @ post) = Ret ((pre @ u) @ zs @ post, [])"
    by (rule simplify_skip [OF empty_no_op [OF xs(3)]])
  then have "simplify_loop F rm [length pre..<length pre + length xs] (pre @ xs @ post) = Ret (pre @ (u @ zs) @ post, [])"
    unfolding up simplify_loop_append using ch(1,2) u(1) xs(1) by (simp add: nth_append)
  then show ?case unfolding collapsed_def using u ch(2) xs by (intro exI [of _ "u @ zs"] exI [of _ r]) simp
qed

end
