(* ===== verification/Simplify_Correct.thy ===== *)
theory Simplify_Correct
  imports Simplify_Level
begin

text \<open>
  \<open>TransformNeg\<close> as a function on trees, and the correctness of \<open>Simplify\<close> on expressions of
  integers.  A walk that is stopped and resumed is the walk that is not stopped, so that the walk
  consumes the vector tree by tree.
\<close>

unbundle bit_operations_syntax

section \<open>Pushing negations down\<close>

text \<open>The part of the loop of \<open>TransformNegImpl\<close> that does not depend on where it stops.\<close>

definition neg_step :: "'f float_ops \<Rightarrow> int \<Rightarrow> bool \<Rightarrow> 'f ExprTerm \<Rightarrow> 'f Expr \<Rightarrow> 'f Expr \<Rightarrow> ('f Expr \<times> 'f Expr) outcome" where
  "neg_step F delta negating child left right =
     (let d = m_depth child; oper = getOp child in
      if oper = Op_NEG then TransformNegImpl F d (delta - 1) (\<not> negating) left (Clear child # right)
      else if oper = Op_SUB
      then bind_out (TransformNegImpl F (d + 1) delta (\<not> negating) left (child\<lparr>t_data := T_OP Op_ADD (getNumChild child)\<rparr> # right)) (\<lambda>(l, r).
             TransformNegImpl F (d + 1) delta negating l r)
      else if \<not> negating then Ret (left, child # right)
      else if oper = Op_ADD then neg_times F (nat (getNumChild child)) (d + 1) delta True left (child # right)
      else if oper = Op_MUL
      then Ret (left, mk_term (T_INT (SV (-1))) (d + 1) # mk_term (T_OP Op_MUL (getNumChild child + 1)) d # right)
      else (case getIntNum child of
              Some n \<Rightarrow> bind_out (CalcAssert Op_NEG n None) (\<lambda>m. Ret (left, setIntNum m child # right))
            | None \<Rightarrow> (case getFloat child of
              Some f \<Rightarrow> Ret (left, child\<lparr>t_data := T_FLOAT (fo_neg F f)\<rparr> # right)
            | None \<Rightarrow> neg_times F (nat (getNumChild child)) (d + 2) (delta + 1) False left
                   (add_depth 1 child # mk_term (T_INT (SV (-1))) (d + 1) # mk_term (T_OP Op_MUL 2) d # right))))"

lemma TransformNegImpl_step:
  "TransformNegImpl F s delta negating (t # left) right =
     (if isEmpty t then TransformNegImpl F s delta negating left (t # right)
      else bind_out (neg_step F delta negating (add_depth delta t) left right) (\<lambda>(l, r).
        if m_depth t + delta \<le> s then Ret (l, r) else TransformNegImpl F s delta negating l r))"
  by (simp only: TransformNegImpl.simps(2) neg_step_def Let_def add_depth_simps(1))

declare TransformNegImpl.simps(2) [simp del]

lemma neg_suffix:
  shows "TransformNegImpl F s delta negating left right = Ret (l, r) \<Longrightarrow> \<exists>u. left = u @ l \<and> (left \<noteq> [] \<longrightarrow> u \<noteq> [])"
    and "neg_times F k s delta negating left right = Ret (l, r) \<Longrightarrow> \<exists>u. left = u @ l"
proof (induction F s delta negating left right and F k s delta negating left right arbitrary: l r and l r rule: TransformNegImpl_neg_times.induct)
  case (2 F s delta negating t left right)
  show ?case
  proof (cases "isEmpty t")
    case True
    then show ?thesis using 2(1) [OF True] 2(8) by (fastforce simp: TransformNegImpl_step)
  next
    case False
    let ?c = "add_depth delta t"
    note IH = 2(2-7) [OF False refl refl refl]
    obtain l1 r1 where st: "neg_step F delta negating ?c left right = Ret (l1, r1)"
      and fin: "(if m_depth ?c \<le> s then Ret (l1, r1) else TransformNegImpl F s delta negating l1 r1) = Ret (l, r)"
      using 2(8) False by (auto simp: TransformNegImpl_step bind_out_Ret_iff)
    consider "getOp ?c = Op_NEG" | "getOp ?c = Op_SUB" | "getOp ?c \<noteq> Op_NEG" "getOp ?c \<noteq> Op_SUB" "\<not> negating"
      | "getOp ?c = Op_ADD" negating | "getOp ?c = Op_MUL" negating | "getOp ?c \<notin> {Op_NEG, Op_SUB, Op_ADD, Op_MUL}" negating by blast
    then have "\<exists>u. left = u @ l1"
    proof cases
      case 1
      then show ?thesis using st IH(1) by (fastforce simp: neg_step_def Let_def)
    next
      case c: 2
      then obtain l2 r2 where a: "TransformNegImpl F (m_depth ?c + 1) delta (\<not> negating) left (?c\<lparr>t_data := T_OP Op_ADD (getNumChild ?c)\<rparr> # right) = Ret (l2, r2)"
        "TransformNegImpl F (m_depth ?c + 1) delta negating l2 r2 = Ret (l1, r1)" using st by (auto simp: neg_step_def Let_def bind_out_Ret_iff)
      have "\<exists>u. left = u @ l2" using IH(2) [OF _ c a(1)] c by auto
      moreover have "\<exists>u. l2 = u @ l1" using IH(3) [OF _ c a(1) refl a(2)] c by auto
      ultimately show ?thesis by auto
    next
      case 4
      then show ?thesis using st IH(4) by (fastforce simp: neg_step_def Let_def)
    next
      case 6
      then show ?thesis using st IH(5) by (auto simp: neg_step_def Let_def bind_out_Ret_iff split: option.splits)
    qed (use st in \<open>auto simp: neg_step_def Let_def\<close>)
    moreover have "\<exists>u. l1 = u @ l"
    proof (cases "m_depth ?c \<le> s")
      case deep: False
      then show ?thesis using IH(6) [OF st [unfolded neg_step_def Let_def] refl deep, of l r] fin by auto
    qed (use fin in simp)
    ultimately show ?thesis by auto
  qed
qed (fastforce simp: bind_out_Ret_iff)+

abbreviation walk :: "'f float_ops \<Rightarrow> 'f Expr \<Rightarrow> 'f Expr \<Rightarrow> ('f Expr \<times> 'f Expr) outcome" where
  "walk F left right \<equiv> TransformNegImpl F (-1) 0 False left right"

text \<open>A walk that stops early and goes on is the walk that does not stop.\<close>

lemma walk_after:
  assumes "list_all (\<lambda>t. 0 \<le> m_depth t) left"
  shows "bind_out (TransformNegImpl F s 0 False left right) (\<lambda>(l, r). walk F l r) = walk F left right"
  using assms
proof (induction "length left" arbitrary: left right rule: less_induct)
  case less
  show ?case
  proof (cases left)
    case (Cons t rest)
    show ?thesis
    proof (cases "isEmpty t")
      case True
      then show ?thesis using less.hyps [of rest] less.prems Cons by (simp add: TransformNegImpl_step)
    next
      case False
      show ?thesis
      proof (cases "neg_step F 0 False t rest right")
        case (Ret x)
        obtain l r where x: "x = (l, r)" by (cases x)
        then have "TransformNegImpl F (m_depth t) 0 False (t # rest) right = Ret (l, r)" using Ret False by (simp add: TransformNegImpl_step)
        then obtain u where u: "t # rest = u @ l" "u \<noteq> []" using neg_suffix(1) by blast
        then have "rest = tl u @ l" by (cases u) auto
        then have "length l < length left" "list_all (\<lambda>t. 0 \<le> m_depth t) l" using less.prems Cons by auto
        then show ?thesis using less.hyps [of l r] Ret False x Cons less.prems by (simp add: TransformNegImpl_step)
      qed (use False Cons in \<open>simp_all add: TransformNegImpl_step\<close>)
    qed
  qed simp
qed

definition neg_int :: "IntNum \<Rightarrow> IntNum" where
  "neg_int n = (case CalcAssert Op_NEG n None of Ret m \<Rightarrow> m | _ \<Rightarrow> n)"

definition negatable :: "IntNum \<Rightarrow> bool" where
  "negatable n \<longleftrightarrow> wf_IntNum n \<and> intnum_val n \<noteq> SV_MIN"

lemma neg_int_value:
  assumes "negatable n"
  shows "CalcAssert Op_NEG n None = Ret (neg_int n) \<and> wf_IntNum (neg_int n) \<and> intnum_val (neg_int n) = wrap256 (- intnum_val n)"
proof -
  have "calc_domain Op_NEG n (SV 0)" using assms by (simp add: calc_domain_def negatable_def less_Op_def)
  then obtain r where "Calc1 Op_NEG n = Ret r" "wf_IntNum r" "intnum_val r = wrap256 (- intnum_val n)"
    using intnum.returns [of n "SV 0" Op_NEG] assms Calc1_eq [of Op_NEG n] by (auto simp: calc_spec_def negatable_def sv_range_def limits)
  then show ?thesis by (simp add: neg_int_def CalcAssert_def Calc1_def)
qed

text \<open>Sums of numbers, and the trees whose negations the code pushes down correctly.\<close>

fun sum_tree :: "'f tree \<Rightarrow> bool" where
  "sum_tree (Leaf x) = (case x of T_INT n \<Rightarrow> negatable n | _ \<Rightarrow> False)"
| "sum_tree (Node oper ts) = (oper = Op_ADD \<and> list_all sum_tree ts)"

fun neg_sum :: "'f tree \<Rightarrow> 'f tree" where
  "neg_sum (Leaf x) = Leaf (case x of T_INT n \<Rightarrow> T_INT (neg_int n) | _ \<Rightarrow> x)"
| "neg_sum (Node oper ts) = Node oper (List.map neg_sum ts)"

lemma neg_times_blocks:
  assumes "\<And>t left right. t \<in> set ts \<Longrightarrow> TransformNegImpl F s delta True (rev (B t) @ left) right = Ret (left, B' t @ right)"
  shows "neg_times F (length ts) s delta True (rev (concat (List.map B ts)) @ left) right = Ret (left, concat (List.map B' ts) @ right)"
  using assms by (induction ts arbitrary: right rule: rev_induct) auto

lemma neg_sum_consumed:
  assumes "sum_tree t" "d + delta \<le> s"
  shows "TransformNegImpl F s delta True (rev (flatten d t) @ left) right = Ret (left, flatten (d + delta) (neg_sum t) @ right)"
  using assms
proof (induction t arbitrary: d s left right)
  case (Leaf x)
  then obtain n where "x = T_INT n" "negatable n" by (auto split: term_data.splits)
  then show ?case using Leaf.prems(2) neg_int_value [of n]
    by (simp add: TransformNegImpl_step neg_step_def Let_def) (simp add: mk_term_def getOp_def)
next
  case (Node oper ts)
  have "neg_times F (length ts) (d + delta + 1) delta True (rev (concat (List.map (flatten (d + 1)) ts)) @ left) (op_at (d + delta) Op_ADD (length ts) # right) =
      Ret (left, concat (List.map (\<lambda>t. flatten (d + 1 + delta) (neg_sum t)) ts) @ op_at (d + delta) Op_ADD (length ts) # right)"
    by (rule neg_times_blocks) (use Node in \<open>auto simp: list_all_iff\<close>)
  then show ?case using Node.prems by (simp add: TransformNegImpl_step neg_step_def Let_def comp_def ac_simps)
qed

definition is_mul :: "'f tree \<Rightarrow> bool" where
  "is_mul t \<longleftrightarrow> (case t of Node oper ts \<Rightarrow> oper = Op_MUL | Leaf x \<Rightarrow> False)"

fun tame :: "'f tree \<Rightarrow> bool" where
  "tame (Leaf x) = True"
| "tame (Node oper ts) =
     (oper \<notin> {Op_LAND, Op_LOR, Op_SEGOFF} \<and> list_all tame ts \<and> (oper = Op_NEG \<longrightarrow> list_all sum_tree ts) \<and>
      (oper = Op_SUB \<longrightarrow> sum_tree (last ts) \<or> is_mul (last ts)))"

text \<open>The tree after the transformation.\<close>

definition times_neg1 :: "'f tree \<Rightarrow> 'f tree" where
  "times_neg1 t = (case t of Node oper ts \<Rightarrow> Node oper (ts @ [Leaf (T_INT (SV (-1)))]) | Leaf x \<Rightarrow> t)"

fun push_neg :: "'f tree \<Rightarrow> 'f tree" where
  "push_neg (Leaf x) = Leaf x"
| "push_neg (Node oper ts) =
     (if oper = Op_NEG then neg_sum (hd ts)
      else if oper = Op_SUB
      then Node Op_ADD [hd (List.map push_neg ts), if is_mul (last ts) then times_neg1 (last (List.map push_neg ts)) else neg_sum (last ts)]
      else Node oper (List.map push_neg ts))"

lemma neg_sum_wf: "sum_tree t \<Longrightarrow> wf_tree t \<Longrightarrow> wf_tree (neg_sum t)"
  by (induction t) (auto simp: list_all_iff leaf_ok_def split: term_data.splits)

lemma Cleanup_flatten: "wf_tree t \<Longrightarrow> Cleanup (flatten d t) = flatten d t"
  by (rule Cleanup_nonempty) (rule flatten_nonempty)

definition walked :: "'f float_ops \<Rightarrow> 'f Expr \<Rightarrow> 'f Expr \<Rightarrow> bool" where
  "walked F B C \<longleftrightarrow> (\<exists>B'. Cleanup B' = C \<and>
     (\<forall>left right. list_all (\<lambda>t. 0 \<le> m_depth t) left \<longrightarrow> walk F (rev B @ left) right = walk F left (B' @ right)))"

lemma walked_append:
  assumes "walked F A A'" "walked F B B'" "list_all (\<lambda>t. 0 \<le> m_depth t) A"
  shows "walked F (A @ B) (A' @ B')"
proof -
  obtain A2 B2 where "Cleanup A2 = A'" "Cleanup B2 = B'"
    "\<And>left right. list_all (\<lambda>t. 0 \<le> m_depth t) left \<Longrightarrow> walk F (rev A @ left) right = walk F left (A2 @ right)"
    "\<And>left right. list_all (\<lambda>t. 0 \<le> m_depth t) left \<Longrightarrow> walk F (rev B @ left) right = walk F left (B2 @ right)"
    using assms(1,2) unfolding walked_def by blast
  then show ?thesis using assms(3) unfolding walked_def by (intro exI [of _ "A2 @ B2"]) simp
qed

lemma walked_blocks:
  assumes "\<And>t. t \<in> set ts \<Longrightarrow> walked F (flatten d t) (flatten d (f t))" "0 \<le> d"
  shows "walked F (concat (List.map (flatten d) ts)) (concat (List.map (flatten d) (List.map f ts)))"
  using assms(1)
proof (induction ts)
  case (Cons t ts)
  have "list_all (\<lambda>t. 0 \<le> m_depth t) (flatten d t)" using flatten_depth assms(2) by (fastforce simp: list_all_iff)
  then show ?case using Cons by (simp add: walked_append)
qed (auto simp: walked_def intro: exI [of _ "[]"])

lemma flatten_depths: "0 \<le> d \<Longrightarrow> list_all (\<lambda>t. 0 \<le> m_depth t) (flatten d t)"
  using flatten_depth by (fastforce simp: list_all_iff)

text \<open>What one step of the walk does before it goes on with the terms below.\<close>

lemma walk_op:
  assumes "oper \<noteq> Op_NEG" "oper \<noteq> Op_SUB" "0 \<le> d"
  shows "walk F (op_at d oper k # left) right = walk F left (op_at d oper k # right)"
  using assms by (simp add: TransformNegImpl_step neg_step_def Let_def)

lemma walk_leaf:
  assumes "leaf_ok x" "0 \<le> d"
  shows "walk F (mk_term x d # left) right = walk F left (mk_term x d # right)"
proof -
  have "\<not> isEmpty (mk_term x d)" "getOp (mk_term x d) = Op_NONNUM" using assms(1)
    by (auto simp: leaf_ok_def isEmpty_def getOp_def mk_term_def split: term_data.splits)
  then show ?thesis using assms(2) by (simp add: TransformNegImpl_step neg_step_def Let_def)
qed

lemma walk_neg:
  assumes "sum_tree b" "0 \<le> d"
  shows "walk F (op_at d Op_NEG k # rev (flatten (d + 1) b) @ left) right = walk F left (flatten d (neg_sum b) @ Clear (op_at d Op_NEG k) # right)"
  using assms neg_sum_consumed [OF assms(1), of "d + 1" "-1" d F left] by (simp add: TransformNegImpl_step neg_step_def Let_def)

lemma sub_to_add: "(op_at d Op_SUB k)\<lparr>t_data := T_OP Op_ADD (int k)\<rparr> = op_at d Op_ADD k"
  by (simp add: mk_term_def)

lemma walk_sub:
  assumes "0 \<le> d" "list_all (\<lambda>t. 0 \<le> m_depth t) l"
    and "TransformNegImpl F (d + 1) 0 True left (op_at d Op_ADD k # right) = Ret (l, r)"
  shows "walk F (op_at d Op_SUB k # left) right = walk F l r"
  using assms walk_after [OF assms(2), of F "d + 1" r]
  by (simp add: TransformNegImpl_step neg_step_def Let_def bind_out_assoc case_prod_unfold sub_to_add)

lemma walk_sub_mul:
  assumes "0 \<le> d"
  shows "TransformNegImpl F (d + 1) 0 True (op_at (d + 1) Op_MUL k # left) right =
    Ret (left, int_at (d + 2) (SV (-1)) # op_at (d + 1) Op_MUL (Suc k) # right)"
  using assms by (simp add: TransformNegImpl_step neg_step_def Let_def add.commute)

lemma walked_sub:
  assumes "walked F (flatten (d + 1) a) (flatten (d + 1) a')" "0 \<le> d"
    and "sum_tree b \<and> wf_tree b \<and> b' = neg_sum b \<or>
      (\<exists>us us'. b = Node Op_MUL us \<and> b' = Node Op_MUL (us' @ [Leaf (T_INT (SV (-1)))]) \<and> length us' = length us \<and>
         walked F (concat (List.map (flatten (d + 2)) us)) (concat (List.map (flatten (d + 2)) us')))"
  shows "walked F (flatten d (Node Op_SUB [a, b])) (flatten d (Node Op_ADD [a', b']))"
proof -
  obtain A where A: "Cleanup A = flatten (d + 1) a'"
    "\<And>left right. list_all (\<lambda>t. 0 \<le> m_depth t) left \<Longrightarrow> walk F (rev (flatten (d + 1) a) @ left) right = walk F left (A @ right)"
    using assms(1) unfolding walked_def by blast
  have da: "list_all (\<lambda>t. 0 \<le> m_depth t) (rev (flatten (d + 1) a))" using flatten_depths [of "d + 1" a] assms(2) by (simp add: list_all_iff)
  from assms(3) show ?thesis
  proof (elim disjE exE conjE)
    assume b: "sum_tree b" "wf_tree b" "b' = neg_sum b"
    have "walk F (rev (flatten d (Node Op_SUB [a, b])) @ left) right = walk F left ((A @ flatten (d + 1) b' @ [op_at d Op_ADD 2]) @ right)"
      if "list_all (\<lambda>t. 0 \<le> m_depth t) left" for left right
      using walk_sub [OF assms(2) _ neg_sum_consumed [OF b(1), of "d + 1" 0 "d + 1" F "rev (flatten (d + 1) a) @ left" "op_at d Op_ADD 2 # right"]] A(2) that b(3) da
      by simp
    moreover have "Cleanup (A @ flatten (d + 1) b' @ [op_at d Op_ADD 2]) = flatten d (Node Op_ADD [a', b'])"
      using A(1) b by (simp add: Cleanup_flatten neg_sum_wf)
    ultimately show ?thesis unfolding walked_def by blast
  next
    fix us us'
    assume b: "b = Node Op_MUL us" "b' = Node Op_MUL (us' @ [Leaf (T_INT (SV (-1)))])" "length us' = length us"
      "walked F (concat (List.map (flatten (d + 2)) us)) (concat (List.map (flatten (d + 2)) us'))"
    obtain U where U: "Cleanup U = concat (List.map (flatten (d + 2)) us')"
      "\<And>left right. list_all (\<lambda>t. 0 \<le> m_depth t) left \<Longrightarrow> walk F (rev (concat (List.map (flatten (d + 2)) us)) @ left) right = walk F left (U @ right)"
      using b(4) unfolding walked_def by blast
    have du: "list_all (\<lambda>t. 0 \<le> m_depth t) (rev (concat (List.map (flatten (d + 2)) us)))"
      using flatten_depths [of "d + 2"] assms(2) by (auto simp: list_all_iff)
    let ?B = "A @ U @ [int_at (d + 2) (SV (-1)), op_at (d + 1) Op_MUL (Suc (length us)), op_at d Op_ADD 2]"
    have "walk F (rev (flatten d (Node Op_SUB [a, b])) @ left) right = walk F left (?B @ right)"
      if "list_all (\<lambda>t. 0 \<le> m_depth t) left" for left right
      using walk_sub [OF assms(2) _ walk_sub_mul [OF assms(2), of F "length us" "rev (concat (List.map (flatten (d + 2)) us)) @ rev (flatten (d + 1) a) @ left" "op_at d Op_ADD 2 # right"]]
        A(2) U(2) that b(1) da du by (simp add: add.assoc)
    moreover have "Cleanup ?B = flatten d (Node Op_ADD [a', b'])" using A(1) U(1) b by (simp add: add.assoc add.commute)
    ultimately show ?thesis unfolding walked_def by blast
  qed
qed

lemma walked_tree:
  assumes "wf_tree t" "tame t" "0 \<le> d"
  shows "walked F (flatten d t) (flatten d (push_neg t))"
  using assms
proof (induction t arbitrary: d rule: measure_induct_rule [of size])
  case (less t)
  show ?case
  proof (cases t)
    case (Leaf x)
    then have "leaf_ok x" "\<not> isEmpty (mk_term x d)" using less.prems(1) by (auto simp: isEmpty_def mk_term_def leaf_ok_def split: term_data.splits)
    then show ?thesis using Leaf less.prems(3) walk_leaf [of x d F] unfolding walked_def by (intro exI [of _ "[mk_term x d]"]) simp
  next
    case (Node oper ts)
    have sub: "\<And>t. t \<in> set ts \<Longrightarrow> wf_tree t \<and> tame t" using less.prems Node by (auto simp: list_all_iff)
    have ch: "walked F (flatten e u) (flatten e (push_neg u))" if "u \<in> set ts" "0 \<le> e" for u e
      using less.IH [of u e] sub [OF that(1)] that size_list_estimation' [OF that(1), of "size u" size] Node by simp
    consider "oper = Op_NEG" | "oper = Op_SUB" | "oper \<noteq> Op_NEG" "oper \<noteq> Op_SUB" by blast
    then show ?thesis
    proof cases
      case 1
      then obtain b where b: "ts = [b]" "sum_tree b" "wf_tree b"
        using less.prems Node by (auto simp: arity_ok_def isUnary_def isAssociative_def length_Suc_conv split: if_splits)
      then show ?thesis using 1 Node walk_neg [OF b(2) less.prems(3), of F 1] unfolding walked_def
        by (intro exI [of _ "flatten d (neg_sum b) @ [Clear (op_at d Op_NEG 1)]"]) (simp add: Cleanup_flatten neg_sum_wf)
    next
      case 2
      then obtain a b where ab: "ts = [a, b]"
        using less.prems Node by (auto simp: arity_ok_def isUnary_def isAssociative_def length_Suc_conv numeral_2_eq_2 split: if_splits)
      have "walked F (flatten d (Node Op_SUB [a, b])) (flatten d (Node Op_ADD [push_neg a, if is_mul b then times_neg1 (push_neg b) else neg_sum b]))"
      proof (rule walked_sub)
        show "sum_tree b \<and> wf_tree b \<and> (if is_mul b then times_neg1 (push_neg b) else neg_sum b) = neg_sum b \<or>
          (\<exists>us us'. b = Node Op_MUL us \<and> (if is_mul b then times_neg1 (push_neg b) else neg_sum b) = Node Op_MUL (us' @ [Leaf (T_INT (SV (-1)))]) \<and>
             length us' = length us \<and> walked F (concat (List.map (flatten (d + 2)) us)) (concat (List.map (flatten (d + 2)) us')))"
        proof (cases "is_mul b")
          case True
          then obtain us where us: "b = Node Op_MUL us" by (auto simp: is_mul_def split: tree.splits)
          have gr: "walked F (flatten (d + 2) u) (flatten (d + 2) (push_neg u))" if "u \<in> set us" for u
            using less.IH [of u "d + 2"] sub [of b] that size_list_estimation' [OF that, of "size u" size] less.prems(3) Node ab us by (auto simp: list_all_iff)
          have "walked F (concat (List.map (flatten (d + 2)) us)) (concat (List.map (flatten (d + 2)) (List.map push_neg us)))"
            by (rule walked_blocks) (use gr less.prems(3) in simp_all)
          then show ?thesis using True us by (intro disjI2 exI [of _ us] exI [of _ "List.map push_neg us"]) (simp add: times_neg1_def)
        next
          case False
          then show ?thesis using less.prems Node 2 ab by auto
        qed
      qed (use ch ab less.prems(3) in simp_all)
      then show ?thesis using 2 ab Node by (cases "is_mul b") simp_all
    next
      case 3
      have "walked F (concat (List.map (flatten (d + 1)) ts)) (concat (List.map (flatten (d + 1)) (List.map push_neg ts)))"
        by (rule walked_blocks) (use ch less.prems(3) in simp_all)
      then obtain B where B: "Cleanup B = concat (List.map (flatten (d + 1)) (List.map push_neg ts))"
        "\<And>left right. list_all (\<lambda>t. 0 \<le> m_depth t) left \<Longrightarrow> walk F (rev (concat (List.map (flatten (d + 1)) ts)) @ left) right = walk F left (B @ right)"
        unfolding walked_def by blast
      then show ?thesis using 3 Node walk_op [OF 3 less.prems(3), of F "length ts"] unfolding walked_def
        by (intro exI [of _ "B @ [op_at d oper (length ts)]"]) simp
    qed
  qed
qed

lemma TransformNeg_tree:
  assumes "wf_tree t" "tame t"
  shows "\<exists>B. TransformNeg F (flatten 0 t) = Ret B \<and> Cleanup B = flatten 0 (push_neg t)"
proof (cases t)
  case (Leaf x)
  then have "\<not> isOp (mk_term x 0)" "\<not> isEmpty (mk_term x 0)" using assms(1) by (auto simp: isOp_def isEmpty_def mk_term_def leaf_ok_def split: term_data.splits)
  then show ?thesis using Leaf by (simp add: TransformNeg_def)
next
  case (Node oper ts)
  obtain B where B: "Cleanup B = flatten 0 (push_neg t)"
      "\<And>left right. list_all (\<lambda>t. 0 \<le> m_depth t) left \<Longrightarrow> walk F (rev (flatten 0 t) @ left) right = walk F left (B @ right)"
    using walked_tree [OF assms, of 0 F] unfolding walked_def by auto
  have "walk F (rev (flatten 0 t)) [] = Ret ([], B)" using B(2) [of "[]" "[]"] by simp
  then show ?thesis using Node B(1) by (auto simp: TransformNeg_def Let_def)
qed

section \<open>The value is kept\<close>

lemma fold_val_append: "fold_val oper a (bs @ cs) = Option.bind (fold_val oper a bs) (\<lambda>b. fold_val oper b cs)"
  by (induction bs arbitrary: a) auto

lemma op_domain_ring: "op_domain Op_ADD a b" "op_domain Op_MUL a b" "op_domain Op_SUB a b"
  by (simp_all add: op_domain_def less_Op_def)

lemma fold_val_sum: "fold_val Op_ADD (wrap256 a) bs = Some (wrap256 (a + sum_list bs))"
  by (induction bs arbitrary: a) (auto simp: op_domain_ring calc_spec_def wrap256_ring add.assoc)

lemma tree_val_range: "tree_val leaf t = Some v \<Longrightarrow> bv_range v"
  using tree_eval_val [of leaf t v] bv_range_val by blast

lemma op_val_sum:
  assumes "list_all bv_range vs" "2 \<le> length vs"
  shows "op_val Op_ADD vs = Some (wrap256 (sum_list vs))"
proof -
  obtain a b bs where vs: "vs = a # b # bs" using assms(2) by (cases vs; cases "tl vs") auto
  then have "wrap256 a = a" using assms(1) by simp
  then show ?thesis using fold_val_sum [of a "b # bs"] vs by (simp add: op_val_def)
qed

lemma neg_sum_val:
  assumes "sum_tree t" "wf_tree t" "tree_val int_leaf t = Some v"
  shows "tree_val int_leaf (neg_sum t) = Some (wrap256 (- v))"
  using assms
proof (induction t arbitrary: v)
  case (Leaf x)
  then show ?case using neg_int_value by (auto simp: int_leaf_def split: term_data.splits if_splits)
next
  case (Node oper ts)
  then obtain vs where vs: "list_all2 (\<lambda>t v. tree_val int_leaf t = Some v) ts vs" "op_val Op_ADD vs = Some v" "oper = Op_ADD"
    by (auto simp: bind_eq_Some_conv those_Some list_all2_map1)
  have "length ts \<noteq> 0" "length ts \<noteq> 1" using Node.prems(2) vs(3) by (auto simp: arity_ok_def isUnary_def)
  then have "2 \<le> length vs" using list_all2_lengthD [OF vs(1)] by linarith
  moreover have r: "list_all bv_range vs" using vs(1) by (auto simp: list_all2_conv_all_nth list_all_length intro!: tree_val_range)
  ultimately have v: "v = wrap256 (sum_list vs)" using op_val_sum vs(2) by auto
  have "list_all2 (\<lambda>t v. tree_val int_leaf (neg_sum t) = Some v) ts (List.map (\<lambda>v. wrap256 (- v)) vs)"
    unfolding list_all2_map2 by (rule list.rel_mono_strong [OF vs(1)]) (use Node in \<open>auto simp: list_all_iff\<close>)
  then have "those (List.map (tree_val int_leaf) (List.map neg_sum ts)) = Some (List.map (\<lambda>v. wrap256 (- v)) vs)"
    by (simp add: those_Some list_all2_map1)
  moreover have "wrap256 (sum_list (List.map (\<lambda>v. wrap256 (- v)) vs)) = wrap256 (- sum_list vs)"
    unfolding wrap256_cong by (induction vs) simp_all
  moreover have "wrap256 (- sum_list vs) = wrap256 (- v)" unfolding v by (simp add: wrap256_cong)
  ultimately show ?case using op_val_sum [of "List.map (\<lambda>v. wrap256 (- v)) vs"] \<open>2 \<le> length vs\<close> vs(3) by (simp add: list_all_iff)
qed

lemma times_neg1_val:
  assumes "tree_val int_leaf (Node Op_MUL us) = Some v" "wf_tree (Node Op_MUL us)"
  shows "tree_val int_leaf (times_neg1 (Node Op_MUL us)) = Some (wrap256 (- v))"
proof -
  obtain vs where vs: "those (List.map (tree_val int_leaf) us) = Some vs" "op_val Op_MUL vs = Some v"
    using assms(1) by (auto simp: bind_eq_Some_conv)
  then have l: "list_all2 (\<lambda>t v. tree_val int_leaf t = Some v) us vs" by (simp add: those_Some list_all2_map1)
  have "length us \<noteq> 0" "length us \<noteq> 1" using assms(2) by (auto simp: arity_ok_def isUnary_def)
  then obtain a b bs where ab: "vs = a # b # bs" using list_all2_lengthD [OF l] by (cases vs; cases "tl vs") auto
  have "those (List.map (tree_val int_leaf) (us @ [Leaf (T_INT (SV (-1)))])) = Some (vs @ [-1])"
    using l by (simp add: those_Some list_all2_map1 list_all2_appendI int_leaf_def sv_range_def limits)
  then show ?thesis using vs(2) ab
    by (simp add: times_neg1_def op_val_def fold_val_append op_domain_ring calc_spec_def split: bind_splits)
qed

lemma plain_neg_sum: "sum_tree t \<Longrightarrow> plain_ops (neg_sum t)"
  by (induction t) (auto simp: plain_ops_def list_all_iff)

lemma push_neg_correct:
  assumes "wf_tree t" "tame t" "tree_val int_leaf t = Some v"
  shows "tree_val int_leaf (push_neg t) = Some v \<and> wf_tree (push_neg t) \<and> plain_ops (push_neg t)"
  using assms
proof (induction t arbitrary: v)
  case (Leaf x)
  then show ?case by (simp add: plain_ops_def)
next
  case (Node oper ts)
  obtain vs where vs: "list_all2 (\<lambda>t v. tree_val int_leaf t = Some v) ts vs" "op_val oper vs = Some v"
    using Node.prems(3) by (auto simp: bind_eq_Some_conv those_Some list_all2_map1)
  have ch: "list_all2 (\<lambda>t v. tree_val int_leaf (push_neg t) = Some v \<and> wf_tree (push_neg t) \<and> plain_ops (push_neg t)) ts vs"
    by (rule list.rel_mono_strong [OF vs(1)]) (use Node in \<open>auto simp: list_all_iff\<close>)
  consider "oper = Op_NEG" | "oper = Op_SUB" | "oper \<noteq> Op_NEG" "oper \<noteq> Op_SUB" by blast
  then show ?case
  proof cases
    case 1
    then obtain b where b: "ts = [b]" "sum_tree b" "wf_tree b"
      using Node.prems by (auto simp: arity_ok_def isUnary_def isAssociative_def length_Suc_conv split: if_splits)
    then have "v = wrap256 (- vs ! 0)" "tree_val int_leaf b = Some (vs ! 0)" using vs 1
      by (auto simp: list_all2_Cons1 op_val_def calc_spec_def split: if_splits)
    then show ?thesis using 1 b neg_sum_val [OF b(2,3)] neg_sum_wf [OF b(2,3)] plain_neg_sum [OF b(2)] by simp
  next
    case 2
    then obtain a b where ab: "ts = [a, b]"
      using Node.prems by (auto simp: arity_ok_def isUnary_def isAssociative_def length_Suc_conv numeral_2_eq_2 split: if_splits)
    then obtain x y where xy: "vs = [x, y]" "tree_val int_leaf (push_neg a) = Some x" "tree_val int_leaf b = Some y" "tree_val int_leaf (push_neg b) = Some y"
        "wf_tree (push_neg a)" "wf_tree (push_neg b)" "plain_ops (push_neg a)" "plain_ops (push_neg b)"
      using vs(1) ch by (auto simp: list_all2_Cons1)
    let ?b = "if is_mul b then times_neg1 (push_neg b) else neg_sum b"
    have "tree_val int_leaf ?b = Some (wrap256 (- y)) \<and> wf_tree ?b \<and> plain_ops ?b"
    proof (cases "is_mul b")
      case True
      then obtain us where us: "push_neg b = Node Op_MUL us" by (auto simp: is_mul_def split: tree.splits)
      have "wf_tree (times_neg1 (Node Op_MUL us))" using xy(6) us by (auto simp: times_neg1_def arity_ok_def isUnary_def isAssociative_def leaf_ok_def split: if_splits)
      moreover have "plain_ops (times_neg1 (Node Op_MUL us))" using xy(8) us by (simp add: times_neg1_def plain_ops_def)
      ultimately show ?thesis using True times_neg1_val [of us y] xy us by simp
    next
      case False
      then have "sum_tree b" "wf_tree b" using Node.prems 2 ab by auto
      then show ?thesis using False neg_sum_val [of b y] neg_sum_wf plain_neg_sum xy(3) by auto
    qed
    moreover have "op_val Op_ADD [x, wrap256 (- y)] = Some v"
      using vs(2) xy(1) 2 by (auto simp: op_val_def op_domain_ring calc_spec_def wrap256_ring)
    moreover have "push_neg (Node oper ts) = Node Op_ADD [push_neg a, ?b]" using 2 ab by simp
    ultimately show ?thesis using xy by (auto simp: plain_ops_def arity_ok_def isUnary_def simp del: push_neg.simps)
  next
    case 3
    have "those (List.map (tree_val int_leaf) (List.map push_neg ts)) = Some vs"
      using ch by (auto simp: those_Some list_all2_map1 elim: list.rel_mono_strong)
    moreover have "list_all wf_tree (List.map push_neg ts)" "\<forall>t \<in> set ts. plain_ops (push_neg t)"
      using ch by (auto simp: list_all2_conv_all_nth list_all_length in_set_conv_nth)
    ultimately show ?thesis using 3 vs(2) Node.prems by (auto simp: plain_ops_def)
  qed
qed

lemma Simplify_tree:
  assumes "wf_tree t" "tame t" "tree_val int_leaf t = Some v"
  shows "\<exists>n. Simplify F rm (flatten 0 t) = Ret ([int_at 0 n], []) \<and> wf_IntNum n \<and> intnum_val n = v"
proof -
  obtain B where B: "TransformNeg F (flatten 0 t) = Ret B" "Cleanup B = flatten 0 (push_neg t)"
    using TransformNeg_tree [OF assms(1,2)] by blast
  note p = push_neg_correct [OF assms]
  obtain xs r where "simplify_loop F rm [0..<length B] B = Ret (xs, [])" "Cleanup xs = [int_at 0 r]" "wf_IntNum r" "intnum_val r = v"
    using simplify_tree [of "push_neg t" v B 0 "[]" "[]" F rm] p B(2) unfolding collapsed_def by auto
  then show ?thesis using B(1) by (intro exI [of _ r]) (simp add: Simplify_def)
qed

section \<open>The difference of a label and a location\<close>

abbreviation sum_of :: "nat \<Rightarrow> Location \<Rightarrow> 'f Expr" where
  "sum_of n here \<equiv> [mk_term (T_SYM n) 1, mk_term (T_LOC here) 2, int_at 2 (SV (-1)), op_at 1 Op_MUL 2, op_at 0 Op_ADD 2]"

lemma TransformNeg_difference:
  "TransformNeg F (flatten 0 (Node Op_SUB [Leaf (T_SYM n), Leaf (T_LOC here)])) =
     Ret (sum_of n here)"
  by (simp add: TransformNeg_def TransformNegImpl_step neg_step_def Let_def getOp_def getIntNum_def getFloat_def getNumChild_def isEmpty_def isOp_def Clear_def)

lemmas level_simps = LevelOp_def level_loop.simps level_child_def fold_int_def level_end_def Let_def valid_pos_def norm_pos_def Contains_def
  isOp_of_def isAssociative_def isRightIdentity_def isLeftIdentity_def isConstantIdentity_def isPos1_def isZero_def isNeg1_def isUnary_def
  getIntNum_def getFloat_def getOp_def getNumChild_def isEmpty_def isOp_def upd_term_def eval_nat_numeral

lemma level_difference:
  "LevelOp F rm (sum_of n here) 3 = Ret (sum_of n here, [])" "LevelOp F rm (sum_of n here) 4 = Ret (sum_of n here, [])"
  by (simp_all add: level_simps)

lemma dist_difference:
  assumes "env_label env n = Some lab" "loc_bc lab = Some b" "loc_bc here = Some c" "env_container env b = env_container env c"
  shows "TransformDist env SubstDist_delta [] (sum_of n here) 4 =
    Ret ([mk_term (T_SUBST 0) 1, mk_term T_NONE 2, mk_term T_NONE 2, int_at 1 (SV 0), op_at 0 Op_ADD 2], [(here, lab)])"
  using assms
  by (simp add: TransformDist_def level_simps isNeg1Sym_def isType_def term_loc_def getSymbol_def SubstDist_delta_def drop_sub_def)
    (simp add: mk_term_def Clear_def Zero_def)

lemma dist_other: "TransformDist env D s (sum_of n here) 3 = Ret (sum_of n here, s)"
  by (simp add: TransformDist_def isOp_of_def)

lemma level_replaced:
  "LevelOp F rm [mk_term (T_SUBST 0) 1, mk_term T_NONE 2, mk_term T_NONE 2, int_at 1 (SV 0), op_at 0 Op_ADD 2] 4 =
    Ret ([mk_term (T_SUBST 0) 0, mk_term T_NONE 2, mk_term T_NONE 2, mk_term T_NONE 1, mk_term T_NONE (-1)], [])"
  by (simp add: level_simps ReduceDepth_def) (simp add: mk_term_def Clear_def AddNumChild_def add_depth_def)

lemma SubstDist_difference:
  assumes "env_label env n = Some lab" "loc_bc lab = Some b" "loc_bc here = Some c" "env_container env b = env_container env c"
  shows "SubstDist F env (flatten 0 (Node Op_SUB [Leaf (T_SYM n), Leaf (T_LOC here)])) = Ret ([mk_term (T_SUBST 0) 0], [(here, lab)], [])"
proof -
  have up: "[0..<length (sum_of n here :: 'a Expr)] = [0, 1, 2, 3, 4]" by (simp add: upt_rec)
  have ops: "\<not> isOp (mk_term (T_SYM n) k)" "\<not> isOp (mk_term (T_LOC here) k)" "\<not> isOp (mk_term T_NONE k)" "isEmpty (mk_term T_NONE k)"
     "\<not> isEmpty (mk_term (T_SUBST i) k)" for k i
    by (simp_all add: isOp_def isEmpty_def)
  show ?thesis
    unfolding SubstDist_def Simplify_with_def TransformNeg_difference bind_out.simps up
    using level_difference [of F True n here] level_replaced [of F True]
    by (simp add: ops Let_def dist_other [simplified] dist_difference [OF assms, simplified])
qed

section \<open>Properties\<close>

text \<open>
  C20. \<open>Simplify\<close> folds an expression of integers to one term, without a message, and the term is the value
  of the expression tree: identities and constant zeros are removed on the way, subtractions and negations turned into
  sums of negated terms.  The expression may have every operator on integers, of any arity, but the logical \<open>LAND\<close> and \<open>LOR\<close> and
  the shifts; the operand of a negation is a number or a sum of numbers; a subtracted operand is one of these or a
  product of such expressions; the operands are in the operators' domains.  On the excluded shapes \<open>Simplify\<close> can be wrong, as
  the computations below show.
\<close>

theorem Simplify_correct:
  assumes "wf_tree t" "tame t" "tree_val int_leaf t = Some v"
  shows "\<exists>n. Simplify F rm (flatten 0 t) = Ret ([int_at 0 n], []) \<and> wf_IntNum n \<and> intnum_val n = v"
  by (rule Simplify_tree [OF assms])

abbreviation no_float :: "unit float_ops" where
  "no_float \<equiv> \<lparr>fo_arith = \<lambda>oper a b. ((), 0), fo_neg = id, fo_promote = \<lambda>w. id, fo_nonzero = \<lambda>f. True\<rparr>"

theorem Simplify_correct_witness:
  "\<exists>n. Simplify no_float True (flatten 0 (Node Op_SUB [Node Op_ADD [Leaf (T_INT (SV 5)), Leaf (T_INT (SV 0)), Node Op_NOT [Leaf (T_INT (SV 8))]],
       Node Op_MUL [Leaf (T_INT (SV 3)), Node Op_SUB [Leaf (T_INT (SV 9)), Leaf (T_INT (SV 2))]]])) = Ret ([int_at 0 n], []) \<and>
     wf_IntNum n \<and> intnum_val n = -25"
  by (rule Simplify_correct)
    (simp_all add: arity_ok_def isUnary_def isAssociative_def leaf_ok_def negatable_def is_mul_def limits int_leaf_def sv_range_def op_val_def
      op_domain_def less_Op_def calc_spec_def)

text \<open>
  What the walk does to other shapes.  A product, or another operator, below a subtraction that is itself
  subtracted leaves its operands to the next call, which negates them: 10-(5-(1+1)) becomes 3.
\<close>

lemma Simplify_nested_subtraction:
  "Simplify no_float True (flatten 0 (Node Op_SUB [Leaf (T_INT (SV 10)), Node Op_SUB [Leaf (T_INT (SV 5)),
      Node Op_ADD [Leaf (T_INT (SV 1)), Leaf (T_INT (SV 1))]]])) = Ret ([int_at 0 (SV 3)], [])"
  by code_simp

lemma Evaluate_nested_subtraction:
  "Evaluate no_float \<lparr>env_label = \<lambda>s. None, env_offset = \<lambda>bc. 0, env_container = \<lambda>bc. 0\<rparr> [] False False
     (flatten 0 (Node Op_SUB [Leaf (T_INT (SV 10)), Node Op_SUB [Leaf (T_INT (SV 5)),
      Node Op_ADD [Leaf (T_INT (SV 1)), Leaf (T_INT (SV 1))]]])) = Ret (Some (int_at 0 (SV 7)), [])"
  by code_simp

lemma Simplify_logical_and:
  "Simplify no_float True (flatten 0 (Node Op_LAND [Leaf (T_INT (SV 5)), Leaf (T_INT (SV 3))])) = Ret ([int_at 0 (SV 5)], [])"
  by code_simp

lemma Simplify_negated_product:
  "Simplify no_float True (flatten 0 (Node Op_NEG [Node Op_MUL [Leaf (T_INT (SV 2)), Leaf (T_INT (SV 3))]])) \<noteq> Ret ([int_at 0 (SV (-6))], [])"
  by code_simp

end
