(* ===== verification/Optimizer_Labels.thy ===== *)
theory Optimizer_Labels
  imports Optimizer_Jumps Simplify_Correct
begin

text \<open>
  Jumps to labels.  The target of a jump inside a section is the difference of a label and the
  jump's own location; \<open>SubstDist\<close> replaces it by one placeholder, whose value the optimizer
  follows.
\<close>

unbundle bit_operations_syntax

text \<open>A span over one difference has the value of that difference.\<close>

lemma span_value_difference:
  assumes "v_abs (sp_depval s) = Some [mk_term (T_SUBST 0) 0]" "\<not> isRelative (sp_depval s)" "sp_terms s = [t]" "span_value P s = Ret (v, ds)"
    and "LONG_MIN \<le> st_new t" "st_new t \<le> LONG_MAX"
  shows "v = st_new t"
proof -
  have "sp_terms s = [t] \<Longrightarrow> span_value P s = Ret (getInt (set_s (st_new t)), [])"
    using assms(1,2) by (simp add: span_value_def Evaluate_def isType_def eval_leaf_def expr_terms_def)
  then show ?thesis using assms(3-6) by (simp add: set_s_def split: if_splits)
qed

lemma to_s64_range: "LONG_MIN \<le> to_s64 x \<and> to_s64 x \<le> LONG_MAX"
  using signed_take_bit_int_greater_eq_minus_exp [of 63 x] signed_take_bit_int_less_exp [of 63 x] by (simp add: limits)

text \<open>
  C2. A jump to a label of its own section that is still short after an optimization without messages
  reaches the label: the distance from the start of the jump to the label at the final
  offsets, less the length of the short jump, is a displacement of a signed byte.
\<close>

theorem short_jump_reaches_label:
  assumes "Optimize P bcs = Some (Ret st)" "op_diags st = []" "\<forall>bc\<in>set bcs. bc_wf bc" "int (length bcs) < 2 ^ 31 - 1"
    "Optimize_init P bcs = Ret (Some (st0, fin))" "unsaturated st0"
    and jump: "b < length (op_bcs st)" "bc_contents (op_bcs st ! b) = Some (X86JmpContents j)" "j_op_sel j \<noteq> X86_JMP_NEAR"
    and target: "v_abs (j_target j) = Some (flatten 0 (Node Op_SUB [Leaf (T_SYM n), Leaf (T_LOC here)]))" "\<not> isRelative (j_target j)"
      "env_label (of_env P) n = Some lab" "loc_bc lab = Some l" "l < length (op_bcs st)" "loc_bc here = Some b"
      "env_container (of_env P) l = env_container (of_env P) b"
  shows "-128 \<le> to_s64 (loc_value (op_bcs st) lab - loc_value (op_bcs st) here) - jmp_short_len j \<and>
     to_s64 (loc_value (op_bcs st) lab - loc_value (op_bcs st) here) - jmp_short_len j \<le> 127"
proof -
  obtain s where s: "s \<in> set (op_spans st)" "link_subst P (j_target j) (sp_depval s) (sp_locs s)" "resolved P (op_bcs st) s"
     "-128 \<le> sp_new s - jmp_short_len j" "sp_new s - jmp_short_len j \<le> 127"
    using short_jumps_span [OF assms(1-9)] by blast
  have d: "sp_depval s = (j_target j)\<lparr>v_abs := Some [mk_term (T_SUBST 0) 0]\<rparr>" "sp_locs s = [(here, lab)]"
    using s(2) target(1) SubstDist_difference [OF target(3,4,6,7), of "of_floats P"] by (auto simp: link_subst_def simp del: flatten.simps)
  then obtain t where t: "sp_terms s = [t]" "st_loc t = here" "st_loc2 t = lab" by (auto simp: sp_locs_def)
  have "term_in (length (op_bcs st)) t" using t target jump(1) by (simp add: term_in_def t_from_def t_to_def)
  then have "st_new t = to_s64 (loc_value (op_bcs st) lab - loc_value (op_bcs st) here)" using s(3) t by (auto simp: resolved_def)
  moreover have "sp_new s = st_new t" using span_value_difference [of s t P] s(3) d target(2) t(1) to_s64_range calculation by (auto simp: resolved_def isRelative_def)
  ultimately show ?thesis using s(4,5) by simp
qed

theorem short_jump_reaches_label_witness:
  "\<exists>st. Optimize sample_opt sample_section = Some (Ret st) \<and>
     -128 \<le> to_s64 (loc_value (op_bcs st) \<lparr>loc_bc = Some 3, loc_off = 0\<rparr> - loc_value (op_bcs st) \<lparr>loc_bc = Some 4, loc_off = 0\<rparr>) - 2"
proof -
  obtain st where st: "Optimize sample_opt sample_section = Some (Ret st)" "op_diags st = []"
    using sample_Optimize by (auto split: option.splits outcome.splits)
  obtain st0 fin where st0: "Optimize_init sample_opt sample_section = Ret (Some (st0, fin))" "unsaturated st0"
    using sample_init by (auto split: outcome.splits option.splits)
  have l: "int (length sample_section) < 2 ^ 31 - 1" by (simp add: sample_section_def)
  obtain j where j: "4 < length (op_bcs st)" "bc_contents (op_bcs st ! 4) = Some (X86JmpContents j)" "j_op_sel j \<noteq> X86_JMP_NEAR" "jmp_short_len j = 2"
      "j_target j = Value_of_expr 0 (flatten 0 (Node Op_SUB [Leaf (T_SYM 0), Leaf (T_LOC \<lparr>loc_bc = Some 4, loc_off = 0\<rparr>)]))"
    using sample_short_jump st(1) by (auto split: option.splits Contents.split_asm simp del: flatten.simps)
  have t: "v_abs (j_target j) = Some (flatten 0 (Node Op_SUB [Leaf (T_SYM 0), Leaf (T_LOC \<lparr>loc_bc = Some 4, loc_off = 0\<rparr>)]))" "\<not> isRelative (j_target j)"
    unfolding j(5) by (simp_all add: Value_of_expr_def Value_of_size_def isRelative_def)
  show ?thesis using short_jump_reaches_label [OF st sample_wf l st0 j(1-3) t, of "\<lparr>loc_bc = Some 3, loc_off = 0\<rparr>" 3] j(1,4) st(1)
    by (auto simp: sample_opt_def)
qed

end
