(* ===== verification/Equ.thy ===== *)
theory Equ
  imports Simplify_Correct
begin

text \<open>
  \<^verbatim>\<open>ExpandEqu\<close> of \<^verbatim>\<open>lib/yasmx/Expr_util.cpp\<close>: the symbols of an expression that are equates are
  replaced by their values, in place.  A stack of the equates being expanded says how deep their terms
  are to be put and finds circular references.  The values of equates are the parameter \<open>equ\<close>.
\<close>

unbundle bit_operations_syntax

section \<open>Expansion of equates\<close>

record SawEqu =
  se_sym :: nat
  se_delta :: int
  se_end :: nat

text \<open>
  The loop of \<^verbatim>\<open>ExpandEqu\<close>.  As in \<open>TransformNegImpl\<close>, \<open>left\<close> are the terms that have not been visited,
  the next one first, so that the index of the term at hand is the number of terms behind it;
  \<open>right\<close> are the visited ones.  \<open>used\<close> are the symbols that are marked as used.  The stack of equates is
  a list, the innermost first.  The result says whether no circular reference was found.
\<close>

partial_function (option) expand_loop :: "(nat \<Rightarrow> 'f Expr option) \<Rightarrow> SawEqu list \<Rightarrow> 'f Expr \<Rightarrow> 'f Expr \<Rightarrow> nat list \<Rightarrow>
    (bool \<times> 'f Expr \<times> nat list) option" where
  "expand_loop equ seen left right used =
     (case left of
        [] \<Rightarrow> Some (True, right, used)
      | t # rest \<Rightarrow>
          if isEmpty t then expand_loop equ seen rest (t # right) used
          else
            let n = length rest;
                seen1 = dropWhile (\<lambda>s. n < se_end s) seen;
                child = add_depth (case seen1 of [] \<Rightarrow> 0 | s # ss \<Rightarrow> se_delta s) t in
            case getSymbol child of
              None \<Rightarrow> expand_loop equ seen1 rest (child # right) used
            | Some sy \<Rightarrow>
                (case equ sy of
                   None \<Rightarrow> expand_loop equ seen1 rest (child # right) (used @ [sy])
                 | Some e \<Rightarrow>
                     if list_ex (\<lambda>s. se_sym s = sy) seen1 then Some (False, rev rest @ child # right, used @ [sy])
                     else expand_loop equ (\<lparr>se_sym = sy, se_delta = m_depth child, se_end = n\<rparr> # seen1)
                            (rev e @ rest) (Clear child # right) (used @ [sy])))"

declare expand_loop.simps [code]

text \<open>A loop that does not end has no result.\<close>

definition ExpandEqu :: "(nat \<Rightarrow> 'f Expr option) \<Rightarrow> 'f Expr \<Rightarrow> (bool \<times> 'f Expr \<times> nat list) outcome" where
  "ExpandEqu equ e =
     (if e = [] then Ret (True, e, [])
      else case expand_loop equ [] (rev e) [] [] of
             None \<Rightarrow> Undefined
           | Some (ok, terms, used) \<Rightarrow> Ret (ok, if ok then Cleanup terms else terms, used))"

section \<open>The loop ends\<close>

lemma expand_loop_simps:
  "expand_loop equ seen [] right used = Some (True, right, used)"
  "expand_loop equ seen (t # rest) right used =
     (if isEmpty t then expand_loop equ seen rest (t # right) used
      else
        let n = length rest; seen1 = dropWhile (\<lambda>s. n < se_end s) seen;
            child = add_depth (case seen1 of [] \<Rightarrow> 0 | s # ss \<Rightarrow> se_delta s) t in
        case getSymbol child of
          None \<Rightarrow> expand_loop equ seen1 rest (child # right) used
        | Some sy \<Rightarrow>
            (case equ sy of
               None \<Rightarrow> expand_loop equ seen1 rest (child # right) (used @ [sy])
             | Some e \<Rightarrow>
                 if list_ex (\<lambda>s. se_sym s = sy) seen1 then Some (False, rev rest @ child # right, used @ [sy])
                 else expand_loop equ (\<lparr>se_sym = sy, se_delta = m_depth child, se_end = n\<rparr> # seen1)
                        (rev e @ rest) (Clear child # right) (used @ [sy])))"
  by (simp_all add: expand_loop.simps)

text \<open>
  Above the terms \<open>rest\<close> the stack is \<open>base\<close>, which stays, below entries that are popped before
  the next term of \<open>rest\<close> is looked at.
\<close>

definition popped :: "nat \<Rightarrow> SawEqu list \<Rightarrow> bool" where
  "popped m seen \<longleftrightarrow> (\<forall>s \<in> set seen. m \<le> se_end s)"

definition kept :: "nat \<Rightarrow> SawEqu list \<Rightarrow> bool" where
  "kept m seen \<longleftrightarrow> (\<forall>s \<in> set seen. se_end s \<le> m)"

lemma pop_seen:
  assumes "popped (Suc n) extra" "kept n base"
  shows "dropWhile (\<lambda>s. n < se_end s) (extra @ base) = base"
proof -
  have "dropWhile (\<lambda>s. n < se_end s) base = base" using assms(2) by (cases base) (auto simp: kept_def)
  then show ?thesis using assms(1) by (simp add: dropWhile_append2 popped_def Suc_le_eq)
qed

lemma expand_block_ends:
  assumes "finite S" "\<And>sy. equ sy \<noteq> None \<Longrightarrow> sy \<in> S" "kept (length rest) base" "popped (length (bs @ rest)) extra"
  shows "(\<exists>r. expand_loop equ (extra @ base) (bs @ rest) right used = Some (False, r)) \<or>
    (\<exists>extra' right' used'. popped (length rest) extra' \<and>
       expand_loop equ (extra @ base) (bs @ rest) right used = expand_loop equ (extra' @ base) rest right' used')"
  using assms(3,4)
proof (induction "card (S - se_sym ` set base)" arbitrary: base bs rest extra right used rule: less_induct)
  case less
  note outer = less.hyps
  show ?case using less.prems
  proof (induction bs arbitrary: extra right used)
    case Nil
    then show ?case by (intro disjI2 exI [of _ extra] exI [of _ right] exI [of _ used]) simp
  next
    case (Cons t bs)
    have k: "kept (length (bs @ rest)) base" using Cons.prems(1) by (auto simp: kept_def)
    have pop: "dropWhile (\<lambda>s. length (bs @ rest) < se_end s) (extra @ base) = base"
      by (rule pop_seen) (use Cons.prems(2) k in auto)
    let ?c = "add_depth (case base of [] \<Rightarrow> 0 | s # ss \<Rightarrow> se_delta s) t"
    show ?case
    proof (cases "isEmpty t")
      case True
      have "popped (length (bs @ rest)) extra" using Cons.prems(2) by (auto simp: popped_def)
      then show ?thesis using Cons.IH [OF Cons.prems(1), of extra] True by (simp add: expand_loop_simps)
    next
      case False
      have e: "popped (length (bs @ rest)) []" by (simp add: popped_def)
      show ?thesis
      proof (cases "getSymbol ?c")
        case None
        then show ?thesis using Cons.IH [OF Cons.prems(1) e] False pop by (simp add: expand_loop_simps Let_def)
      next
        case (Some sy)
        show ?thesis
        proof (cases "equ sy")
          case None
          then show ?thesis using Cons.IH [OF Cons.prems(1) e] False pop Some by (simp add: expand_loop_simps Let_def)
        next
          case eq: (Some u)
          show ?thesis
          proof (cases "list_ex (\<lambda>s. se_sym s = sy) base")
            case True
            then show ?thesis using False pop Some eq by (simp add: expand_loop_simps Let_def)
          next
            case fresh: False
            let ?e = "\<lparr>se_sym = sy, se_delta = m_depth ?c, se_end = length (bs @ rest)\<rparr>"
            have step: "expand_loop equ (extra @ base) ((t # bs) @ rest) right used =
                expand_loop equ ([] @ (?e # base)) (rev u @ (bs @ rest)) (Clear ?c # right) (used @ [sy])"
              using False pop Some eq fresh by (simp add: expand_loop_simps Let_def)
            have "sy \<in> S" "sy \<notin> se_sym ` set base" using assms(2) eq fresh by (auto simp: list_ex_iff)
            then have "card (S - se_sym ` set (?e # base)) < card (S - se_sym ` set base)"
              using assms(1) by (intro psubset_card_mono) auto
            then have "(\<exists>r. expand_loop equ ([] @ (?e # base)) (rev u @ (bs @ rest)) (Clear ?c # right) (used @ [sy]) = Some (False, r)) \<or>
                (\<exists>extra' right' used'. popped (length (bs @ rest)) extra' \<and>
                   expand_loop equ ([] @ (?e # base)) (rev u @ (bs @ rest)) (Clear ?c # right) (used @ [sy]) =
                   expand_loop equ (extra' @ (?e # base)) (bs @ rest) right' used')"
              by (intro outer) (use k in \<open>auto simp: kept_def popped_def\<close>)
            then show ?thesis
            proof (elim disjE exE conjE)
              fix extra' right' used'
              assume x: "popped (length (bs @ rest)) extra'"
                "expand_loop equ ([] @ (?e # base)) (rev u @ (bs @ rest)) (Clear ?c # right) (used @ [sy]) =
                   expand_loop equ (extra' @ (?e # base)) (bs @ rest) right' used'"
              then have "popped (length (bs @ rest)) (extra' @ [?e])" by (simp add: popped_def)
              from Cons.IH [OF Cons.prems(1) this, of right' used'] show ?thesis unfolding step x(2) by simp
            qed (use step in auto)
          qed
        qed
      qed
    qed
  qed
qed

lemma ExpandEqu_ends:
  assumes "finite {sy. equ sy \<noteq> None}"
  shows "\<exists>r. ExpandEqu equ e = Ret r"
  using expand_block_ends [OF assms, of equ "[]" "[]" "rev e" "[]" "[]" "[]"]
  by (auto simp: ExpandEqu_def kept_def popped_def expand_loop_simps split: prod.splits)

section \<open>What it computes\<close>

text \<open>
  The expansion of a tree: a symbol that is an equate is replaced by the expansion of its value, in which
  it does not occur.
\<close>

inductive expands :: "(nat \<Rightarrow> 'f tree option) \<Rightarrow> nat set \<Rightarrow> 'f tree \<Rightarrow> 'f tree \<Rightarrow> bool" for T where
  expands_leaf: "(\<And>sy. d = T_SYM sy \<Longrightarrow> T sy = None) \<Longrightarrow> expands T X (Leaf d) (Leaf d)"
| expands_equ: "T sy = Some u \<Longrightarrow> sy \<notin> X \<Longrightarrow> expands T (insert sy X) u u' \<Longrightarrow> expands T X (Leaf (T_SYM sy)) u'"
| expands_node: "list_all2 (expands T X) ts ts' \<Longrightarrow> expands T X (Node oper ts) (Node oper ts')"

inductive_cases expands_Leaf: "expands T X (Leaf d) t'"
inductive_cases expands_Node: "expands T X (Node oper ts) t'"

lemma expands_unique: "expands T X t a \<Longrightarrow> expands T X t b \<Longrightarrow> a = b"
proof (induction arbitrary: b rule: expands.induct)
  case (expands_leaf d X)
  from expands_leaf.prems show ?case using expands_leaf.hyps by (cases rule: expands.cases) auto
next
  case (expands_equ sy u X u')
  from expands_equ.prems have "expands T (insert sy X) u b" using expands_equ.hyps(1) by (cases rule: expands.cases) auto
  then show ?case by (rule expands_equ.IH)
next
  case (expands_node X ts ts' oper)
  from expands_node.prems obtain bs where bs: "b = Node oper bs" "list_all2 (expands T X) ts bs" by (auto elim: expands_Node)
  have "ts' = bs" using expands_node.IH bs(2) by (auto simp: list_all2_conv_all_nth intro: nth_equalityI)
  then show ?case using bs(1) by simp
qed

definition delta_of :: "SawEqu list \<Rightarrow> int" where
  "delta_of seen = (case seen of [] \<Rightarrow> 0 | s # ss \<Rightarrow> se_delta s)"

text \<open>
  What the loop makes of the trees \<open>ts\<close> at depth \<open>d\<close> in front of \<open>rest\<close>: it goes on with \<open>rest\<close>, the
  expansions of the trees behind it, or it stops as there are none.
\<close>

definition block :: "(nat \<Rightarrow> 'f tree option) \<Rightarrow> SawEqu list \<Rightarrow> int \<Rightarrow> 'f tree list \<Rightarrow> bool" where
  "block T base d ts \<longleftrightarrow> (\<forall>extra rest right used.
     let equ = map_option (flatten 0) \<circ> T; X = se_sym ` set base; left = rev (concat (List.map (flatten d) ts)) @ rest;
         r = expand_loop equ (extra @ base) left right used in
     kept (length rest) base \<longrightarrow> popped (length left) extra \<longrightarrow>
     (\<exists>ts' extra' right' used'. list_all2 (expands T X) ts ts' \<and> popped (length rest) extra' \<and>
        Cleanup right' = concat (List.map (flatten (d + delta_of base)) ts') @ Cleanup right \<and>
        r = expand_loop equ (extra' @ base) rest right' used') \<or>
     (\<nexists>ts'. list_all2 (expands T X) ts ts') \<and> (\<exists>q. r = Some (False, q)))"

lemma block_Nil: "block T base d []"
  unfolding block_def Let_def
proof (intro allI impI disjI1)
  fix extra used and rest right :: "'a Expr"
  assume "popped (length (rev (concat (List.map (flatten d) ([] :: 'a tree list))) @ rest)) extra"
  then show "\<exists>ts' extra' right' used'. list_all2 (expands T (se_sym ` set base)) [] ts' \<and> popped (length rest) extra' \<and>
      Cleanup right' = concat (List.map (flatten (d + delta_of base)) ts') @ Cleanup right \<and>
      expand_loop (map_option (flatten 0) \<circ> T) (extra @ base) (rev (concat (List.map (flatten d) [])) @ rest) right used =
      expand_loop (map_option (flatten 0) \<circ> T) (extra' @ base) rest right' used'"
    by (intro exI [of _ "[]"] exI [of _ extra] exI [of _ right] exI [of _ used]) simp
qed

lemma block_snoc:
  assumes "block T base d ts" "block T base d [t]"
  shows "block T base d (ts @ [t])"
  unfolding block_def Let_def
proof (intro allI impI)
  fix extra rest right used
  let ?equ = "map_option (flatten 0) \<circ> T" and ?X = "se_sym ` set base"
  let ?left = "rev (concat (List.map (flatten d) ts)) @ rest"
  assume k: "kept (length rest) base" and p: "popped (length (rev (concat (List.map (flatten d) (ts @ [t]))) @ rest)) extra"
  have k': "kept (length ?left) base" using k by (auto simp: kept_def)
  consider (go) t' extra1 right1 used1 where "expands T ?X t t'" "popped (length ?left) extra1"
       "Cleanup right1 = flatten (d + delta_of base) t' @ Cleanup right"
       "expand_loop ?equ (extra @ base) (rev (flatten d t) @ ?left) right used = expand_loop ?equ (extra1 @ base) ?left right1 used1"
    | (stop) q where "\<nexists>t'. expands T ?X t t'" "expand_loop ?equ (extra @ base) (rev (flatten d t) @ ?left) right used = Some (False, q)"
    using assms(2) [unfolded block_def Let_def, rule_format, of ?left extra right used, OF k'] p
    by (auto simp: list_all2_Cons1)
  then show "(\<exists>ts' extra' right' used'. list_all2 (expands T ?X) (ts @ [t]) ts' \<and> popped (length rest) extra' \<and>
        Cleanup right' = concat (List.map (flatten (d + delta_of base)) ts') @ Cleanup right \<and>
        expand_loop ?equ (extra @ base) (rev (concat (List.map (flatten d) (ts @ [t]))) @ rest) right used = expand_loop ?equ (extra' @ base) rest right' used') \<or>
     (\<nexists>ts'. list_all2 (expands T ?X) (ts @ [t]) ts') \<and>
     (\<exists>q. expand_loop ?equ (extra @ base) (rev (concat (List.map (flatten d) (ts @ [t]))) @ rest) right used = Some (False, q))"
  proof cases
    case go
    from assms(1) [unfolded block_def Let_def, rule_format, OF k go(2), of right1 used1]
    show ?thesis
    proof (elim disjE exE conjE)
      fix ts' extra' right' used'
      assume a: "list_all2 (expands T ?X) ts ts'" "popped (length rest) extra'"
        "Cleanup right' = concat (List.map (flatten (d + delta_of base)) ts') @ Cleanup right1"
        "expand_loop ?equ (extra1 @ base) ?left right1 used1 = expand_loop ?equ (extra' @ base) rest right' used'"
      show ?thesis
        by (intro disjI1 exI [of _ "ts' @ [t']"] exI [of _ extra'] exI [of _ right'] exI [of _ used'])
          (use a go in \<open>auto intro: list_all2_appendI\<close>)
    qed (use go in \<open>auto simp: list_all2_append1 list_all2_Cons1\<close>)
  next
    case stop
    then show ?thesis by (auto simp: list_all2_append1 list_all2_Cons1)
  qed
qed

lemma block_all: "(\<And>t. t \<in> set ts \<Longrightarrow> block T base d [t]) \<Longrightarrow> block T base d ts"
  by (induction ts rule: rev_induct) (auto simp: block_Nil intro: block_snoc)

lemma getSymbol_add_depth [simp]: "getSymbol (add_depth k t) = getSymbol t"
  by (simp add: getSymbol_def)

lemma not_symbol: "\<not> isEmpty t \<Longrightarrow> getSymbol t = None \<Longrightarrow> dropWhile (\<lambda>s. length rest < se_end s) seen = base \<Longrightarrow>
    expand_loop equ seen (t # rest) right used = expand_loop equ base rest (add_depth (delta_of base) t # right) used"
  by (simp only: expand_loop_simps(2) if_False Let_def getSymbol_add_depth option.case delta_of_def)

lemma block_node:
  assumes "block T base (d + 1) ts"
  shows "block T base d [Node oper ts]"
  unfolding block_def Let_def
proof (intro allI impI)
  fix extra used and rest right :: "'a Expr"
  let ?equ = "map_option (flatten 0) \<circ> T" and ?X = "se_sym ` set base" and ?rts = "rev (concat (List.map (flatten (d + 1)) ts))"
  let ?op = "mk_term (T_OP oper (int (length ts)))"
  assume k: "kept (length rest) base" and p: "popped (length (rev (concat (List.map (flatten d) [Node oper ts])) @ rest)) extra"
  have "kept (length (?rts @ rest)) base" using k by (auto simp: kept_def)
  then have pop: "dropWhile (\<lambda>s. length (?rts @ rest) < se_end s) (extra @ base) = base" by (intro pop_seen) (use p in simp_all)
  have step: "expand_loop ?equ (extra @ base) (rev (concat (List.map (flatten d) [Node oper ts])) @ rest) right used =
      expand_loop ?equ ([] @ base) (?rts @ rest) (?op (d + delta_of base) # right) used"
    using not_symbol [OF _ _ pop, of "?op d" ?equ right used] by (simp add: isEmpty_def getSymbol_def)
  have "popped (length (?rts @ rest)) []" by (simp add: popped_def)
  from assms [unfolded block_def Let_def, rule_format, OF k this, of "?op (d + delta_of base) # right" used]
  show "(\<exists>ts' extra' right' used'. list_all2 (expands T ?X) [Node oper ts] ts' \<and> popped (length rest) extra' \<and>
        Cleanup right' = concat (List.map (flatten (d + delta_of base)) ts') @ Cleanup right \<and>
        expand_loop ?equ (extra @ base) (rev (concat (List.map (flatten d) [Node oper ts])) @ rest) right used = expand_loop ?equ (extra' @ base) rest right' used') \<or>
     (\<nexists>ts'. list_all2 (expands T ?X) [Node oper ts] ts') \<and>
     (\<exists>q. expand_loop ?equ (extra @ base) (rev (concat (List.map (flatten d) [Node oper ts])) @ rest) right used = Some (False, q))"
  proof (elim disjE exE conjE)
    fix ts' extra' right' used'
    assume a: "list_all2 (expands T ?X) ts ts'" "popped (length rest) extra'"
      "Cleanup right' = concat (List.map (flatten (d + 1 + delta_of base)) ts') @ Cleanup (?op (d + delta_of base) # right)"
      "expand_loop ?equ ([] @ base) (?rts @ rest) (?op (d + delta_of base) # right) used = expand_loop ?equ (extra' @ base) rest right' used'"
    have "expands T ?X (Node oper ts) (Node oper ts')" using a(1) by (rule expands_node)
    then show ?thesis unfolding step a(4)
      by (intro disjI1 exI [of _ "[Node oper ts']"] exI [of _ extra'] exI [of _ right'] exI [of _ used'])
        (use a list_all2_lengthD [OF a(1)] in \<open>simp add: isEmpty_def ac_simps\<close>)
  qed (unfold step, auto simp: list_all2_Cons1 elim: expands_Node)
qed

lemma block_leaf:
  assumes "\<not> isEmpty (mk_term x d)" "\<And>sy. x = T_SYM sy \<Longrightarrow> T sy = None"
  shows "block T base d [Leaf x]"
  unfolding block_def Let_def
proof (intro allI impI disjI1)
  fix extra used and rest right :: "'a Expr"
  let ?equ = "map_option (flatten 0) \<circ> T"
  assume k: "kept (length rest) base" and p: "popped (length (rev (concat (List.map (flatten d) [Leaf x])) @ rest)) extra"
  have pop: "dropWhile (\<lambda>s. length rest < se_end s) (extra @ base) = base" by (rule pop_seen) (use k p in simp_all)
  have "\<exists>used'. expand_loop ?equ (extra @ base) (mk_term x d # rest) right used =
      expand_loop ?equ base rest (mk_term x (d + delta_of base) # right) used'"
  proof (cases "getSymbol (mk_term x d)")
    case None
    then show ?thesis using not_symbol [OF assms(1) None pop] by auto
  next
    case (Some sy)
    then have "x = T_SYM sy" by (auto simp: getSymbol_def split: term_data.splits)
    then have "T sy = None" by (rule assms(2))
    then show ?thesis using Some assms(1) pop by (intro exI [of _ "used @ [sy]"]) (simp add: expand_loop_simps Let_def delta_of_def getSymbol_def)
  qed
  then obtain used' where "expand_loop ?equ (extra @ base) (mk_term x d # rest) right used =
      expand_loop ?equ base rest (mk_term x (d + delta_of base) # right) used'" by blast
  moreover have "expands T X (Leaf x) (Leaf x)" for X using assms(2) by (rule expands_leaf)
  moreover have "\<not> isEmpty (mk_term x (d + delta_of base))" using assms(1) by (simp add: isEmpty_def)
  ultimately show "\<exists>ts' extra' right' used'. list_all2 (expands T (se_sym ` set base)) [Leaf x] ts' \<and> popped (length rest) extra' \<and>
      Cleanup right' = concat (List.map (flatten (d + delta_of base)) ts') @ Cleanup right \<and>
      expand_loop ?equ (extra @ base) (rev (concat (List.map (flatten d) [Leaf x])) @ rest) right used =
      expand_loop ?equ (extra' @ base) rest right' used'"
    by (intro exI [of _ "[Leaf x]"] exI [of _ "[]"] exI [of _ "mk_term x (d + delta_of base) # right"] exI [of _ used']) (simp add: popped_def)
qed

lemma block_circular:
  assumes "T sy = Some u" "sy \<in> se_sym ` set base"
  shows "block T base d [Leaf (T_SYM sy)]"
  unfolding block_def Let_def
proof (intro allI impI disjI2 conjI)
  fix extra used and rest right :: "'a Expr"
  assume k: "kept (length rest) base" and p: "popped (length (rev (concat (List.map (flatten d) [Leaf (T_SYM sy :: 'a term_data)])) @ rest)) extra"
  have pop: "dropWhile (\<lambda>s. length rest < se_end s) (extra @ base) = base" by (rule pop_seen) (use k p in simp_all)
  have "list_ex (\<lambda>s. se_sym s = sy) base" using assms(2) by (auto simp: list_ex_iff)
  then show "\<exists>q. expand_loop (map_option (flatten 0) \<circ> T) (extra @ base) (rev (concat (List.map (flatten d) [Leaf (T_SYM sy)])) @ rest) right used = Some (False, q)"
    using assms(1) pop by (simp add: expand_loop_simps Let_def getSymbol_def isEmpty_def)
qed (use assms in \<open>auto simp: list_all2_Cons1 elim: expands_Leaf\<close>)

lemma block_equ:
  assumes "T sy = Some u" "sy \<notin> se_sym ` set base"
    and u: "\<And>n. block T (\<lparr>se_sym = sy, se_delta = d + delta_of base, se_end = n\<rparr> # base) 0 [u]"
  shows "block T base d [Leaf (T_SYM sy)]"
  unfolding block_def Let_def
proof (intro allI impI)
  fix extra used and rest right :: "'a Expr"
  let ?equ = "map_option (flatten 0) \<circ> T" and ?X = "se_sym ` set base" and ?t = "Leaf (T_SYM sy) :: 'a tree"
  let ?e = "\<lparr>se_sym = sy, se_delta = d + delta_of base, se_end = length rest\<rparr>"
  let ?c = "mk_term T_NONE (d + delta_of base) :: 'a ExprTerm"
  assume k: "kept (length rest) base" and p: "popped (length (rev (concat (List.map (flatten d) [?t])) @ rest)) extra"
  have pop: "dropWhile (\<lambda>s. length rest < se_end s) (extra @ base) = base" by (rule pop_seen) (use k p in simp_all)
  have "\<not> list_ex (\<lambda>s. se_sym s = sy) base" using assms(2) by (auto simp: list_ex_iff)
  then have step: "expand_loop ?equ (extra @ base) (rev (concat (List.map (flatten d) [?t])) @ rest) right used =
      expand_loop ?equ ([] @ (?e # base)) (rev (concat (List.map (flatten 0) [u])) @ rest) (?c # right) (used @ [sy])"
    using assms(1) pop by (simp add: expand_loop_simps Let_def getSymbol_def isEmpty_def delta_of_def) (simp add: Clear_def mk_term_def)
  have ks: "kept (length rest) (?e # base)" "popped (length (rev (concat (List.map (flatten 0) [u])) @ rest)) []" using k by (simp_all add: kept_def popped_def)
  have ex: "expands T ?X ?t t' \<longleftrightarrow> expands T (se_sym ` set (?e # base)) u t'" for t'
    using assms(1,2) by (auto intro: expands_equ elim: expands_Leaf)
  from u [unfolded block_def Let_def, rule_format, OF ks, of "?c # right" "used @ [sy]"]
  show "(\<exists>ts' extra' right' used'. list_all2 (expands T ?X) [?t] ts' \<and> popped (length rest) extra' \<and>
        Cleanup right' = concat (List.map (flatten (d + delta_of base)) ts') @ Cleanup right \<and>
        expand_loop ?equ (extra @ base) (rev (concat (List.map (flatten d) [?t])) @ rest) right used = expand_loop ?equ (extra' @ base) rest right' used') \<or>
     (\<nexists>ts'. list_all2 (expands T ?X) [?t] ts') \<and>
     (\<exists>q. expand_loop ?equ (extra @ base) (rev (concat (List.map (flatten d) [?t])) @ rest) right used = Some (False, q))"
  proof (elim disjE exE conjE)
    fix ts' extra' right' used'
    assume a: "list_all2 (expands T (se_sym ` set (?e # base))) [u] ts'" "popped (length rest) extra'"
      "Cleanup right' = concat (List.map (flatten (0 + delta_of (?e # base))) ts') @ Cleanup (?c # right)"
      "expand_loop ?equ ([] @ (?e # base)) (rev (concat (List.map (flatten 0) [u])) @ rest) (?c # right) (used @ [sy]) = expand_loop ?equ (extra' @ (?e # base)) rest right' used'"
    have "list_all2 (expands T ?X) [?t] ts'" using a(1) ex by (auto simp: list_all2_Cons1)
    then show ?thesis unfolding step a(4)
      by (intro disjI1 exI [of _ ts'] exI [of _ "extra' @ [?e]"] exI [of _ right'] exI [of _ used'])
        (use a in \<open>simp add: isEmpty_def popped_def delta_of_def\<close>)
  qed (unfold step, auto simp: list_all2_Cons1 ex)
qed

lemma tree_block:
  assumes "finite {sy. T sy \<noteq> None}" "\<forall>sy u. T sy = Some u \<longrightarrow> wf_tree u" "wf_tree t"
  shows "block T base d [t]"
  using assms(3)
proof (induction "card ({sy. T sy \<noteq> None} - se_sym ` set base)" arbitrary: base t d rule: less_induct)
  case less
  note outer = less.hyps
  show ?case using less.prems
  proof (induction t arbitrary: d)
    case (Node oper ts)
    have "block T base (d + 1) ts" by (rule block_all) (use Node in \<open>auto simp: list_all_iff\<close>)
    then show ?case by (rule block_node)
  next
    case (Leaf x)
    have ne: "\<not> isEmpty (mk_term x d)" using Leaf by (auto simp: isEmpty_def leaf_ok_def split: term_data.splits)
    show ?case
    proof (cases "\<exists>sy u. x = T_SYM sy \<and> T sy = Some u")
      case False
      then have "expands T X (Leaf x) (Leaf x)" for X by (intro expands_leaf) auto
      then show ?thesis using block_leaf [OF ne] False by auto
    next
      case True
      then obtain sy u where u: "x = T_SYM sy" "T sy = Some u" by auto
      show ?thesis
      proof (cases "sy \<in> se_sym ` set base")
        case True
        then show ?thesis using block_circular [of T sy u base d] u by simp
      next
        case fresh: False
        have "block T (\<lparr>se_sym = sy, se_delta = d + delta_of base, se_end = n\<rparr> # base) 0 [u]" for n
        proof (rule outer)
          show "card ({sy. T sy \<noteq> None} - se_sym ` set (\<lparr>se_sym = sy, se_delta = d + delta_of base, se_end = n\<rparr> # base)) <
             card ({sy. T sy \<noteq> None} - se_sym ` set base)"
            using assms(1) fresh u by (intro psubset_card_mono) auto
        qed (use assms(2) u(2) in blast)
        then show ?thesis using block_equ [of T sy u base d] u fresh by simp
      qed
    qed
  qed
qed

lemma ExpandEqu_tree:
  assumes "finite {sy. T sy \<noteq> None}" "\<forall>sy u. T sy = Some u \<longrightarrow> wf_tree u" "wf_tree t"
  shows "(\<exists>t' used. expands T {} t t' \<and> ExpandEqu (map_option (flatten 0) \<circ> T) (flatten 0 t) = Ret (True, flatten 0 t', used)) \<or>
    (\<nexists>t'. expands T {} t t') \<and> (\<exists>e used. ExpandEqu (map_option (flatten 0) \<circ> T) (flatten 0 t) = Ret (False, e, used))"
  using tree_block [OF assms, of "[]" 0, unfolded block_def Let_def, rule_format, of "[]" "[]" "[]" "[]"]
  by (auto simp: ExpandEqu_def kept_def popped_def delta_of_def expand_loop_simps list_all2_Cons1)

lemma expands_wf:
  assumes "\<And>sy u. T sy = Some u \<Longrightarrow> wf_tree u"
  shows "expands T X t t' \<Longrightarrow> wf_tree t \<Longrightarrow> wf_tree t'"
proof (induction rule: expands.induct)
  case (expands_node X ts ts' oper)
  then show ?case by (auto simp: list_all_length list_all2_conv_all_nth)
qed (auto intro: assms)

section \<open>Properties\<close>

text \<open>
  C5. \<open>ExpandEqu\<close> ends, whatever the equates refer to: it returns the expression with every symbol that
  is an equate replaced by the expansion of its value, at the depth of the symbol and in
  well-formed order, and it reports a circular reference exactly when there is no such expansion.
\<close>

theorem ExpandEqu_correct:
  assumes "finite {sy. T sy \<noteq> None}" "\<forall>sy u. T sy = Some u \<longrightarrow> wf_tree u" "wf_tree t"
  shows "(\<exists>t' used. expands T {} t t' \<and> ExpandEqu (map_option (flatten 0) \<circ> T) (flatten 0 t) = Ret (True, flatten 0 t', used)) \<or>
    (\<nexists>t'. expands T {} t t') \<and> (\<exists>e used. ExpandEqu (map_option (flatten 0) \<circ> T) (flatten 0 t) = Ret (False, e, used))"
  by (rule ExpandEqu_tree [OF assms])

definition sample_equ :: "nat \<Rightarrow> unit tree option" where
  "sample_equ sy = (if sy = 0 then Some (Node Op_ADD [Leaf (T_SYM 1), Leaf (T_INT (SV 2))])
     else if sy = 1 then Some (Leaf (T_INT (SV 3))) else if sy = 2 then Some (Node Op_NEG [Leaf (T_SYM 2)]) else None)"

theorem ExpandEqu_correct_witness:
  "(\<exists>used. ExpandEqu (map_option (flatten 0) \<circ> sample_equ) (flatten 0 (Node Op_MUL [Leaf (T_SYM 0), Leaf (T_SYM 5)])) =
      Ret (True, flatten 0 (Node Op_MUL [Node Op_ADD [Leaf (T_INT (SV 3)), Leaf (T_INT (SV 2))], Leaf (T_SYM 5)]), used)) \<and>
   (\<exists>e used. ExpandEqu (map_option (flatten 0) \<circ> sample_equ) (flatten 0 (Leaf (T_SYM 2))) = Ret (False, e, used))"
proof -
  have "{sy. sample_equ sy \<noteq> None} \<subseteq> {0, 1, 2}" by (auto simp: sample_equ_def)
  then have fin: "finite {sy. sample_equ sy \<noteq> None}" by (rule finite_subset) simp
  have wf: "\<forall>sy u. sample_equ sy = Some u \<longrightarrow> wf_tree u"
    by (auto simp: sample_equ_def arity_ok_def isUnary_def isAssociative_def leaf_ok_def split: if_splits)
  have "expands sample_equ X (Leaf (T_INT n)) (Leaf (T_INT n))" "expands sample_equ X (Leaf (T_SYM 5)) (Leaf (T_SYM 5))" for X n
    by (rule expands_leaf; simp add: sample_equ_def)+
  moreover have "expands sample_equ {0} (Leaf (T_SYM 1)) (Leaf (T_INT (SV 3)))"
    by (rule expands_equ) (auto simp: sample_equ_def intro: calculation)
  ultimately have "expands sample_equ {0} (Node Op_ADD [Leaf (T_SYM 1), Leaf (T_INT (SV 2))]) (Node Op_ADD [Leaf (T_INT (SV 3)), Leaf (T_INT (SV 2))])"
    by (intro expands_node) simp
  then have "expands sample_equ {} (Leaf (T_SYM 0)) (Node Op_ADD [Leaf (T_INT (SV 3)), Leaf (T_INT (SV 2))])"
    by (intro expands_equ [of _ 0]) (simp_all add: sample_equ_def)
  moreover have "expands sample_equ {} (Leaf (T_SYM 5)) (Leaf (T_SYM 5))" by (rule expands_leaf) (simp add: sample_equ_def)
  ultimately have "expands sample_equ {} (Node Op_MUL [Leaf (T_SYM 0), Leaf (T_SYM 5)])
      (Node Op_MUL [Node Op_ADD [Leaf (T_INT (SV 3)), Leaf (T_INT (SV 2))], Leaf (T_SYM 5)])"
    by (intro expands_node) simp
  moreover have "wf_tree (Node Op_MUL [Leaf (T_SYM 0), Leaf (T_SYM 5)] :: unit tree)" by (simp add: arity_ok_def isUnary_def leaf_ok_def)
  moreover have "\<not> expands sample_equ {2} (Node Op_NEG [Leaf (T_SYM 2)]) t" for t
    by (auto simp: list_all2_Cons1 sample_equ_def elim!: expands_Node expands_Leaf)
  then have "\<not> expands sample_equ {} (Leaf (T_SYM 2)) t" for t by (auto simp: sample_equ_def elim!: expands_Leaf)
  moreover have "wf_tree (Leaf (T_SYM 2) :: unit tree)" by (simp add: leaf_ok_def)
  ultimately show ?thesis
    using ExpandEqu_correct [OF fin wf, of "Node Op_MUL [Leaf (T_SYM 0), Leaf (T_SYM 5)]"] ExpandEqu_correct [OF fin wf, of "Leaf (T_SYM 2)"]
    by (blast dest: expands_unique)
qed

end
