(* ===== verification/Value_Scan.thy ===== *)
theory Value_Scan
  imports Equ Value
begin

text \<open>
  \<^verbatim>\<open>Value::Finalize\<close> of \<^verbatim>\<open>lib/yasmx/Value.cpp\<close>: after parsing, the expression of a value is split into
  an absolute expression, a relative symbol, a subtracted symbol, a symbol it is with respect to, a shift
  and a segment flag.
\<close>

unbundle bit_operations_syntax

section \<open>The scan for symbols\<close>

text \<open>
  \<^verbatim>\<open>FinalizeScan\<close> returns whether the expression is simple enough, the position it has reached,
  the terms and the value.  A vector of terms does not change its length in it; its loops go down
  from the operator at \<open>pos\<close>, so that \<open>pos + 1\<close> steps are enough for each, and so does its recursion, so
  that the number of terms is enough for its depth.  \<open>rec\<close> is the recursive call.
\<close>

type_synonym 'f scan_result = "(bool \<times> int \<times> 'f Expr \<times> 'f Value) outcome"

text \<open>
  The first loop of an addition: the distances of the symbols and of the negated symbols from the
  operator, in the order they are found.
\<close>

fun add_scan :: "('f Expr \<Rightarrow> int \<Rightarrow> 'f Value \<Rightarrow> 'f scan_result) \<Rightarrow> nat \<Rightarrow> nat \<Rightarrow> int \<Rightarrow> int list \<Rightarrow> int list \<Rightarrow>
    'f Expr \<Rightarrow> 'f Value \<Rightarrow> (bool \<times> int \<times> int list \<times> int list \<times> 'f Expr \<times> 'f Value) outcome" where
  "add_scan rec 0 pos n relpos subpos terms v = Undefined"
| "add_scan rec (Suc k) pos n relpos subpos terms v =
     (if n < 0 then Ret (True, n, relpos, subpos, terms, v)
      else
        let child = terms ! nat n; rdepth = m_depth (terms ! pos) in
        if isEmpty child then add_scan rec k pos (n - 1) relpos subpos terms v
        else if m_depth child \<le> rdepth then Ret (True, n, relpos, subpos, terms, v)
        else if m_depth child \<noteq> rdepth + 1 then add_scan rec k pos (n - 1) relpos subpos terms v
        else if getSymbol child \<noteq> None then add_scan rec k pos (n - 1) (relpos @ [int pos - n]) subpos terms v
        else bind_out (isNeg1Sym terms n False) (\<lambda>r.
          case r of
            Some (sy, neg1, m) \<Rightarrow> add_scan rec k pos m relpos (subpos @ [int pos - sy]) terms v
          | None \<Rightarrow>
              if isOp child then
                bind_out (rec terms n v) (\<lambda>(ok, m, terms', v').
                  if \<not> ok then Ret (False, m, relpos, subpos, terms', v')
                  else add_scan rec k pos m relpos subpos terms' v')
              else add_scan rec k pos (n - 1) relpos subpos terms v))"

text \<open>
  The search of a subtracted symbol for the symbol \<open>rel\<close> at index \<open>r\<close>: whether there is one, the distances with
  the matched one marked and the terms.
\<close>

fun scan_match :: "Env \<Rightarrow> nat \<Rightarrow> nat \<Rightarrow> nat \<Rightarrow> int list \<Rightarrow> 'f Expr \<Rightarrow> (bool \<times> int list \<times> 'f Expr) outcome" where
  "scan_match env pos r rel [] terms = Ret (False, [], terms)"
| "scan_match env pos r rel (j # js) terms =
     (let continue = bind_out (scan_match env pos r rel js terms) (\<lambda>(m, js', terms'). Ret (m, j # js', terms'));
          s = nat (int pos - j) in
      if j = -1 then continue
      else case getSymbol (terms ! s) of
             None \<Rightarrow> Undefined
           | Some sub \<Rightarrow>
               if rel = sub then Ret (True, -1 # js, upd_term s Zero (upd_term r Zero terms))
               else (case env_label env rel of None \<Rightarrow> continue | Some rel_loc \<Rightarrow>
                    (case env_label env sub of None \<Rightarrow> continue | Some sub_loc \<Rightarrow>
                       bind_out (same_container env rel_loc sub_loc) (\<lambda>same.
                         if same then Ret (True, -1 # js, terms) else continue))))"

fun scan_rels :: "Env \<Rightarrow> bool \<Rightarrow> nat \<Rightarrow> int list \<Rightarrow> int list \<Rightarrow> 'f Expr \<Rightarrow> 'f Value \<Rightarrow>
    (bool \<times> int list \<times> 'f Expr \<times> 'f Value) outcome" where
  "scan_rels env ssym_ok pos [] subpos terms v = Ret (True, subpos, terms, v)"
| "scan_rels env ssym_ok pos (i # relpos) subpos terms v =
     (let r = nat (int pos - i) in
      case getSymbol (terms ! r) of
        None \<Rightarrow> Undefined
      | Some rel \<Rightarrow>
          bind_out (scan_match env pos r rel subpos terms) (\<lambda>(matched, subpos', terms').
            if matched then scan_rels env ssym_ok pos relpos subpos' terms' v
            else if v_rel v \<noteq> None \<or> \<not> ssym_ok then Ret (False, subpos', terms', v)
            else scan_rels env ssym_ok pos relpos subpos' (upd_term r Zero terms') (v\<lparr>v_rel := Some rel\<rparr>)))"

fun scan_subs :: "nat \<Rightarrow> int list \<Rightarrow> 'f Expr \<Rightarrow> 'f Value \<Rightarrow> (bool \<times> 'f Expr \<times> 'f Value) outcome" where
  "scan_subs pos [] terms v = Ret (True, terms, v)"
| "scan_subs pos (i # subpos) terms v =
     (let s = nat (int pos - i) in
      if i = -1 then scan_subs pos subpos terms v
      else case getSymbol (terms ! s) of
             None \<Rightarrow> Undefined
           | Some sub \<Rightarrow>
               if hasSubRelative v then Ret (False, terms, v)
               else scan_subs pos subpos (upd_term s Zero terms) (v\<lparr>v_sub := Sub_sym sub\<rparr>))"

definition scan_ADD :: "Env \<Rightarrow> ('f Expr \<Rightarrow> int \<Rightarrow> 'f Value \<Rightarrow> 'f scan_result) \<Rightarrow> bool \<Rightarrow> nat \<Rightarrow> 'f Expr \<Rightarrow> 'f Value \<Rightarrow> 'f scan_result" where
  "scan_ADD env rec ssym_ok pos terms v =
     bind_out (add_scan rec (Suc pos) pos (int pos - 1) [] [] terms v) (\<lambda>(ok, n, relpos, subpos, terms1, v1).
     if \<not> ok then Ret (False, int pos, terms1, v1)
     else
       bind_out (scan_rels env ssym_ok pos relpos subpos terms1 v1) (\<lambda>(ok2, subpos2, terms2, v2).
       if \<not> ok2 then Ret (False, int pos, terms2, v2)
       else
         bind_out (scan_subs pos subpos2 terms2 v2) (\<lambda>(ok3, terms3, v3).
         Ret (ok3, if ok3 then n else int pos, terms3, v3))))"

definition scan_SHR :: "bool \<Rightarrow> nat \<Rightarrow> 'f Expr \<Rightarrow> 'f Value \<Rightarrow> 'f scan_result" where
  "scan_SHR ssym_ok pos terms v =
     bind_out (getChildren terms True (int pos)) (\<lambda>ch.
       case ch of
         None \<Rightarrow> Ret (False, int pos, terms, v)
       | Some (lhs, rhs, n) \<Rightarrow>
           (case getSymbol (terms ! nat lhs) of
              None \<Rightarrow> Ret (True, n, terms, v)
            | Some sy \<Rightarrow>
                if v_rel v \<noteq> None \<or> \<not> ssym_ok then Ret (False, n, terms, v)
                else case getIntNum (terms ! nat rhs) of
                       None \<Rightarrow> Ret (False, n, terms, v)
                     | Some intn \<Rightarrow>
                         if getSign intn < 0 then Ret (False, n, terms, v)
                         else
                           let shamt = getUInt intn in
                           if to_u64 (shamt + int (v_rshift v)) > 127 then Ret (False, n, terms, v)
                           else Ret (True, n, upd_term (nat lhs) Zero terms,
                                     v\<lparr>v_rshift := nat ((int (v_rshift v) + shamt) mod 128), v_rel := Some sy\<rparr>)))"

definition scan_SEG :: "bool \<Rightarrow> nat \<Rightarrow> 'f Expr \<Rightarrow> 'f Value \<Rightarrow> 'f scan_result" where
  "scan_SEG ssym_ok pos terms v =
     bind_out (getChildren terms False (int pos)) (\<lambda>ch.
       case ch of
         None \<Rightarrow> Ret (False, int pos, terms, v)
       | Some (lhs, sympos, n) \<Rightarrow>
           (case getSymbol (terms ! nat sympos) of
              None \<Rightarrow> Ret (False, n, terms, v)
            | Some sy \<Rightarrow>
                if v_seg_of v then Ret (False, n, terms, v)
                else
                  let v1 = v\<lparr>v_seg_of := True\<rparr> in
                  if v_rel v1 \<noteq> None \<or> \<not> ssym_ok then Ret (False, n, terms, v1)
                  else Ret (True, n, upd_term pos Zero (upd_term (nat sympos) Clear terms), v1\<lparr>v_rel := Some sy\<rparr>)))"

definition scan_WRT :: "('f Expr \<Rightarrow> int \<Rightarrow> 'f Value \<Rightarrow> 'f scan_result) \<Rightarrow> bool \<Rightarrow> nat \<Rightarrow> 'f Expr \<Rightarrow> 'f Value \<Rightarrow> 'f scan_result" where
  "scan_WRT rec ssym_ok pos terms v =
     bind_out (getChildren terms True (int pos)) (\<lambda>ch.
       case ch of
         None \<Rightarrow> Ret (False, int pos, terms, v)
       | Some (lhs, rhs, n) \<Rightarrow>
           let left = (\<lambda>terms1 v1.
             case getSymbol (terms1 ! nat lhs) of
               Some sy \<Rightarrow>
                 if v_rel v1 \<noteq> None \<or> \<not> ssym_ok then Ret (False, n, terms1, v1)
                 else Ret (True, n, upd_term (nat lhs) Zero terms1, v1\<lparr>v_rel := Some sy\<rparr>)
             | None \<Rightarrow>
                 if isOp (terms1 ! nat lhs)
                 then bind_out (rec terms1 lhs v1) (\<lambda>(ok, m, terms2, v2). Ret (ok, n, terms2, v2))
                 else Ret (True, n, terms1, v1)) in
           (case getSymbol (terms ! nat rhs) of
              Some sy \<Rightarrow>
                if v_wrt v \<noteq> None then Ret (False, n, terms, v)
                else left (upd_term pos (\<lambda>t. t\<lparr>t_data := T_OP Op_ADD (getNumChild t)\<rparr>) (upd_term (nat rhs) Zero terms))
                       (v\<lparr>v_wrt := Some sy\<rparr>)
            | None \<Rightarrow> if isType (terms ! nat rhs) 1 then left terms v else Ret (False, n, terms, v)))"

fun other_scan :: "('f Expr \<Rightarrow> int \<Rightarrow> 'f Value \<Rightarrow> 'f scan_result) \<Rightarrow> nat \<Rightarrow> nat \<Rightarrow> int \<Rightarrow> 'f Expr \<Rightarrow> 'f Value \<Rightarrow> 'f scan_result" where
  "other_scan rec 0 pos n terms v = Undefined"
| "other_scan rec (Suc k) pos n terms v =
     (if n < 0 then Ret (True, n, terms, v)
      else
        let child = terms ! nat n; rdepth = m_depth (terms ! pos) in
        if isEmpty child then other_scan rec k pos (n - 1) terms v
        else if m_depth child \<le> rdepth then Ret (True, n, terms, v)
        else if m_depth child \<noteq> rdepth + 1 then other_scan rec k pos (n - 1) terms v
        else if isType child 16 then Ret (False, n, terms, v)
        else if isOp child then
          bind_out (rec terms n v) (\<lambda>(ok, m, terms', v').
            if \<not> ok then Ret (False, m, terms', v') else other_scan rec k pos m terms' v')
        else other_scan rec k pos (n - 1) terms v)"

fun FinalizeScan :: "Env \<Rightarrow> nat \<Rightarrow> bool \<Rightarrow> 'f Expr \<Rightarrow> int \<Rightarrow> 'f Value \<Rightarrow> 'f scan_result" where
  "FinalizeScan env 0 ssym_ok terms p v = Undefined"
| "FinalizeScan env (Suc k) ssym_ok terms p v =
     (if \<not> valid_pos terms p then Undefined
      else
        let pos = nat (norm_pos terms p); root = terms ! pos in
        if \<not> isOp root then Ret (True, int pos, terms, v)
        else case getOp root of
               Op_ADD \<Rightarrow> scan_ADD env (\<lambda>ts m w. FinalizeScan env k ssym_ok ts m w) ssym_ok pos terms v
             | Op_SHR \<Rightarrow> scan_SHR ssym_ok pos terms v
             | Op_SEG \<Rightarrow> scan_SEG ssym_ok pos terms v
             | Op_WRT \<Rightarrow> scan_WRT (\<lambda>ts m w. FinalizeScan env k ssym_ok ts m w) ssym_ok pos terms v
             | _ \<Rightarrow> other_scan (\<lambda>ts m w. FinalizeScan env k False ts m w) (Suc pos) pos (int pos - 1) terms v)"

section \<open>Value::Finalize\<close>

text \<open>The loop over the operands of a conjunction that removes all-ones masks, from the last term on.\<close>

fun strip_loop :: "IntNum \<Rightarrow> nat \<Rightarrow> 'f Expr \<Rightarrow> bool \<Rightarrow> bool \<times> 'f Expr" where
  "strip_loop m 0 terms found = (found, terms)"
| "strip_loop m (Suc n) terms found =
     (let t = terms ! n; back = length terms - 1 in
      if isEmpty t then strip_loop m n terms found
      else if m_depth t \<noteq> m_depth (terms ! back) + 1 then strip_loop m n terms found
      else case getIntNum t of
             Some intn \<Rightarrow>
               if intnum_eq m intn
               then strip_loop m n (upd_term back (AddNumChild (-1)) (upd_term n Clear terms)) True
               else strip_loop m n terms found
           | None \<Rightarrow> strip_loop m n terms found)"

definition strip_mask :: "'f Expr \<Rightarrow> 'f Value \<Rightarrow> ('f Expr \<times> 'f Value \<times> diag list) outcome" where
  "strip_mask e v =
     (if e = [] \<or> \<not> isOp_of (last e) Op_AND then Ret (e, v, [])
      else
        bind_out (CalcAssert Op_SHL (SV 1) (Some (SV (int (v_size v))))) (\<lambda>m1.
        bind_out (CalcAssert Op_SUB m1 (Some (SV 1))) (\<lambda>mk.
          let (found, e1) = strip_loop mk (length e) e False in
          if found then bind_out (MakeIdent e1 (-1)) (\<lambda>(e2, ds). Ret (e2, v\<lparr>v_no_warn := True\<rparr>, ds))
          else Ret (e1, v, []))))"

text \<open>The symbols that are marked as used are not part of the result.\<close>

definition Value_Finalize :: "'f float_ops \<Rightarrow> Env \<Rightarrow> (nat \<Rightarrow> 'f Expr option) \<Rightarrow> diag \<Rightarrow> 'f Value \<Rightarrow> (bool \<times> 'f Value \<times> diag list) outcome" where
  "Value_Finalize F env equ err_too_complex v =
     (case v_abs v of
        None \<Rightarrow> Ret (True, v, [])
      | Some e \<Rightarrow>
          if e = [] then Ret (True, v\<lparr>v_abs := None\<rparr>, [])
          else
            bind_out (ExpandEqu equ e) (\<lambda>(ok, e1, used).
            if \<not> ok then Ret (False, v\<lparr>v_abs := Some e1\<rparr>, [err_equ_circular_reference])
            else
              bind_out (Simplify F False e1) (\<lambda>(e2, ds2).
              bind_out (strip_mask e2 v) (\<lambda>(e3, v3, ds3).
              let null_zero = (\<lambda>a. if isIntNum a then bind_out (expr_int a) (\<lambda>n. Ret (if isZero n then None else Some a))
                                   else Ret (Some a)) in
              if isIntNum e3 then bind_out (null_zero e3) (\<lambda>a. Ret (True, v3\<lparr>v_abs := a\<rparr>, ds2 @ ds3))
              else if isSymbol e3 then Ret (True, v3\<lparr>v_rel := getSymbol (hd e3), v_abs := None\<rparr>, ds2 @ ds3)
              else
                bind_out (FinalizeScan env (length e3) True e3 (-1) v3) (\<lambda>(ok4, n, e4, v4).
                if \<not> ok4 then Ret (False, v4\<lparr>v_abs := Some e4\<rparr>, ds2 @ ds3 @ [err_too_complex])
                else
                  bind_out (Simplify F False e4) (\<lambda>(e5, ds5).
                  bind_out (null_zero e5) (\<lambda>a. Ret (True, v4\<lparr>v_abs := a\<rparr>, ds2 @ ds3 @ ds5))))))))"

end
