(* ===== verification/Value_Scan_Correct.thy ===== *)
theory Value_Scan_Correct
  imports Value_Scan
begin

text \<open>
  The correctness of \<open>FinalizeScan\<close> on sums of symbols and of \<open>Value_Finalize\<close> on expressions of
  numbers and on symbols.  The symbolic part of a sum is a linear function of the symbols.
\<close>

unbundle bit_operations_syntax

section \<open>Sums of symbols\<close>

text \<open>
  The shape of a sum after simplification, as far as symbols can be split off it: leaves, and symbols
  times minus one.  The symbolic part of its value is linear: a symbol below the sum counts, one below a
  product counts negatively.
\<close>

fun sum_part :: "'f tree \<Rightarrow> bool" where
  "sum_part (Leaf x) = leaf_ok x"
| "sum_part (Node oper ts) =
     (oper = Op_MUL \<and> (case ts of [Leaf (T_SYM s), Leaf (T_INT n)] \<Rightarrow> isNeg1 n | _ \<Rightarrow> False))"

definition sym_val :: "(nat \<Rightarrow> int) \<Rightarrow> 'f ExprTerm \<Rightarrow> int" where
  "sym_val \<sigma> t = (case getSymbol t of Some s \<Rightarrow> \<sigma> s | None \<Rightarrow> 0)"

definition lin :: "(nat \<Rightarrow> int) \<Rightarrow> 'f Expr \<Rightarrow> int" where
  "lin \<sigma> e = (\<Sum>t\<leftarrow>e. if m_depth t = 1 then sym_val \<sigma> t else - sym_val \<sigma> t)"

definition syms_at :: "int \<Rightarrow> 'f Expr \<Rightarrow> 'f Expr" where
  "syms_at d e = List.filter (\<lambda>t. getSymbol t \<noteq> None \<and> m_depth t = d) e"

definition rel_val :: "(nat \<Rightarrow> int) \<Rightarrow> 'f Value \<Rightarrow> int" where
  "rel_val \<sigma> v = (case v_rel v of Some s \<Rightarrow> \<sigma> s | None \<Rightarrow> 0)"

definition sub_val :: "(nat \<Rightarrow> int) \<Rightarrow> 'f Value \<Rightarrow> int" where
  "sub_val \<sigma> v = (case v_sub v of Sub_sym s \<Rightarrow> \<sigma> s | _ \<Rightarrow> 0)"

text \<open>What a scan has collected: the terms at distances \<open>is\<close> from \<open>pos\<close> are symbols of depth \<open>d\<close>.\<close>

definition symbols_at :: "nat \<Rightarrow> int \<Rightarrow> int list \<Rightarrow> 'f Expr \<Rightarrow> bool" where
  "symbols_at pos d is terms \<longleftrightarrow> distinct is \<and>
     (\<forall>i \<in> set is. 1 \<le> i \<and> i \<le> int pos \<and> nat (int pos - i) < length terms \<and>
        m_depth (terms ! nat (int pos - i)) = d \<and> getSymbol (terms ! nat (int pos - i)) \<noteq> None)"

definition val_at :: "(nat \<Rightarrow> int) \<Rightarrow> nat \<Rightarrow> 'f Expr \<Rightarrow> int list \<Rightarrow> int" where
  "val_at \<sigma> pos terms is = (\<Sum>i\<leftarrow>is. sym_val \<sigma> (terms ! nat (int pos - i)))"

lemma lin_append: "lin \<sigma> (xs @ ys) = lin \<sigma> xs + lin \<sigma> ys"
  by (simp add: lin_def)

lemma lin_simps [simp]: "lin \<sigma> [] = 0" "lin \<sigma> (t # ts) = (if m_depth t = 1 then sym_val \<sigma> t else - sym_val \<sigma> t) + lin \<sigma> ts"
  by (simp_all add: lin_def)

lemma getSymbol_simps [simp]: "getSymbol (mk_term (T_SYM s) d) = Some s" "getSymbol (mk_term (T_INT n) d) = None" "getSymbol (mk_term (T_OP oper k) d) = None"
  "getSymbol (Zero t) = None" "m_depth (Zero t) = m_depth t"
  by (simp_all add: getSymbol_def Zero_def)

lemma sum_part_cases:
  assumes "sum_part t"
  obtains x where "t = Leaf x" "leaf_ok x" | s n where "t = Node Op_MUL [Leaf (T_SYM s), Leaf (T_INT n)]" "isNeg1 n"
  using assms by (cases t) (auto split: list.splits tree.splits term_data.splits, (metis neq_Nil_conv)+)

lemma flatten_last: "m_depth (last (flatten d t)) = d"
  by (cases t) simp_all

lemma isNeg1Sym_part:
  assumes "isNeg1 n" "pre \<noteq> [] \<Longrightarrow> \<not> isEmpty (last pre) \<and> m_depth (last pre) \<le> d"
  shows "isNeg1Sym (pre @ [mk_term (T_SYM s) (d + 1), mk_term (T_INT n) (d + 1), mk_term (T_OP Op_MUL 2) d] @ post) (int (length pre + 2)) False =
    Ret (Some (int (length pre), int (length pre + 1), int (length pre) - 1))"
proof -
  let ?e = "pre @ [mk_term (T_SYM s) (d + 1), mk_term (T_INT n) (d + 1), mk_term (T_OP Op_MUL 2) d] @ post"
  have nth: "?e ! length pre = mk_term (T_SYM s) (d + 1)" "?e ! Suc (length pre) = mk_term (T_INT n) (d + 1)"
      "?e ! Suc (Suc (length pre)) = mk_term (T_OP Op_MUL 2) d"
    by (simp_all add: nth_append)
  have "neg1sym_loop False d (length pre) ?e (Some a) (Some b) = Some (Some a, Some b, int (length pre) - 1)" for a b
  proof (cases pre rule: rev_cases)
    case (snoc ys y)
    then show ?thesis using assms(2) by (simp add: nth_append)
  qed simp
  then show ?thesis using assms(1) nth
    by (simp add: isNeg1Sym_def valid_pos_def norm_pos_def isOp_of_def getNumChild_def isEmpty_def getIntNum_def isType_def Let_def nat_add_distrib eval_nat_numeral)
qed

lemma add_scan_step:
  assumes "0 \<le> n" "m_depth (terms ! nat n) = m_depth (terms ! pos) + 1" "\<not> isEmpty (terms ! nat n)"
  shows "add_scan rec (Suc k) pos n relpos subpos terms v =
    (if getSymbol (terms ! nat n) \<noteq> None then add_scan rec k pos (n - 1) (relpos @ [int pos - n]) subpos terms v
     else bind_out (isNeg1Sym terms n False) (\<lambda>r.
        case r of
          Some (sy, neg1, m) \<Rightarrow> add_scan rec k pos m relpos (subpos @ [int pos - sy]) terms v
        | None \<Rightarrow>
            if isOp (terms ! nat n) then
              bind_out (rec terms n v) (\<lambda>(ok, m, terms', v').
                if \<not> ok then Ret (False, m, relpos, subpos, terms', v')
                else add_scan rec k pos m relpos subpos terms' v')
            else add_scan rec k pos (n - 1) relpos subpos terms v))"
  using assms by (simp add: Let_def)

lemma add_scan_end: "add_scan rec (Suc k) pos (-1) relpos subpos terms v = Ret (True, -1, relpos, subpos, terms, v)"
  by simp

declare add_scan.simps(2) [simp del]

lemma symbols_at_Nil [simp]: "symbols_at pos d [] terms"
  by (simp add: symbols_at_def)

lemma symbols_at_Cons:
  "symbols_at pos d (i # is) terms \<longleftrightarrow> i \<notin> set is \<and> 1 \<le> i \<and> i \<le> int pos \<and> nat (int pos - i) < length terms \<and>
     m_depth (terms ! nat (int pos - i)) = d \<and> getSymbol (terms ! nat (int pos - i)) \<noteq> None \<and> symbols_at pos d is terms"
  by (auto simp: symbols_at_def)

lemma val_at_simps [simp]: "val_at \<sigma> pos terms [] = 0" "val_at \<sigma> pos terms (i # is) = sym_val \<sigma> (terms ! nat (int pos - i)) + val_at \<sigma> pos terms is"
  by (simp_all add: val_at_def)

definition scanned :: "nat \<Rightarrow> 'f Expr \<Rightarrow> nat \<Rightarrow> int list \<Rightarrow> int list \<Rightarrow> bool" where
  "scanned pos terms l R S \<longleftrightarrow> symbols_at pos 1 R terms \<and> symbols_at pos 2 S terms \<and> (\<forall>i \<in> set R \<union> set S. int pos - i < int l) \<and>
     (\<forall>\<sigma>. lin \<sigma> (take l terms) = val_at \<sigma> pos terms R - val_at \<sigma> pos terms S) \<and>
     length R = length (syms_at 1 (take l terms)) \<and> length S = length (syms_at 2 (take l terms))"

lemma scanned_bound:
  assumes "scanned pos terms l R S"
  shows "i \<in> set R \<Longrightarrow> int pos - i < 1 + int l" "i \<in> set S \<Longrightarrow> int pos - i < 1 + int l" "int pos - int l \<notin> set R" "int pos - int l \<notin> set S"
  using assms unfolding scanned_def by (force dest: bspec)+

lemma scanned_skip:
  assumes "scanned pos terms l R S" "l < length terms" "getSymbol (terms ! l) = None"
  shows "scanned pos terms (Suc l) R S"
  using scanned_bound [OF assms(1)] assms unfolding scanned_def by (auto simp: take_Suc_conv_app_nth lin_append syms_at_def sym_val_def)

lemma scanned_rel:
  assumes "scanned pos terms l R S" "l < length terms" "l < pos" "getSymbol (terms ! l) \<noteq> None" "m_depth (terms ! l) = 1"
  shows "scanned pos terms (Suc l) ((int pos - int l) # R) S"
  using scanned_bound [OF assms(1)] assms unfolding scanned_def by (auto simp: take_Suc_conv_app_nth lin_append syms_at_def symbols_at_Cons)

lemma scanned_sub:
  assumes "scanned pos terms l R S" "l < length terms" "l < pos" "getSymbol (terms ! l) \<noteq> None" "m_depth (terms ! l) = 2"
  shows "scanned pos terms (Suc l) R ((int pos - int l) # S)"
  using scanned_bound [OF assms(1)] assms unfolding scanned_def by (auto simp: take_Suc_conv_app_nth lin_append syms_at_def symbols_at_Cons)

lemma parts_last:
  assumes "list_all sum_part ts" "concat (List.map (flatten 1) ts) \<noteq> []"
  shows "\<not> isEmpty (last (concat (List.map (flatten 1) ts))) \<and> m_depth (last (concat (List.map (flatten 1) ts))) \<le> 1"
proof (cases ts rule: rev_cases)
  case (snoc us u)
  then have "sum_part u" using assms by simp
  then have "\<not> isEmpty (last (flatten 1 u))"
    by (cases rule: sum_part_cases) (auto simp: isEmpty_def leaf_ok_def split: term_data.splits)
  then show ?thesis using snoc by (simp add: flatten_last)
qed (use assms in simp)

lemma add_scan_parts:
  assumes "list_all sum_part ts" "terms = concat (List.map (flatten 1) ts) @ post" "m_depth (terms ! pos) = 0"
    "length (concat (List.map (flatten 1) ts)) \<le> pos" "length (concat (List.map (flatten 1) ts)) < k"
  shows "\<exists>R S. add_scan rec k pos (int (length (concat (List.map (flatten 1) ts))) - 1) relpos subpos terms v =
      Ret (True, -1, relpos @ R, subpos @ S, terms, v) \<and> scanned pos terms (length (concat (List.map (flatten 1) ts))) R S"
  using assms
proof (induction ts arbitrary: post k relpos subpos rule: rev_induct)
  case Nil
  then show ?case by (cases k) (auto simp: add_scan_end scanned_def syms_at_def)
next
  case (snoc t ts)
  let ?c = "concat (List.map (flatten 1) ts)"
  obtain k' where k: "k = Suc k'" using snoc.prems(5) by (cases k) auto
  have ts: "list_all sum_part ts" "sum_part t" using snoc.prems(1) by auto
  from ts(2) show ?case
  proof (cases rule: sum_part_cases)
    case (1 x)
    then have terms: "terms = ?c @ mk_term x 1 # post" using snoc.prems(2) by simp
    then have nth: "terms ! length ?c = mk_term x 1" by simp
    have IH: "\<exists>R S. add_scan rec k' pos (int (length ?c) - 1) rp subpos terms v = Ret (True, -1, rp @ R, subpos @ S, terms, v) \<and>
        scanned pos terms (length ?c) R S" for rp
      by (rule snoc.IH [where post = "mk_term x 1 # post"]) (use ts snoc.prems(3-5) 1 terms k in auto)
    have n: "int (length (concat (List.map (flatten 1) (ts @ [t])))) - 1 = int (length ?c)" using 1 by simp
    have "\<not> isOp (mk_term x 1)" "\<not> isEmpty (mk_term x 1)" "isNeg1Sym terms (int (length ?c)) False = Ret None"
      using 1(2) terms by (auto simp: isNeg1Sym_def valid_pos_def norm_pos_def isOp_of_def isOp_def isEmpty_def leaf_ok_def split: term_data.splits)
    then have step: "add_scan rec k pos (int (length ?c)) relpos subpos terms v = add_scan rec k' pos (int (length ?c) - 1)
         (if getSymbol (mk_term x 1) \<noteq> None then relpos @ [int pos - int (length ?c)] else relpos) subpos terms v"
      unfolding k using nth snoc.prems(3) by (subst add_scan_step) simp_all
    have len: "length ?c < length terms" "length ?c < pos" "length (concat (List.map (flatten 1) (ts @ [t]))) = Suc (length ?c)"
      using terms snoc.prems(4) 1 by auto
    show ?thesis
    proof (cases "getSymbol (mk_term x 1)")
      case None
      then show ?thesis unfolding n unfolding step unfolding len(3) using IH [of relpos] scanned_skip len(1) nth by fastforce
    next
      case (Some s)
      obtain R S where "add_scan rec k' pos (int (length ?c) - 1) (relpos @ [int pos - int (length ?c)]) subpos terms v =
          Ret (True, -1, (relpos @ [int pos - int (length ?c)]) @ R, subpos @ S, terms, v)" "scanned pos terms (length ?c) R S"
        using IH [of "relpos @ [int pos - int (length ?c)]"] by blast
      then show ?thesis unfolding n unfolding step unfolding len(3) using Some scanned_rel [of pos terms "length ?c" R S] len nth
        by (intro exI [of _ "(int pos - int (length ?c)) # R"] exI [of _ S]) simp
    qed
  next
    case (2 s n)
    then have terms: "terms = ?c @ [mk_term (T_SYM s) 2, mk_term (T_INT n) 2, mk_term (T_OP Op_MUL 2) 1] @ post" using snoc.prems(2) by simp
    have nth: "terms ! length ?c = mk_term (T_SYM s) 2" "terms ! Suc (length ?c) = mk_term (T_INT n) 2" "terms ! Suc (Suc (length ?c)) = mk_term (T_OP Op_MUL 2) 1"
      unfolding terms by (simp_all add: nth_append)
    have IH: "\<exists>R S. add_scan rec k' pos (int (length ?c) - 1) relpos sp terms v = Ret (True, -1, relpos @ R, sp @ S, terms, v) \<and>
        scanned pos terms (length ?c) R S" for sp
      by (rule snoc.IH [where post = "[mk_term (T_SYM s) 2, mk_term (T_INT n) 2, mk_term (T_OP Op_MUL 2) 1] @ post"])
        (use ts snoc.prems(3-5) 2 terms k in auto)
    have n: "int (length (concat (List.map (flatten 1) (ts @ [t])))) - 1 = int (length ?c + 2)" using 2 by simp
    have pre: "?c \<noteq> [] \<Longrightarrow> \<not> isEmpty (last ?c) \<and> m_depth (last ?c) \<le> 1" by (rule parts_last [OF ts(1)])
    have "isNeg1Sym terms (int (length ?c + 2)) False = Ret (Some (int (length ?c), int (length ?c + 1), int (length ?c) - 1))"
      unfolding terms using isNeg1Sym_part [OF 2(2) pre, of s post] by simp
    then have step: "add_scan rec k pos (int (length ?c + 2)) relpos subpos terms v =
        add_scan rec k' pos (int (length ?c) - 1) relpos (subpos @ [int pos - int (length ?c)]) terms v"
      unfolding k using nth snoc.prems(3) by (subst add_scan_step) (simp_all add: nat_add_distrib isEmpty_def numeral_2_eq_2)
    have len: "Suc (Suc (length ?c)) < length terms" "Suc (Suc (length ?c)) < pos"
        "length (concat (List.map (flatten 1) (ts @ [t]))) = Suc (Suc (Suc (length ?c)))"
      using terms snoc.prems(4) 2 by auto
    obtain R S where "add_scan rec k' pos (int (length ?c) - 1) relpos (subpos @ [int pos - int (length ?c)]) terms v =
        Ret (True, -1, relpos @ R, (subpos @ [int pos - int (length ?c)]) @ S, terms, v)" "scanned pos terms (length ?c) R S"
      using IH [of "subpos @ [int pos - int (length ?c)]"] by blast
    then show ?thesis unfolding n unfolding step unfolding len(3) using scanned_sub [of pos terms "length ?c" R S] len nth
      by (intro exI [of _ R] exI [of _ "(int pos - int (length ?c)) # S"]) (simp add: scanned_skip)
  qed
qed

text \<open>Labels have bytecodes.  A valuation is sectional when it does not tell labels of one container apart.\<close>

definition labels_placed :: "Env \<Rightarrow> bool" where
  "labels_placed env \<longleftrightarrow> (\<forall>s loc. env_label env s = Some loc \<longrightarrow> loc_bc loc \<noteq> None)"

definition same_section :: "Env \<Rightarrow> nat \<Rightarrow> nat \<Rightarrow> bool" where
  "same_section env a b \<longleftrightarrow>
     (case (env_label env a, env_label env b) of
        (Some la, Some lb) \<Rightarrow> same_container env la lb = Ret True
      | _ \<Rightarrow> False)"

definition sectional :: "Env \<Rightarrow> (nat \<Rightarrow> int) \<Rightarrow> bool" where
  "sectional env \<sigma> \<longleftrightarrow> (\<forall>a b. same_section env a b \<longrightarrow> \<sigma> a = \<sigma> b)"

abbreviation pending :: "int list \<Rightarrow> int list" where
  "pending subpos \<equiv> List.filter (\<lambda>j. j \<noteq> -1) subpos"

lemma symbols_at_upd:
  assumes "symbols_at pos d is terms" "int pos - int p \<notin> set is"
  shows "symbols_at pos d is (upd_term p Zero terms)" "val_at \<sigma> pos (upd_term p Zero terms) is = val_at \<sigma> pos terms is"
proof -
  have "nat (int pos - i) \<noteq> p" if "i \<in> set is" for i using assms that by (auto simp: symbols_at_def)
  then have same: "terms[p := Zero (terms ! p)] ! nat (int pos - i) = terms ! nat (int pos - i)" if "i \<in> set is" for i
    using that by (metis nth_list_update_neq)
  show "symbols_at pos d is (upd_term p Zero terms)" "val_at \<sigma> pos (upd_term p Zero terms) is = val_at \<sigma> pos terms is"
    using assms(1) by (auto simp: symbols_at_def upd_term_def val_at_def same intro!: arg_cong [where f = sum_list])
qed

lemma lin_upd:
  assumes "p < length terms"
  shows "lin \<sigma> (upd_term p Zero terms) = lin \<sigma> terms - (if m_depth (terms ! p) = 1 then sym_val \<sigma> (terms ! p) else - sym_val \<sigma> (terms ! p))"
proof -
  let ?a = "take p terms" and ?b = "drop (Suc p) terms"
  have "lin \<sigma> terms = lin \<sigma> (?a @ terms ! p # ?b)" using assms by (simp add: id_take_nth_drop [symmetric])
  moreover have "upd_term p Zero terms = ?a @ Zero (terms ! p) # ?b" using assms by (simp add: upd_term_def upd_conv_take_nth_drop)
  moreover have "sym_val \<sigma> (Zero (terms ! p)) = 0" by (simp add: sym_val_def)
  ultimately show ?thesis by (simp add: lin_append)
qed

lemma labels_placedD: "labels_placed env \<Longrightarrow> env_label env s = Some loc \<Longrightarrow> \<exists>b. loc_bc loc = Some b"
  by (auto simp: labels_placed_def)

lemma scan_match_spec:
  assumes "symbols_at pos 2 (pending subpos) terms" "labels_placed env"
  shows "scan_match env pos r rel subpos terms = Ret (False, subpos, terms) \<or>
    (\<exists>js1 j js2 sub. subpos = js1 @ j # js2 \<and> j \<noteq> -1 \<and> getSymbol (terms ! nat (int pos - j)) = Some sub \<and>
       (rel = sub \<and> scan_match env pos r rel subpos terms = Ret (True, js1 @ -1 # js2, upd_term (nat (int pos - j)) Zero (upd_term r Zero terms)) \<or>
        same_section env rel sub \<and> scan_match env pos r rel subpos terms = Ret (True, js1 @ -1 # js2, terms)))"
  using assms(1)
proof (induction subpos)
  case (Cons j js)
  have go: ?case if e: "scan_match env pos r rel (j # js) terms = bind_out (scan_match env pos r rel js terms) (\<lambda>(m, js', terms'). Ret (m, j # js', terms'))"
  proof -
    have "symbols_at pos 2 (pending js) terms" using Cons.prems by (cases "j = -1") (simp_all add: symbols_at_Cons)
    from Cons.IH [OF this] show ?thesis
    proof (elim disjE exE conjE)
      fix js1 i js2 sub
      assume "js = js1 @ i # js2" "i \<noteq> -1" "getSymbol (terms ! nat (int pos - i)) = Some sub" "rel = sub"
        "scan_match env pos r rel js terms = Ret (True, js1 @ -1 # js2, upd_term (nat (int pos - i)) Zero (upd_term r Zero terms))"
      then show ?thesis unfolding e by (intro disjI2 exI [of _ "j # js1"] exI [of _ i] exI [of _ js2] exI [of _ sub]) simp
    next
      fix js1 i js2 sub
      assume "js = js1 @ i # js2" "i \<noteq> -1" "getSymbol (terms ! nat (int pos - i)) = Some sub" "same_section env rel sub"
        "scan_match env pos r rel js terms = Ret (True, js1 @ -1 # js2, terms)"
      then show ?thesis unfolding e by (intro disjI2 exI [of _ "j # js1"] exI [of _ i] exI [of _ js2] exI [of _ sub]) simp
    qed (simp add: e del: scan_match.simps)
  qed
  show ?case
  proof (cases "j = -1")
    case False
    then obtain sub where sub: "getSymbol (terms ! nat (int pos - j)) = Some sub" using Cons.prems by (auto simp: symbols_at_Cons)
    consider (eq) "rel = sub" | (sec) "rel \<noteq> sub" "same_section env rel sub" | (no) "rel \<noteq> sub" "\<not> same_section env rel sub" by blast
    then show ?thesis
    proof cases
      case eq
      then show ?thesis using False sub by (intro disjI2 exI [of _ "[]"] exI [of _ j] exI [of _ js] exI [of _ sub]) simp
    next
      case sec
      then show ?thesis using False sub
        by (intro disjI2 exI [of _ "[]"] exI [of _ j] exI [of _ js] exI [of _ sub]) (auto simp: same_section_def split: option.splits)
    next
      case no
      then have "scan_match env pos r rel (j # js) terms = bind_out (scan_match env pos r rel js terms) (\<lambda>(m, js', terms'). Ret (m, j # js', terms'))"
        using False sub assms(2) by (auto simp: same_section_def same_container_def split: option.splits dest: labels_placedD)
      then show ?thesis by (rule go)
    qed
  next
    case True
    then show ?thesis by (intro go) simp
  qed
qed simp

lemma symbols_at_remove:
  assumes "symbols_at pos d (pending (js1 @ j # js2)) terms" "j \<noteq> -1"
  shows "symbols_at pos d (pending (js1 @ -1 # js2)) terms" "j \<notin> set (pending (js1 @ -1 # js2))"
    "val_at \<sigma> pos terms (pending (js1 @ j # js2)) = sym_val \<sigma> (terms ! nat (int pos - j)) + val_at \<sigma> pos terms (pending (js1 @ -1 # js2))"
    "1 \<le> j" "j \<le> int pos" "nat (int pos - j) < length terms" "m_depth (terms ! nat (int pos - j)) = d"
  using assms by (auto simp: symbols_at_def val_at_def)

lemma scan_rels_spec:
  assumes "symbols_at pos 1 R terms" "symbols_at pos 2 (pending subpos) terms" "labels_placed env"
  shows "\<exists>ok subpos' terms' rel'. scan_rels env ssym_ok pos R subpos terms v = Ret (ok, subpos', terms', v\<lparr>v_rel := rel'\<rparr>) \<and>
    (ok \<longrightarrow> symbols_at pos 2 (pending subpos') terms' \<and>
       (\<forall>\<sigma>. lin \<sigma> terms + rel_val \<sigma> v = lin \<sigma> terms' + rel_val \<sigma> (v\<lparr>v_rel := rel'\<rparr>) \<and>
          (sectional env \<sigma> \<longrightarrow> lin \<sigma> terms - val_at \<sigma> pos terms R + val_at \<sigma> pos terms (pending subpos) =
             lin \<sigma> terms' + val_at \<sigma> pos terms' (pending subpos'))))"
  using assms(1,2)
proof (induction R arbitrary: subpos terms v)
  case Nil
  then show ?case by (intro exI [of _ True] exI [of _ subpos] exI [of _ terms] exI [of _ "v_rel v"]) simp
next
  case (Cons i R)
  let ?r = "nat (int pos - i)"
  have i: "i \<notin> set R" "1 \<le> i" "i \<le> int pos" "?r < length terms" "m_depth (terms ! ?r) = 1" "symbols_at pos 1 R terms"
    using Cons.prems(1) by (auto simp: symbols_at_Cons)
  obtain rel where rel: "getSymbol (terms ! ?r) = Some rel" using Cons.prems(1) by (auto simp: symbols_at_Cons)
  have r': "int pos - int ?r = i" using i by simp
  have i_sub: "i \<notin> set (pending subpos)" using Cons.prems(2) i(5) by (force simp: symbols_at_def)
  have go: ?case if st: "scan_rels env ssym_ok pos (i # R) subpos terms v = scan_rels env ssym_ok pos R subpos1 terms1 (v\<lparr>v_rel := q\<rparr>)"
      "symbols_at pos 1 R terms1" "symbols_at pos 2 (pending subpos1) terms1"
      "\<forall>\<sigma>. lin \<sigma> terms + rel_val \<sigma> v = lin \<sigma> terms1 + rel_val \<sigma> (v\<lparr>v_rel := q\<rparr>)"
      "\<forall>\<sigma>. sectional env \<sigma> \<longrightarrow> lin \<sigma> terms - val_at \<sigma> pos terms (i # R) + val_at \<sigma> pos terms (pending subpos) =
         lin \<sigma> terms1 - val_at \<sigma> pos terms1 R + val_at \<sigma> pos terms1 (pending subpos1)" for subpos1 terms1 q
  proof -
    obtain ok subpos' terms' rel' where "scan_rels env ssym_ok pos R subpos1 terms1 (v\<lparr>v_rel := q\<rparr>) = Ret (ok, subpos', terms', v\<lparr>v_rel := rel'\<rparr>)"
      and k: "ok \<longrightarrow> symbols_at pos 2 (pending subpos') terms' \<and>
       (\<forall>\<sigma>. lin \<sigma> terms1 + rel_val \<sigma> (v\<lparr>v_rel := q\<rparr>) = lin \<sigma> terms' + rel_val \<sigma> (v\<lparr>v_rel := rel'\<rparr>) \<and>
          (sectional env \<sigma> \<longrightarrow> lin \<sigma> terms1 - val_at \<sigma> pos terms1 R + val_at \<sigma> pos terms1 (pending subpos1) =
             lin \<sigma> terms' + val_at \<sigma> pos terms' (pending subpos')))"
      using Cons.IH [OF st(2,3), of "v\<lparr>v_rel := q\<rparr>"] by auto
    then show ?thesis using st(4,5) by (intro exI [of _ ok] exI [of _ subpos'] exI [of _ terms'] exI [of _ rel']) (simp del: scan_rels.simps val_at_simps add: st(1))
  qed
  let ?t1 = "upd_term ?r Zero terms"
  have t1: "symbols_at pos 1 R ?t1" "symbols_at pos 2 (pending subpos) ?t1" "\<And>\<sigma>. val_at \<sigma> pos ?t1 R = val_at \<sigma> pos terms R"
      "\<And>\<sigma>. val_at \<sigma> pos ?t1 (pending subpos) = val_at \<sigma> pos terms (pending subpos)" "\<And>\<sigma>. lin \<sigma> ?t1 = lin \<sigma> terms - \<sigma> rel"
    using symbols_at_upd [of pos 1 R terms ?r] symbols_at_upd [of pos 2 "pending subpos" terms ?r] lin_upd [OF i(4)] i Cons.prems(2) i_sub r' rel
    by (simp_all add: sym_val_def)
  from scan_match_spec [OF Cons.prems(2) assms(3), of ?r rel] show ?case
  proof (elim disjE exE conjE)
    assume m: "scan_match env pos ?r rel subpos terms = Ret (False, subpos, terms)"
    show ?thesis
    proof (cases "v_rel v \<noteq> None \<or> \<not> ssym_ok")
      case True
      then show ?thesis using m rel by (intro exI [of _ False] exI [of _ subpos] exI [of _ terms] exI [of _ "v_rel v"]) simp
    next
      case False
      then show ?thesis using m rel t1 by (intro go [of subpos ?t1 "Some rel"]) (simp_all add: rel_val_def sym_val_def)
    qed
  next
    fix js1 j js2 sub
    assume m: "subpos = js1 @ j # js2" "j \<noteq> -1" "getSymbol (terms ! nat (int pos - j)) = Some sub" "rel = sub"
      "scan_match env pos ?r rel subpos terms = Ret (True, js1 @ -1 # js2, upd_term (nat (int pos - j)) Zero ?t1)"
    let ?s = "nat (int pos - j)" and ?js = "js1 @ -1 # js2"
    note rm = symbols_at_remove [OF t1(2) [unfolded m(1)] m(2)]
    have "?t1 ! ?r = Zero (terms ! ?r)" using i(4) by (simp add: upd_term_def)
    then have "?s \<noteq> ?r" using rm(7) i(5) by auto
    then have s: "int pos - int ?s = j" "?t1 ! ?s = terms ! ?s" "j \<notin> set R"
      using rm(4-7) t1(1) by (auto simp: upd_term_def symbols_at_def)
    have "symbols_at pos 1 R (upd_term ?s Zero ?t1)" "symbols_at pos 2 (pending ?js) (upd_term ?s Zero ?t1)"
      "\<And>\<sigma>. val_at \<sigma> pos (upd_term ?s Zero ?t1) R = val_at \<sigma> pos terms R"
      "\<And>\<sigma>. \<sigma> sub + val_at \<sigma> pos (upd_term ?s Zero ?t1) (pending ?js) = val_at \<sigma> pos terms (pending subpos)"
      "\<And>\<sigma>. lin \<sigma> (upd_term ?s Zero ?t1) = lin \<sigma> terms - \<sigma> rel + \<sigma> sub"
      using symbols_at_upd [of pos 1 R ?t1 ?s] symbols_at_upd [of pos 2 "pending ?js" ?t1 ?s] rm s t1 lin_upd [OF rm(6)] m(1,3)
      by (simp_all add: sym_val_def)
    then show ?thesis using m rel by (intro go [of ?js "upd_term ?s Zero ?t1" "v_rel v"]) (simp_all add: sym_val_def algebra_simps)
  next
    fix js1 j js2 sub
    assume m: "subpos = js1 @ j # js2" "j \<noteq> -1" "getSymbol (terms ! nat (int pos - j)) = Some sub" "same_section env rel sub"
      "scan_match env pos ?r rel subpos terms = Ret (True, js1 @ -1 # js2, terms)"
    note rm = symbols_at_remove [of pos 2 js1 j js2 terms, OF _ m(2)]
    show ?thesis 
      using m rel i(6) rm Cons.prems(2) by (intro go [of "js1 @ -1 # js2" terms "v_rel v"]) (auto simp: sectional_def sym_val_def)
  qed
qed

lemma scan_subs_spec:
  assumes "symbols_at pos 2 (pending S) terms"
  shows "\<exists>ok terms' sub'. scan_subs pos S terms v = Ret (ok, terms', v\<lparr>v_sub := sub'\<rparr>) \<and>
    (ok \<longrightarrow> (\<forall>\<sigma>. lin \<sigma> terms - sub_val \<sigma> v = lin \<sigma> terms' - sub_val \<sigma> (v\<lparr>v_sub := sub'\<rparr>) \<and>
       lin \<sigma> terms + val_at \<sigma> pos terms (pending S) = lin \<sigma> terms'))"
  using assms
proof (induction S arbitrary: terms v)
  case Nil
  then show ?case by (intro exI [of _ True] exI [of _ terms] exI [of _ "v_sub v"]) simp
next
  case (Cons i S)
  let ?s = "nat (int pos - i)"
  show ?case
  proof (cases "i = -1")
    case True
    then show ?thesis using Cons by simp
  next
    case False
    then have i: "i \<notin> set (pending S)" "1 \<le> i" "i \<le> int pos" "?s < length terms" "m_depth (terms ! ?s) = 2" "symbols_at pos 2 (pending S) terms"
      using Cons.prems by (auto simp: symbols_at_Cons)
    obtain sub where sub: "getSymbol (terms ! ?s) = Some sub" using Cons.prems False by (auto simp: symbols_at_Cons)
    show ?thesis
    proof (cases "hasSubRelative v")
      case True
      then show ?thesis using False sub by (intro exI [of _ False] exI [of _ terms] exI [of _ "v_sub v"]) simp
    next
      case no: False
      let ?t1 = "upd_term ?s Zero terms" and ?v1 = "v\<lparr>v_sub := Sub_sym sub\<rparr>"
      have t1: "symbols_at pos 2 (pending S) ?t1" "\<And>\<sigma>. val_at \<sigma> pos ?t1 (pending S) = val_at \<sigma> pos terms (pending S)"
          "\<And>\<sigma>. lin \<sigma> ?t1 = lin \<sigma> terms + \<sigma> sub"
        using symbols_at_upd [OF i(6), of ?s] lin_upd [OF i(4)] i sub by (simp_all add: sym_val_def)
      obtain ok terms' sub' where "scan_subs pos S ?t1 ?v1 = Ret (ok, terms', v\<lparr>v_sub := sub'\<rparr>)"
        and k: "ok \<longrightarrow> (\<forall>\<sigma>. lin \<sigma> ?t1 - sub_val \<sigma> ?v1 = lin \<sigma> terms' - sub_val \<sigma> (v\<lparr>v_sub := sub'\<rparr>) \<and>
          lin \<sigma> ?t1 + val_at \<sigma> pos ?t1 (pending S) = lin \<sigma> terms')"
        using Cons.IH [OF t1(1), of ?v1] by auto
      then have "scan_subs pos (i # S) terms v = Ret (ok, terms', v\<lparr>v_sub := sub'\<rparr>)" using False sub no by simp
      moreover have v: "sub_val \<sigma> v = 0" "sub_val \<sigma> ?v1 = \<sigma> sub" for \<sigma> using no by (simp_all add: hasSubRelative_def sub_val_def)
      have val: "val_at \<sigma> pos terms (pending (i # S)) = \<sigma> sub + val_at \<sigma> pos terms (pending S)" for \<sigma> using False sub by (simp add: sym_val_def)
      have "lin \<sigma> terms - sub_val \<sigma> v = lin \<sigma> terms' - sub_val \<sigma> (v\<lparr>v_sub := sub'\<rparr>) \<and>
         lin \<sigma> terms + val_at \<sigma> pos terms (pending (i # S)) = lin \<sigma> terms'" if ok for \<sigma>
        using k [THEN mp, OF that, THEN spec, of \<sigma>] t1(2,3) [of \<sigma>] v [of \<sigma>] val [of \<sigma>] by linarith
      ultimately show ?thesis by (intro exI [of _ ok] exI [of _ terms'] exI [of _ sub']) simp
    qed
  qed
qed

text \<open>One symbol and one subtracted symbol can always be split off.\<close>

lemma scan_match_pending: "scan_match env pos r rel S terms = Ret (m, S', terms') \<Longrightarrow> length (pending S') \<le> length (pending S)"
  by (induction S arbitrary: S' terms') (fastforce simp: Let_def bind_out_Ret_iff split: if_splits option.splits)+

lemma scan_rels_ok:
  assumes "length R \<le> 1" "v_rel v = None" "scan_rels env True pos R S terms v = Ret (ok, S', terms', v')"
  shows "ok \<and> length (pending S') \<le> length (pending S)"
  using assms scan_match_pending by (cases R) (fastforce simp: Let_def bind_out_Ret_iff split: if_splits option.splits)+

lemma scan_subs_pending: "pending S = [] \<Longrightarrow> scan_subs pos S terms v = Ret (True, terms, v)"
  by (induction S) (auto split: if_splits)

lemma scan_subs_ok:
  assumes "length (pending S) \<le> 1" "\<not> hasSubRelative v" "scan_subs pos S terms v = Ret (ok, terms', v')"
  shows ok
  using assms by (induction S) (auto simp: Let_def scan_subs_pending split: if_splits option.splits)

section \<open>The value of a sum\<close>

text \<open>
  The value of a sum or product, in the integers, for a valuation of the symbols and one of the other leaves (registers, locations).
\<close>

fun tree_int :: "(nat \<Rightarrow> int) \<Rightarrow> ('f term_data \<Rightarrow> int) \<Rightarrow> 'f tree \<Rightarrow> int" where
  "tree_int \<sigma> \<rho> (Leaf x) = (case x of T_SYM s \<Rightarrow> \<sigma> s | T_INT n \<Rightarrow> intnum_val n | _ \<Rightarrow> \<rho> x)"
| "tree_int \<sigma> \<rho> (Node oper ts) = (if oper = Op_MUL then prod_list (List.map (tree_int \<sigma> \<rho>) ts) else sum_list (List.map (tree_int \<sigma> \<rho>) ts))"

definition zeroed_term :: "'f ExprTerm \<Rightarrow> 'f ExprTerm \<Rightarrow> bool" where
  "zeroed_term t t' \<longleftrightarrow> t' = t \<or> getSymbol t \<noteq> None \<and> t' = Zero t"

abbreviation zeroed :: "'f Expr \<Rightarrow> 'f Expr \<Rightarrow> bool" where
  "zeroed \<equiv> list_all2 zeroed_term"

lemma zeroed_refl: "zeroed e e"
  by (simp add: list_all2_refl zeroed_term_def)

lemma zeroed_trans: "zeroed a b \<Longrightarrow> zeroed b c \<Longrightarrow> zeroed a c"
  by (rule list_all2_trans [of zeroed_term zeroed_term zeroed_term]) (auto simp: zeroed_term_def)

lemma zeroed_upd: "zeroed a b \<Longrightarrow> getSymbol (a ! p) \<noteq> None \<Longrightarrow> zeroed a (upd_term p Zero b)"
proof -
  assume a: "zeroed a b" "getSymbol (a ! p) \<noteq> None"
  have "Zero (Zero t) = Zero t" for t :: "'a ExprTerm" by (simp add: Zero_def)
  then have "zeroed_term t t' \<Longrightarrow> getSymbol t \<noteq> None \<Longrightarrow> zeroed_term t (Zero t')" for t t' :: "'a ExprTerm" by (auto simp: zeroed_term_def)
  then show ?thesis using a by (cases "p < length b") (auto simp: upd_term_def list_all2_conv_all_nth nth_list_update)
qed

lemma scan_match_zeroed:
  "scan_match env pos r rel S terms = Ret (m, S', terms') \<Longrightarrow> getSymbol (terms ! r) \<noteq> None \<Longrightarrow> zeroed terms terms'"
proof (induction S arbitrary: S')
  case (Cons j js)
  have "zeroed terms (upd_term s Zero (upd_term r Zero terms))" if "getSymbol (terms ! s) \<noteq> None" for s
    using that Cons.prems(2) by (intro zeroed_upd zeroed_refl)
  then show ?case using Cons by (fastforce simp: Let_def bind_out_Ret_iff zeroed_refl split: if_splits option.splits)
qed (simp add: zeroed_refl)

lemma scan_rels_zeroed:
  "scan_rels env ok pos R S terms v = Ret (ok', S', terms', v') \<Longrightarrow> zeroed terms terms'"
proof (induction R arbitrary: ok S terms v)
  case (Cons i R)
  obtain rel where rel: "getSymbol (terms ! nat (int pos - i)) = Some rel" using Cons.prems by (cases "getSymbol (terms ! nat (int pos - i))") auto
  then obtain m S1 t1 where m: "scan_match env pos (nat (int pos - i)) rel S terms = Ret (m, S1, t1)"
    using Cons.prems by (auto simp: Let_def bind_out_Ret_iff)
  then have z: "zeroed terms t1" using scan_match_zeroed rel by force
  moreover have "zeroed terms (upd_term (nat (int pos - i)) Zero t1)" using z rel by (intro zeroed_upd) auto
  ultimately show ?case using Cons.prems rel m
    by (auto simp: Let_def split: if_splits dest!: Cons.IH intro: zeroed_trans)
qed (simp add: zeroed_refl)

lemma scan_subs_zeroed:
  "scan_subs pos S terms v = Ret (ok, terms', v') \<Longrightarrow> zeroed terms terms'"
proof (induction S arbitrary: terms v)
  case (Cons i S)
  have "zeroed terms (upd_term (nat (int pos - i)) Zero terms)" if "getSymbol (terms ! nat (int pos - i)) \<noteq> None"
    using that by (intro zeroed_upd zeroed_refl)
  then show ?case using Cons by (fastforce simp: Let_def zeroed_refl split: if_splits option.splits dest: zeroed_trans)
qed (simp add: zeroed_refl)

text \<open>A part of which the symbol has been taken out.\<close>

definition split_part :: "'f tree \<Rightarrow> 'f tree \<Rightarrow> bool" where
  "split_part t t' \<longleftrightarrow> t' = t \<or> (\<exists>s. t = Leaf (T_SYM s) \<and> t' = Leaf (T_INT (SV 0))) \<or>
     (\<exists>s n. t = Node Op_MUL [Leaf (T_SYM s), Leaf (T_INT n)] \<and> t' = Node Op_MUL [Leaf (T_INT (SV 0)), Leaf (T_INT n)])"

lemma zeroed_mk_term:
  "zeroed_term (mk_term x d) t' \<longleftrightarrow> t' = mk_term x d \<or> (\<exists>s. x = T_SYM s \<and> t' = mk_term (T_INT (SV 0)) d)"
  by (cases x) (auto simp: zeroed_term_def getSymbol_def Zero_def mk_term_def)

lemma zeroed_part:
  assumes "sum_part t" "zeroed (flatten d t) e'"
  shows "\<exists>t'. e' = flatten d t' \<and> split_part t t'"
  using assms(1)
proof (cases rule: sum_part_cases)
  case (1 x)
  then show ?thesis using assms(2) by (auto simp: list_all2_Cons1 zeroed_mk_term split_part_def intro: exI [of _ "Leaf x"] exI [of _ "Leaf (T_INT (SV 0))"])
next
  case (2 s n)
  then have "e' = flatten d t \<or> e' = flatten d (Node Op_MUL [Leaf (T_INT (SV 0)), Leaf (T_INT n)])"
    using assms(2) by (auto simp: list_all2_Cons1 zeroed_mk_term)
  moreover have "split_part t t" "split_part t (Node Op_MUL [Leaf (T_INT (SV 0)), Leaf (T_INT n)])" using 2 by (simp_all add: split_part_def)
  ultimately show ?thesis by blast
qed

lemma zeroed_parts:
  assumes "list_all sum_part ts" "zeroed (concat (List.map (flatten d) ts) @ post) e'"
  shows "\<exists>ts' post'. e' = concat (List.map (flatten d) ts') @ post' \<and> list_all2 split_part ts ts' \<and> zeroed post post'"
  using assms
proof (induction ts arbitrary: e')
  case (Cons t ts)
  then obtain a b where ab: "e' = a @ b" "zeroed (flatten d t) a" "zeroed (concat (List.map (flatten d) ts) @ post) b"
    by (auto simp: list_all2_append1)
  obtain t' where "a = flatten d t'" "split_part t t'" using zeroed_part [of t d a] ab(2) Cons.prems(1) by auto
  moreover obtain ts' post' where "b = concat (List.map (flatten d) ts') @ post'" "list_all2 split_part ts ts'" "zeroed post post'"
    using Cons.IH [OF _ ab(3)] Cons.prems(1) by auto
  ultimately show ?case using ab(1) by (intro exI [of _ "t' # ts'"] exI [of _ post']) auto
qed simp

lemma zeroed_sum:
  assumes "list_all sum_part ts" "zeroed (flatten 0 (Node Op_ADD ts)) e'"
  shows "\<exists>ts'. e' = flatten 0 (Node Op_ADD ts') \<and> list_all2 split_part ts ts'"
proof -
  obtain ts' post' where p: "e' = concat (List.map (flatten 1) ts') @ post'" "list_all2 split_part ts ts'"
      "zeroed [mk_term (T_OP Op_ADD (int (length ts))) 0] post'"
    using zeroed_parts [OF assms(1), of 1 "[mk_term (T_OP Op_ADD (int (length ts))) 0]" e'] assms(2) by auto
  then have "post' = [mk_term (T_OP Op_ADD (int (length ts))) 0]" by (auto simp: list_all2_Cons1 zeroed_mk_term)
  moreover have "length ts' = length ts" using p(2) by (simp add: list_all2_lengthD)
  ultimately show ?thesis using p(1,2) by (intro exI [of _ ts']) simp
qed

text \<open>The value of a part is that of its numbers and the symbolic part; taking a symbol out changes the latter only.\<close>

lemma isNeg1_value: "isNeg1 n \<Longrightarrow> intnum_val n = -1"
  by (cases n) (auto simp: isNeg1_def)

lemma part_value:
  assumes "sum_part t" "split_part t t'"
  shows "tree_int \<sigma> \<rho> t = tree_int (\<lambda>s. 0) \<rho> t + lin \<sigma> (flatten 1 t) \<and>
    tree_int \<sigma> \<rho> t' = tree_int (\<lambda>s. 0) \<rho> t + lin \<sigma> (flatten 1 t')"
  using assms(1)
proof (cases rule: sum_part_cases)
  case (1 x)
  then show ?thesis using assms(2) by (auto simp: split_part_def sym_val_def getSymbol_def split: term_data.splits)
next
  case (2 s n)
  then show ?thesis using assms(2) isNeg1_value [of n] by (auto simp: split_part_def sym_val_def)
qed

lemma sum_value:
  assumes "list_all sum_part ts" "list_all2 split_part ts ts'"
  shows "tree_int \<sigma> \<rho> (Node Op_ADD ts) = tree_int (\<lambda>s. 0) \<rho> (Node Op_ADD ts) + lin \<sigma> (flatten 0 (Node Op_ADD ts))"
    "tree_int \<sigma> \<rho> (Node Op_ADD ts') = tree_int (\<lambda>s. 0) \<rho> (Node Op_ADD ts) + lin \<sigma> (flatten 0 (Node Op_ADD ts'))"
proof -
  have "sum_list (List.map (tree_int \<sigma> \<rho>) ts) = sum_list (List.map (tree_int (\<lambda>s. 0) \<rho>) ts) + lin \<sigma> (concat (List.map (flatten 1) ts)) \<and>
      sum_list (List.map (tree_int \<sigma> \<rho>) ts') = sum_list (List.map (tree_int (\<lambda>s. 0) \<rho>) ts) + lin \<sigma> (concat (List.map (flatten 1) ts'))"
    using assms(2,1)
  proof (induction rule: list_all2_induct)
    case (Cons t ts t' ts')
    then show ?case using part_value [of t t' \<sigma> \<rho>] by (simp add: lin_append)
  qed simp
  then show "tree_int \<sigma> \<rho> (Node Op_ADD ts) = tree_int (\<lambda>s. 0) \<rho> (Node Op_ADD ts) + lin \<sigma> (flatten 0 (Node Op_ADD ts))"
    "tree_int \<sigma> \<rho> (Node Op_ADD ts') = tree_int (\<lambda>s. 0) \<rho> (Node Op_ADD ts) + lin \<sigma> (flatten 0 (Node Op_ADD ts'))"
    by (simp_all add: lin_append sym_val_def)
qed

lemma lin_zero: "lin (\<lambda>s. 0) e = 0"
  by (induction e) (auto simp: sym_val_def split: option.splits)

section \<open>The scan of a whole sum\<close>

lemma FinalizeScan_sum:
  assumes "ts \<noteq> []" "list_all sum_part ts" "labels_placed env"
  shows "\<exists>ok n e' rel' sub'. FinalizeScan env (length (flatten 0 (Node Op_ADD ts))) True (flatten 0 (Node Op_ADD ts)) (-1) v =
      Ret (ok, n, e', v\<lparr>v_rel := rel', v_sub := sub'\<rparr>) \<and> zeroed (flatten 0 (Node Op_ADD ts)) e' \<and>
    (ok \<longrightarrow> (\<forall>\<sigma>. lin \<sigma> (flatten 0 (Node Op_ADD ts)) + rel_val \<sigma> v - sub_val \<sigma> v =
         lin \<sigma> e' + rel_val \<sigma> (v\<lparr>v_rel := rel', v_sub := sub'\<rparr>) - sub_val \<sigma> (v\<lparr>v_rel := rel', v_sub := sub'\<rparr>) \<and>
       (sectional env \<sigma> \<longrightarrow> lin \<sigma> e' = 0))) \<and>
    (v_rel v = None \<and> v_sub v = Sub_none \<and> length (syms_at 1 (flatten 0 (Node Op_ADD ts))) \<le> 1 \<and>
       length (syms_at 2 (flatten 0 (Node Op_ADD ts))) \<le> 1 \<longrightarrow> ok)"
proof -
  let ?c = "concat (List.map (flatten 1) ts)" and ?e = "flatten 0 (Node Op_ADD ts)"
  let ?rec = "\<lambda>ts m w. FinalizeScan env (length ?c) True ts m w" and ?pos = "length ?c"
  have e: "?e = ?c @ [mk_term (T_OP Op_ADD (int (length ts))) 0]" by simp
  have start: "FinalizeScan env (length ?e) True ?e (-1) v = scan_ADD env ?rec True ?pos ?e v"
    unfolding e by (simp add: valid_pos_def norm_pos_def isOp_def getOp_def nth_append Let_def)
  obtain R S where RS: "add_scan ?rec (Suc ?pos) ?pos (int ?pos - 1) [] [] ?e v = Ret (True, -1, R, S, ?e, v)" "scanned ?pos ?e ?pos R S"
    using add_scan_parts [OF assms(2) e, of ?pos "Suc ?pos" ?rec "[]" "[]" v] by (auto simp: nth_append)
  have pend: "pending S = S" using RS(2) by (force simp: scanned_def symbols_at_def intro: filter_True)
  have lin0: "lin \<sigma> ?e = val_at \<sigma> ?pos ?e R - val_at \<sigma> ?pos ?e S" for \<sigma>
    using RS(2) by (simp add: scanned_def lin_append sym_val_def)
  obtain ok2 S2 e2 rel' where 2: "scan_rels env True ?pos R S ?e v = Ret (ok2, S2, e2, v\<lparr>v_rel := rel'\<rparr>)"
      "ok2 \<longrightarrow> symbols_at ?pos 2 (pending S2) e2 \<and>
       (\<forall>\<sigma>. lin \<sigma> ?e + rel_val \<sigma> v = lin \<sigma> e2 + rel_val \<sigma> (v\<lparr>v_rel := rel'\<rparr>) \<and>
          (sectional env \<sigma> \<longrightarrow> lin \<sigma> ?e - val_at \<sigma> ?pos ?e R + val_at \<sigma> ?pos ?e (pending S) = lin \<sigma> e2 + val_at \<sigma> ?pos e2 (pending S2)))"
    using scan_rels_spec [of ?pos R ?e S env True v] RS(2) assms(3) pend by (auto simp: scanned_def simp del: flatten.simps)
  have z2: "zeroed ?e e2" by (rule scan_rels_zeroed [OF 2(1)])
  have few: "length R = length (syms_at 1 ?e)" "length S = length (syms_at 2 ?e)" using RS(2) by (simp_all add: scanned_def syms_at_def)
  have ok2: "v_rel v = None \<Longrightarrow> length (syms_at 1 ?e) \<le> 1 \<Longrightarrow> ok2 \<and> length (pending S2) \<le> length (syms_at 2 ?e)"
    using scan_rels_ok [OF _ _ 2(1)] few pend by auto
  show ?thesis
  proof (cases ok2)
    case False
    then show ?thesis unfolding start using RS(1) 2(1) ok2 z2
      by (intro exI [of _ False] exI [of _ "int ?pos"] exI [of _ e2] exI [of _ rel'] exI [of _ "v_sub v"]) (auto simp: scan_ADD_def simp del: flatten.simps)
  next
    case True
    then obtain ok3 e3 sub' where 3: "scan_subs ?pos S2 e2 (v\<lparr>v_rel := rel'\<rparr>) = Ret (ok3, e3, v\<lparr>v_rel := rel', v_sub := sub'\<rparr>)"
        "ok3 \<longrightarrow> (\<forall>\<sigma>. lin \<sigma> e2 - sub_val \<sigma> (v\<lparr>v_rel := rel'\<rparr>) = lin \<sigma> e3 - sub_val \<sigma> (v\<lparr>v_rel := rel', v_sub := sub'\<rparr>) \<and>
           lin \<sigma> e2 + val_at \<sigma> ?pos e2 (pending S2) = lin \<sigma> e3)"
      using scan_subs_spec [of ?pos S2 e2 "v\<lparr>v_rel := rel'\<rparr>"] 2(2) by auto
    have "rel_val \<sigma> (v\<lparr>v_rel := rel', v_sub := sub'\<rparr>) = rel_val \<sigma> (v\<lparr>v_rel := rel'\<rparr>)" "sub_val \<sigma> (v\<lparr>v_rel := rel'\<rparr>) = sub_val \<sigma> v" for \<sigma>
      by (simp_all add: rel_val_def sub_val_def)
    moreover have "v_rel v = None \<Longrightarrow> v_sub v = Sub_none \<Longrightarrow> length (syms_at 1 ?e) \<le> 1 \<Longrightarrow> length (syms_at 2 ?e) \<le> 1 \<Longrightarrow> ok3"
      using scan_subs_ok [OF _ _ 3(1)] ok2 by (simp add: hasSubRelative_def)
    moreover have "zeroed ?e e3" using z2 scan_subs_zeroed [OF 3(1)] by (rule zeroed_trans)
    ultimately show ?thesis unfolding start using RS(1) 2 3 True pend lin0
      by (intro exI [of _ ok3] exI [of _ "if ok3 then -1 else int ?pos"] exI [of _ e3] exI [of _ rel'] exI [of _ sub'])
        (fastforce simp: scan_ADD_def simp del: flatten.simps)
  qed
qed

section \<open>Values without symbols, and single symbols\<close>

lemma Value_Finalize_start:
  assumes "v_abs v = Some (flatten 0 t)" "finite {sy. T sy \<noteq> None}" "\<forall>sy u. T sy = Some u \<longrightarrow> wf_tree u" "wf_tree t" "expands T {} t t'"
  shows "\<exists>used. ExpandEqu (map_option (flatten 0) \<circ> T) (flatten 0 t) = Ret (True, flatten 0 t', used)"
  using ExpandEqu_tree [OF assms(2-4)] assms(5) by (blast dest: expands_unique)

lemma Value_Finalize_number:
  assumes "v_abs v = Some (flatten 0 t)" "finite {sy. T sy \<noteq> None}" "\<forall>sy u. T sy = Some u \<longrightarrow> wf_tree u" "wf_tree t" "expands T {} t t'"
    and "tame t'" "tree_val int_leaf t' = Some x"
  shows "\<exists>n. wf_IntNum n \<and> intnum_val n = x \<and>
    Value_Finalize F env (map_option (flatten 0) \<circ> T) err v = Ret (True, v\<lparr>v_abs := if isZero n then None else Some [int_at 0 n]\<rparr>, [])"
proof -
  obtain used where used: "ExpandEqu (map_option (flatten 0) \<circ> T) (flatten 0 t) = Ret (True, flatten 0 t', used)"
    using Value_Finalize_start [OF assms(1-5)] by blast
  have "wf_tree t'" using expands_wf assms(3-5) by blast
  then obtain n where n: "Simplify F False (flatten 0 t') = Ret ([int_at 0 n], [])" "wf_IntNum n" "intnum_val n = x"
    using Simplify_tree assms(6,7) by blast
  then show ?thesis using assms(1) used
    by (intro exI [of _ n]) (simp add: Value_Finalize_def strip_mask_def isOp_of_def isIntNum_def isType_def expr_int_def getIntNum_def)
qed

lemma Value_Finalize_symbol:
  assumes "v_abs v = Some (flatten 0 t)" "finite {sy. T sy \<noteq> None}" "\<forall>sy u. T sy = Some u \<longrightarrow> wf_tree u" "wf_tree t" "expands T {} t (Leaf (T_SYM s))"
  shows "Value_Finalize F env (map_option (flatten 0) \<circ> T) err v = Ret (True, v\<lparr>v_rel := Some s, v_abs := None\<rparr>, [])"
proof -
  obtain used where used: "ExpandEqu (map_option (flatten 0) \<circ> T) (flatten 0 t) = Ret (True, flatten 0 (Leaf (T_SYM s)), used)"
    using Value_Finalize_start [OF assms] by blast
  have "Simplify F False [mk_term (T_SYM s) 0] = Ret ([mk_term (T_SYM s) 0], [])"
    by (simp add: Simplify_def TransformNeg_def TransformNegImpl_step neg_step_def Let_def getOp_def isEmpty_def isOp_def)
  then show ?thesis using assms(1) used
    by (simp add: Value_Finalize_def strip_mask_def isOp_of_def isIntNum_def isSymbol_def isType_def)
qed

section \<open>Properties\<close>

text \<open>
  C6. \<open>FinalizeScan\<close> of a sum of leaves and negated symbols always returns.  When it succeeds it has split the sum: the remaining
  expression is the sum with the symbols that were taken out replaced by zero, and for every valuation of the symbols and of the
  other leaves the value of the sum is that of the remaining one plus the relative symbol less the subtracted one.  What remains does
  not change when the labels of a section move together, so it can be computed without relocations.  The scan succeeds for one
  symbol and one subtracted symbol.
\<close>

theorem FinalizeScan_correct:
  assumes "ts \<noteq> []" "list_all sum_part ts" "labels_placed env"
  shows "\<exists>ok n e' rel' sub'. FinalizeScan env (length (flatten 0 (Node Op_ADD ts))) True (flatten 0 (Node Op_ADD ts)) (-1) v =
      Ret (ok, n, e', v\<lparr>v_rel := rel', v_sub := sub'\<rparr>) \<and>
    (ok \<longrightarrow> (\<exists>ts'. e' = flatten 0 (Node Op_ADD ts') \<and> list_all2 split_part ts ts' \<and>
       (\<forall>\<sigma> \<rho>. tree_int \<sigma> \<rho> (Node Op_ADD ts) + rel_val \<sigma> v - sub_val \<sigma> v =
            tree_int \<sigma> \<rho> (Node Op_ADD ts') + rel_val \<sigma> (v\<lparr>v_rel := rel', v_sub := sub'\<rparr>) - sub_val \<sigma> (v\<lparr>v_rel := rel', v_sub := sub'\<rparr>) \<and>
          (sectional env \<sigma> \<longrightarrow> tree_int \<sigma> \<rho> (Node Op_ADD ts') = tree_int (\<lambda>s. 0) \<rho> (Node Op_ADD ts'))))) \<and>
    (v_rel v = None \<and> v_sub v = Sub_none \<and> length (syms_at 1 (flatten 0 (Node Op_ADD ts))) \<le> 1 \<and>
       length (syms_at 2 (flatten 0 (Node Op_ADD ts))) \<le> 1 \<longrightarrow> ok)"
proof -
  let ?e = "flatten 0 (Node Op_ADD ts)"
  obtain ok n e' rel' sub' where s: "FinalizeScan env (length ?e) True ?e (-1) v = Ret (ok, n, e', v\<lparr>v_rel := rel', v_sub := sub'\<rparr>)"
      "zeroed ?e e'"
    and lin: "ok \<longrightarrow> (\<forall>\<sigma>. lin \<sigma> ?e + rel_val \<sigma> v - sub_val \<sigma> v =
         lin \<sigma> e' + rel_val \<sigma> (v\<lparr>v_rel := rel', v_sub := sub'\<rparr>) - sub_val \<sigma> (v\<lparr>v_rel := rel', v_sub := sub'\<rparr>) \<and>
       (sectional env \<sigma> \<longrightarrow> lin \<sigma> e' = 0))"
    and few: "v_rel v = None \<and> v_sub v = Sub_none \<and> length (syms_at 1 ?e) \<le> 1 \<and> length (syms_at 2 ?e) \<le> 1 \<longrightarrow> ok"
    using FinalizeScan_sum [OF assms, of v] by blast
  obtain ts' where ts': "e' = flatten 0 (Node Op_ADD ts')" "list_all2 split_part ts ts'" using zeroed_sum [OF assms(2) s(2)] by blast
  note val = sum_value [OF assms(2) ts'(2), folded ts'(1)]
  have "tree_int \<sigma> \<rho> (Node Op_ADD ts) + rel_val \<sigma> v - sub_val \<sigma> v =
        tree_int \<sigma> \<rho> (Node Op_ADD ts') + rel_val \<sigma> (v\<lparr>v_rel := rel', v_sub := sub'\<rparr>) - sub_val \<sigma> (v\<lparr>v_rel := rel', v_sub := sub'\<rparr>)"
      "sectional env \<sigma> \<Longrightarrow> tree_int \<sigma> \<rho> (Node Op_ADD ts') = tree_int (\<lambda>s. 0) \<rho> (Node Op_ADD ts')" if ok for \<sigma> \<rho>
    unfolding val [of \<sigma>] val(2) [of "\<lambda>s. 0"] using lin that by (auto simp: lin_zero algebra_simps simp del: tree_int.simps flatten.simps)
  then show ?thesis using ts'
    by (intro exI [of _ ok] exI [of _ n] exI [of _ e'] exI [of _ rel'] exI [of _ sub'] conjI s(1) few impI exI [of _ ts']) blast+
qed

abbreviation external_env :: Env where
  "external_env \<equiv> \<lparr>env_label = \<lambda>s. None, env_offset = \<lambda>bc. 0, env_container = \<lambda>bc. 0\<rparr>"

theorem FinalizeScan_correct_witness:
  "\<exists>n ts' rel' sub'. FinalizeScan external_env 6 True (flatten 0 (Node Op_ADD [Leaf (T_SYM 5), Leaf (T_INT (SV 3)), Node Op_MUL [Leaf (T_SYM 6), Leaf (T_INT (SV (-1)))]]))
      (-1) (Value_of_size 32 :: unit Value) = Ret (True, n, flatten 0 (Node Op_ADD ts'), (Value_of_size 32)\<lparr>v_rel := rel', v_sub := sub'\<rparr>) \<and>
     tree_int (\<lambda>s. int s * 10) (\<lambda>x. 0) (Node Op_ADD ts') + rel_val (\<lambda>s. int s * 10) ((Value_of_size 32 :: unit Value)\<lparr>v_rel := rel', v_sub := sub'\<rparr>) -
       sub_val (\<lambda>s. int s * 10) ((Value_of_size 32 :: unit Value)\<lparr>v_rel := rel', v_sub := sub'\<rparr>) = -7"
proof -
  let ?ts = "[Leaf (T_SYM 5), Leaf (T_INT (SV 3)), Node Op_MUL [Leaf (T_SYM 6), Leaf (T_INT (SV (-1)))]] :: unit tree list"
  have p: "?ts \<noteq> []" "list_all sum_part ?ts" "labels_placed external_env" by (simp_all add: leaf_ok_def isNeg1_def labels_placed_def)
  have "length (flatten 0 (Node Op_ADD ?ts)) = 6" "length (syms_at 1 (flatten 0 (Node Op_ADD ?ts))) = 1" "length (syms_at 2 (flatten 0 (Node Op_ADD ?ts))) = 1"
     "v_rel (Value_of_size 32 :: unit Value) = None" "v_sub (Value_of_size 32 :: unit Value) = Sub_none"
    by (simp_all add: syms_at_def sym_val_def Value_of_size_def)
  then obtain n ts' rel' sub' where r: "FinalizeScan external_env 6 True (flatten 0 (Node Op_ADD ?ts)) (-1) (Value_of_size 32 :: unit Value) =
        Ret (True, n, flatten 0 (Node Op_ADD ts'), (Value_of_size 32)\<lparr>v_rel := rel', v_sub := sub'\<rparr>)"
      "\<forall>\<sigma> \<rho>. tree_int \<sigma> \<rho> (Node Op_ADD ?ts) + rel_val \<sigma> (Value_of_size 32 :: unit Value) - sub_val \<sigma> (Value_of_size 32 :: unit Value) =
         tree_int \<sigma> \<rho> (Node Op_ADD ts') + rel_val \<sigma> ((Value_of_size 32 :: unit Value)\<lparr>v_rel := rel', v_sub := sub'\<rparr>) -
           sub_val \<sigma> ((Value_of_size 32 :: unit Value)\<lparr>v_rel := rel', v_sub := sub'\<rparr>)"
    using FinalizeScan_correct [OF p, of "Value_of_size 32"] by (auto simp del: flatten.simps tree_int.simps)
  moreover have "tree_int (\<lambda>s. int s * 10) (\<lambda>x. 0) (Node Op_ADD ?ts) = -7" "rel_val \<sigma> (Value_of_size 32 :: unit Value) = 0"
      "sub_val \<sigma> (Value_of_size 32 :: unit Value) = 0" for \<sigma>
    by (simp_all add: rel_val_def sub_val_def Value_of_size_def)
  ultimately show ?thesis
    by (intro exI [of _ n] exI [of _ ts'] exI [of _ rel'] exI [of _ sub'] conjI) (simp_all del: flatten.simps tree_int.simps)
qed

text \<open>
  C7. \<open>Value_Finalize\<close> of an expression whose equates expand, to any depth, to a tree of integers that \<open>Simplify\<close> folds
  correctly (no \<open>LAND\<close>, \<open>LOR\<close> or shift, negated operands that are sums of numbers, subtracted operands that are
  sums of numbers or products, all in the operators' domains) makes the value absolute: the expression is replaced by
  the value of the expanded tree, or removed when that is zero, without a message, and nothing else of the value changes.
\<close>

theorem Value_Finalize_absolute:
  assumes "v_abs v = Some (flatten 0 t)" "finite {sy. T sy \<noteq> None}" "\<forall>sy u. T sy = Some u \<longrightarrow> wf_tree u" "wf_tree t" "expands T {} t t'"
    and "tame t'" "tree_val int_leaf t' = Some x"
  shows "\<exists>n. wf_IntNum n \<and> intnum_val n = x \<and>
    Value_Finalize F env (map_option (flatten 0) \<circ> T) err v = Ret (True, v\<lparr>v_abs := if isZero n then None else Some [int_at 0 n]\<rparr>, [])"
  by (rule Value_Finalize_number [OF assms])

theorem Value_Finalize_absolute_witness:
  "\<exists>n. intnum_val n = 3 \<and> Value_Finalize no_float external_env (map_option (flatten 0) \<circ> sample_equ) err_too_complex_expression
     (Value_of_expr 8 (flatten 0 (Leaf (T_SYM 1)))) = Ret (True, (Value_of_size 8)\<lparr>v_abs := if isZero n then None else Some [int_at 0 n]\<rparr>, [])"
proof -
  have "{sy. sample_equ sy \<noteq> None} \<subseteq> {0, 1, 2}" by (auto simp: sample_equ_def)
  then have fin: "finite {sy. sample_equ sy \<noteq> None}" by (rule finite_subset) simp
  have wf: "\<forall>sy u. sample_equ sy = Some u \<longrightarrow> wf_tree u"
    by (auto simp: sample_equ_def arity_ok_def isUnary_def isAssociative_def leaf_ok_def split: if_splits)
  have ex: "expands sample_equ {} (Leaf (T_SYM 1)) (Leaf (T_INT (SV 3)))"
    by (rule expands_equ) (auto simp: sample_equ_def intro: expands_leaf)
  have "\<exists>n. wf_IntNum n \<and> intnum_val n = 3 \<and> Value_Finalize no_float external_env (map_option (flatten 0) \<circ> sample_equ) err_too_complex_expression
     (Value_of_expr 8 (flatten 0 (Leaf (T_SYM 1)))) = Ret (True, (Value_of_expr 8 (flatten 0 (Leaf (T_SYM 1))))\<lparr>v_abs := if isZero n then None else Some [int_at 0 n]\<rparr>, [])"
    by (rule Value_Finalize_absolute [OF _ fin wf _ ex]) (simp_all add: Value_of_expr_def leaf_ok_def int_leaf_def sv_range_def limits)
  then show ?thesis by (auto simp: Value_of_expr_def)
qed

text \<open>
  A subtracted symbol is split off inside an operand of any operator, although only one inside a sum can be: 2*(5-s) is
  finalized to 10-s and the complement of 5-s to -6-s.
\<close>

lemma Value_Finalize_scaled_symbol:
  "Value_Finalize no_float external_env (\<lambda>s. None) err_too_complex_expression
     (Value_of_expr 32 (flatten 0 (Node Op_MUL [Leaf (T_INT (SV 2)), Node Op_SUB [Leaf (T_INT (SV 5)), Leaf (T_SYM 5)]]))) =
   Ret (True, (Value_of_size 32)\<lparr>v_abs := Some [int_at 0 (SV 10)], v_sub := Sub_sym 5\<rparr>, [])"
  by code_simp

text \<open>A shift of a number by a symbol is accepted and left as it is.\<close>

lemma Value_Finalize_shift_count:
  "Value_Finalize no_float external_env (\<lambda>s. None) err_too_complex_expression
     (Value_of_expr 32 (flatten 0 (Node Op_SHR [Leaf (T_INT (SV 5)), Leaf (T_SYM 5)]))) =
   Ret (True, Value_of_expr 32 (flatten 0 (Node Op_SHR [Leaf (T_INT (SV 5)), Leaf (T_SYM 5)])), [])"
  by code_simp

end
