(* ===== verification/Output_Correct.thy ===== *)
theory Output_Correct
  imports Bytecode_Correct
begin

text \<open>
  What the output of a section holds: \<open>bytecode_spec\<close> describes the bytes of one bytecode, the fixed part with its fixups
  (\<open>fixed_spec\<close>) and the tail for every kind of contents (\<open>tail_spec\<close>); the output of a laid-out section has them at
  the bytecodes' offsets.
\<close>

unbundle bit_operations_syntax

section \<open>The bytes of a fixed part\<close>

text \<open>
  \<open>converts\<close> is a conversion the object format has carried out: in a buffer with the bytes \<open>old\<close>, set up for the value, it has
  left the bytes \<open>new\<close>.  A fixup covers the bytes of its value; \<open>fixed_spec\<close> says that every covered field has been
  converted from the bytes it had at first and that no other byte has changed.
\<close>

definition converts :: "'f output_iface \<Rightarrow> Location \<Rightarrow> bool \<Rightarrow> 'f Value \<Rightarrow> byte list \<Rightarrow> byte list \<Rightarrow> bool" where
  "converts I loc big v old new \<longleftrightarrow>
     (\<exists>num' ds. oi_convert I v loc (ConfigureOutput v (NumericOutput_init \<lparr>m_bigendian = big, contents = old\<rparr>)) = Ret (True, num', ds) \<and>
        contents (m_bytes num') = new)"

definition fx_bytes :: "'f Fixup \<Rightarrow> nat" where
  "fx_bytes fx = (v_size (fx_value fx) + v_shift (fx_value fx) + 7) div 8"

definition fx_field :: "'f Fixup \<Rightarrow> nat set" where
  "fx_field fx = {fx_off fx ..< fx_off fx + fx_bytes fx}"

definition fx_slice :: "'f Fixup \<Rightarrow> byte list \<Rightarrow> byte list" where
  "fx_slice fx bs = take (fx_bytes fx) (drop (fx_off fx) bs)"

definition fixups_ok :: "'f Fixup list \<Rightarrow> bool" where
  "fixups_ok fxs \<longleftrightarrow> sorted_wrt (\<lambda>a b. fx_field a \<inter> fx_field b = {}) fxs"

definition fixed_spec :: "'f output_iface \<Rightarrow> nat \<Rightarrow> bool \<Rightarrow> 'f Fixup list \<Rightarrow> byte list \<Rightarrow> byte list \<Rightarrow> bool" where
  "fixed_spec I i big fxs old new \<longleftrightarrow> length new = length old \<and>
     (\<forall>fx\<in>set fxs. fx_off fx + fx_bytes fx \<le> length old \<and>
        converts I \<lparr>loc_bc = Some i, loc_off = int (fx_off fx)\<rparr> big (fx_value fx) (fx_slice fx old) (fx_slice fx new)) \<and>
     (\<forall>p < length old. (\<forall>fx\<in>set fxs. p \<notin> fx_field fx) \<longrightarrow> new ! p = old ! p)"

lemma fx_slice_cong:
  assumes "length xs = length ys" "\<And>p. p \<in> fx_field fx \<Longrightarrow> p < length xs \<Longrightarrow> xs ! p = ys ! p"
  shows "fx_slice fx xs = fx_slice fx ys"
  using assms by (auto simp: fx_slice_def fx_field_def intro!: nth_equalityI)

text \<open>One fixup replaces its field by the bytes the value is converted to.\<close>

lemma apply_fixup_spec:
  assumes "apply_fixup I i big fx fixed = Ret (Some fixed', ds)" "convert_ok I"
  shows "fixed_spec I i big [fx] fixed fixed'"
proof -
  let ?v = "fx_value fx"
  let ?num = "ConfigureOutput ?v (NumericOutput_init \<lparr>m_bigendian = big, contents = fx_slice fx fixed\<rparr>)"
  have off: "fx_off fx + fx_bytes fx \<le> length fixed" using assms(1) by (auto simp: apply_fixup_def Let_def fx_bytes_def split: if_splits)
  obtain num' ds' where c: "oi_convert I ?v \<lparr>loc_bc = Some i, loc_off = int (fx_off fx)\<rparr> ?num = Ret (True, num', ds')"
    and fixed': "fixed' = take (fx_off fx) fixed @ contents (m_bytes num') @ drop (fx_off fx + length (contents (m_bytes num'))) fixed"
    using assms(1) by (auto simp: apply_fixup_def Let_def fx_bytes_def fx_slice_def bind_out_Ret_iff split: if_splits)
  have "length (contents (m_bytes num')) = fx_bytes fx"
    using convert_okD [OF assms(2) c] off by (simp add: ConfigureOutput_def NumericOutput_init_def fx_slice_def)
  then show ?thesis unfolding fixed_spec_def converts_def using c off fixed'
    by (auto simp: fx_field_def nth_append fx_slice_def intro!: exI [of _ num'])
qed

lemma apply_fixups_spec:
  assumes "apply_fixups I i big fxs fixed = Ret (Some fixed', ds)" "fixups_ok fxs" "convert_ok I"
  shows "fixed_spec I i big fxs fixed fixed'"
  using assms
proof (induction fxs arbitrary: fixed ds)
  case Nil
  then show ?case by (simp add: fixed_spec_def)
next
  case (Cons fx fxs)
  obtain mid ds1 ds2 where m: "apply_fixup I i big fx fixed = Ret (Some mid, ds1)" "apply_fixups I i big fxs mid = Ret (Some fixed', ds2)"
    using Cons.prems(1) by (auto simp: bind_out_Ret_iff split: option.splits)
  note one = apply_fixup_spec [OF m(1) Cons.prems(3)]
  have dis: "fx_field fx \<inter> fx_field g = {}" if "g \<in> set fxs" for g using Cons.prems(2) that by (simp add: fixups_ok_def)
  have rest: "fixed_spec I i big fxs mid fixed'" by (rule Cons.IH [OF m(2) _ Cons.prems(3)]) (use Cons.prems(2) in \<open>simp add: fixups_ok_def\<close>)
  have "fx_slice fx fixed' = fx_slice fx mid"
    using rest dis by (intro fx_slice_cong) (fastforce simp: fixed_spec_def)+
  moreover have "fx_slice g mid = fx_slice g fixed" if "g \<in> set fxs" for g
    using one dis [OF that] by (intro fx_slice_cong) (fastforce simp: fixed_spec_def)+
  ultimately show ?case using one rest by (auto simp: fixed_spec_def)
qed

text \<open>The fixups of values appended with \<open>AppendFixed\<close> do not overlap.\<close>

lemma AppendFixed_fixups_ok:
  assumes "fixups_ok (bc_fixups bc)" "\<forall>fx\<in>set (bc_fixups bc). fx_off fx + fx_bytes fx \<le> length (bc_fixed bc)"
    and "v_size v mod 8 = 0" "v_shift v = 0"
  shows "fixups_ok (bc_fixups (AppendFixed v bc)) \<and>
    (\<forall>fx\<in>set (bc_fixups (AppendFixed v bc)). fx_off fx + fx_bytes fx \<le> length (bc_fixed (AppendFixed v bc)))"
proof -
  have "(v_size v + 7) div 8 = v_size v div 8" using assms(3) by auto
  then show ?thesis using assms by (fastforce simp: AppendFixed_def fixups_ok_def sorted_wrt_append fx_field_def fx_bytes_def)
qed

section \<open>The bytes of a tail\<close>

text \<open>
  The bytes of a tail.  A fill is the low byte of the fill expression, zero without one; an alignment with a table of code is
  filled with sequences of the table.  A LEB128 number is preceded by padding up to its length.  A fill bytecode repeats the converted value as often
  as its count says.  A jump is its prefixes and opcode, followed by the target less the length of the whole instruction.
\<close>

definition fill_byte :: "'f Expr \<Rightarrow> byte \<Rightarrow> bool" where
  "fill_byte f b \<longleftrightarrow> (if f = [] then b = 0 else \<exists>n. expr_int f = Ret n \<and> b = word_of_int (getUInt n))"

definition is_jmp :: "'f Bytecode \<Rightarrow> bool" where
  "is_jmp bc \<longleftrightarrow> (case bc_contents bc of Some (X86JmpContents j) \<Rightarrow> True | _ \<Rightarrow> False)"

definition align_fill :: "'f Expr \<Rightarrow> byte list option list option \<Rightarrow> byte list \<Rightarrow> bool" where
  "align_fill f cf bs \<longleftrightarrow>
     (if f \<noteq> [] \<or> cf = None then \<exists>b. fill_byte f b \<and> bs = replicate (length bs) b
      else \<exists>ns. (\<forall>n\<in>set ns. code_at (the cf) n \<noteq> None) \<and> bs = concat (List.map (\<lambda>n. the (code_at (the cf) n)) ns))"

definition jmp_code :: "'f X86Jmp \<Rightarrow> byte list" where
  "jmp_code j =
     (let oc = (if j_op_sel j = X86_JMP_NEAR then j_nearop j else j_shortop j) in
      contents (Common_ToBytes \<lparr>m_bigendian = False, contents = []\<rparr> None (j_common j)) @ take (m_len oc) (m_opcode oc))"

definition jmp_disp :: "'f X86Jmp \<Rightarrow> nat" where
  "jmp_disp j = (if j_op_sel j = X86_JMP_NEAR then nat (jmp_near_disp j) else 1)"

fun tail_spec :: "'f output_iface \<Rightarrow> Env \<Rightarrow> nat \<Rightarrow> bool \<Rightarrow> int \<Rightarrow> int \<Rightarrow> 'f Contents \<Rightarrow> out_item list \<Rightarrow> bool" where
  "tail_spec I env i big fixed len (AlignBytecode b f ms cf) items \<longleftrightarrow>
     (if len = 0 then items = []
      else if \<not> oi_bits I then items = [Out_gap len]
      else \<exists>bs. items = [Out_bytes bs] \<and> int (length bs) = len \<and> align_fill f cf bs)"
| "tail_spec I env i big fixed len (OrgBytecode s f) items \<longleftrightarrow>
     (if \<not> oi_bits I then items = [Out_gap len]
      else \<exists>b. fill_byte f b \<and> items = [Out_bytes (replicate (nat len) b)])"
| "tail_spec I env i big fixed len (GapBytecode sz) items \<longleftrightarrow> items = [Out_gap len]"
| "tail_spec I env i big fixed len (LEB128Bytecode v) items \<longleftrightarrow>
     (case v_abs v of
        None \<Rightarrow> items = [Out_bytes [0]]
      | Some e \<Rightarrow> \<exists>t ds n. Evaluate (oi_floats I) env [] True False e = Ret (Some t, ds) \<and> getIntNum t = Some n \<and>
          items = [Out_bytes (replicate (nat (len - SizeLEB128 n (v_sign v))) (if v_sign v \<and> getSign n < 0 then 0xff else 0x80) @
                     leb_groups (nat (SizeLEB128 n (v_sign v))) (intnum_val n))])"
| "tail_spec I env i big fixed len (FillBytecode mul v skip) items \<longleftrightarrow>
     (\<exists>e ds n. SimplifyCalcDist (oi_floats I) env (mul_expr mul) = Ret (e, ds) \<and> expr_int e = Ret n \<and> 0 \<le> getInt n \<and>
        (if skip then items = [Out_gap (int (v_size v div 8) * getInt n)]
         else \<exists>bs. items = replicate (nat (getInt n)) (Out_bytes bs) \<and>
                converts I \<lparr>loc_bc = Some i, loc_off = 0\<rparr> big v (replicate (v_size v div 8) 0) bs))"
| "tail_spec I env i big fixed len (X86JmpContents j) items \<longleftrightarrow>
     (\<exists>t bs. AddAbs_int (set_s (- len)) (j_target j) = Ret t \<and> items = [Out_bytes (jmp_code j), Out_bytes bs] \<and>
        converts I \<lparr>loc_bc = Some i, loc_off = fixed + int (length (jmp_code j))\<rparr> False
          (setNextInsn 0 (setInsnStart (length (jmp_code j)) (Value_setSize (8 * jmp_disp j) t))) (replicate (jmp_disp j) 0) bs)"

definition appended :: "BytecodeOutput \<Rightarrow> BytecodeOutput \<Rightarrow> out_item list \<Rightarrow> bool" where
  "appended out out' items \<longleftrightarrow> bo_items out' = bo_items out @ items \<and> bo_big out' = bo_big out"

lemma appended_simps [simp]:
  "appended out out items \<longleftrightarrow> items = []" "appended (out_diag ds a) b items = appended a b items" "appended a (out_diag ds b) items = appended a b items"
  "appended out (OutputGap n out) items \<longleftrightarrow> items = [Out_gap n]" "appended out (OutputBytes bs out) items \<longleftrightarrow> items = [Out_bytes bs]"
  by (auto simp: appended_def out_diag_def OutputGap_def OutputBytes_def)

lemma appended_diag_out [simp]:
  "appended out (OutputGap n (out_diag ds out)) items \<longleftrightarrow> items = [Out_gap n]" "appended out (OutputBytes bs (out_diag ds out)) items \<longleftrightarrow> items = [Out_bytes bs]"
  by (auto simp: appended_def out_diag_def OutputGap_def OutputBytes_def)

lemma appended_repeat: "appended out ((OutputBytes bs ^^ n) out) (replicate n (Out_bytes bs))"
proof (induction n)
  case (Suc n)
  then show ?case by (simp add: appended_def OutputBytes_def replicate_append_same)
qed simp

lemma code_fill_concat:
  "0 < maxlen \<Longrightarrow> length seq = maxlen \<Longrightarrow> code_fill maxlen seq len = (bs, rest) \<Longrightarrow> \<exists>k. bs = concat (replicate k seq)"
proof (induction maxlen seq len arbitrary: bs rest rule: code_fill.induct)
  case (1 maxlen seq len)
  show ?case
  proof (cases "len > maxlen")
    case True
    obtain bs' rest' where r: "code_fill maxlen seq (len - maxlen) = (bs', rest')" by fastforce
    then have "bs = seq @ bs'" using 1(2-4) True by (auto simp: code_fill.simps [of maxlen seq len])
    moreover obtain k where "bs' = concat (replicate k seq)" using 1(1) [OF _ _ _ r] 1(2,3) True by auto
    ultimately show ?thesis by (intro exI [of _ "Suc k"]) simp
  next
    case False
    then have "bs = []" using 1(4) by (auto simp: code_fill.simps [of maxlen seq len])
    then show ?thesis by (intro exI [of _ 0]) simp
  qed
qed

lemma Align_bytes_fill:
  assumes "Align_bytes f cf len = Ret (Inl bs)" "case cf of None \<Rightarrow> True | Some t \<Rightarrow> code_table_ok t"
  shows "align_fill f cf bs"
proof (cases "f \<noteq> [] \<or> cf = None")
  case True
  then show ?thesis using assms(1) by (cases cf) (auto simp: Align_bytes_def align_fill_def fill_byte_def bind_out_Ret_iff split: if_splits)
next
  case False
  then obtain t where t: "cf = Some t" "code_table_ok t" "f = []" using assms(2) by auto
  define m where "m = code_max t 15"
  obtain bs' rest where r: "code_fill m (the (code_at t m)) len = (bs', rest)" by fastforce
  have m: "m \<noteq> 0" using assms(1) t by (cases "code_max t 15 = 0") (auto simp: Align_bytes_def m_def)
  then have tm: "code_at t m \<noteq> None" "m < 16" using code_max_Some [of t 15] by (auto simp: m_def)
  have tab: "\<And>n seq. n < 16 \<Longrightarrow> code_at t n = Some seq \<Longrightarrow> length seq = n"
    using t(2) by (force simp: code_table_ok_def list_all_iff)
  have rest: "rest < 16"
    using code_fill_length [OF _ _ r] m tm tab by (auto simp: code_fill.simps [of m "the (code_at t m)" len] r)
  obtain seq where seq: "code_at t rest = Some seq" "bs = bs' @ take rest seq"
    using assms(1) t m r by (auto simp: Align_bytes_def Let_def m_def [symmetric] split: option.splits)
  obtain k where "bs' = concat (replicate k (the (code_at t m)))" using code_fill_concat [OF _ _ r] m tm tab by fastforce
  then have "bs = concat (List.map (\<lambda>n. the (code_at t n)) (replicate k m @ [rest]))" using seq tab [OF rest seq(1)] by simp
  then show ?thesis unfolding align_fill_def using t tm seq(1) by (auto intro!: exI [of _ "replicate k m @ [rest]"])
qed

lemma Align_spec:
  assumes "Align_Output (oi_bits I) tail b f ms cf out = Ret (True, out')" "wf_contents (AlignBytecode b f ms cf)"
    "claims_len tail (AlignBytecode b f ms cf) len" "0 \<le> tail" "tail \<le> ULONG_MAX"
  shows "\<exists>items. appended out out' items \<and> tail_spec I env i big fixed len (AlignBytecode b f ms cf) items"
proof -
  obtain bn where bn: "expr_int b = Ret bn" using assms(2) by (auto simp: int_expr_def)
  obtain io where io: "Align_Expand b ms (to_s64 tail) (initial_io 0) = Ret io" "len = ex_len io"
    using assms(3) by (auto split: outcome.splits)
  note len = Align_claim [OF io(1) bn assms(4,5)]
  let ?len = "to_u64 (align_end (getUInt bn) tail - tail)"
  let ?skip = "ms \<noteq> [] \<and> (\<exists>mn. expr_int ms = Ret mn \<and> getUInt mn < ?len)"
  show ?thesis
  proof (cases "len = 0")
    case True
    then have "out' = out" using assms(1) bn len io(2)
      by (cases "expr_int ms") (auto simp: Align_Output_def Let_def split: if_splits)
    then show ?thesis using True by simp
  next
    case False
    then have l: "len = ?len" "getUInt bn \<noteq> 0" "\<not> ?skip" using len io(2) by (auto split: if_splits)
    obtain r where r: "(if \<not> oi_bits I then Ret (True, OutputGap len out) else bind_out (Align_bytes f cf (nat len)) (\<lambda>r.
        case r of Inl bs \<Rightarrow> Ret (True, OutputBytes bs out) | Inr d \<Rightarrow> Ret (False, out_diag [d] out))) = Ret (True, out')"
      using assms(1) bn l False by (cases "expr_int ms") (auto simp: Align_Output_def Let_def split: if_splits)
    show ?thesis
    proof (cases "oi_bits I")
      case True
      obtain x where x: "Align_bytes f cf (nat len) = Ret x" using r True by (cases "Align_bytes f cf (nat len)") auto
      then obtain bs where bs: "Align_bytes f cf (nat len) = Ret (Inl bs)" "out' = OutputBytes bs out" using r True by (cases x) auto
      moreover have "0 \<le> len" using l by simp
      ultimately show ?thesis using False True assms(2) Align_bytes_length [OF bs(1)] Align_bytes_fill [OF bs(1)] by simp
    qed (use r False in auto)
  qed
qed

lemma Org_spec:
  assumes "Org_Output (oi_bits I) tail st f out = Ret (True, out')" "wf_contents (OrgBytecode st f)"
    "claims_len tail (OrgBytecode st f) len" "0 \<le> tail" "tail \<le> ULONG_MAX"
  shows "\<exists>items. appended out out' items \<and> tail_spec I env i big fixed len (OrgBytecode st f) items"
proof -
  obtain sn where sn: "expr_int st = Ret sn" using assms(2) by (auto simp: int_expr_def)
  obtain fv where fv: "(if f = [] then Ret 0 else bind_out (expr_int f) (\<lambda>n. Ret (word_of_int (getUInt n)))) = Ret (fv :: byte)"
    using assms(2) by (cases "f = []") (auto simp: int_expr_def)
  then have b: "fill_byte f fv" by (auto simp: fill_byte_def bind_out_Ret_iff split: if_splits)
  have le: "tail \<le> getUInt sn" using assms(1) sn by (auto simp: Org_Output_def Let_def split: if_splits)
  have "out' = (if oi_bits I then OutputBytes (replicate (nat (getUInt sn - tail)) fv) out else OutputGap (getUInt sn - tail) out)"
    using assms(1) sn le fv by (auto simp: Org_Output_def Let_def split: if_splits)
  moreover have "getUInt sn - tail = len"
    using Org_emits [OF assms] \<open>out' = _\<close> le by (auto simp: emits_def OutputBytes_def OutputGap_def split: if_splits)
  ultimately show ?thesis using b by auto
qed

lemma LEB128_spec:
  assumes "LEB128_Output I env v out = Ret (True, out')" "settled I env (LEB128Bytecode v)"
  shows "\<exists>items. appended out out' items \<and> tail_spec I env i big fixed (int (v_size v)) (LEB128Bytecode v) items"
proof (cases "v_abs v")
  case None
  then show ?thesis using assms by (auto simp: LEB128_Output_def)
next
  case (Some e)
  obtain r ds where ev: "Evaluate (oi_floats I) env [] True False e = Ret (r, ds)"
    using assms(1) Some by (auto simp: LEB128_Output_def bind_out_Ret_iff)
  then obtain t n where t: "r = Some t" "getIntNum t = Some n"
    using assms(1) Some by (auto simp: LEB128_Output_def bind_eq_Some_conv split: option.splits)
  have n: "canonical n" "leb128_bits n (v_sign v) \<le> 252" using assms(2) Some ev t by auto
  show ?thesis using assms(1) Some ev t WriteLEB128_value [OF n]
    by (auto simp: LEB128_Output_def Let_def Write_array_def)
qed

lemma CalcForOutput_count:
  assumes "Multiple_CalcForOutput I env m = Ret (m', True, ds)"
  shows "\<exists>e ds n. SimplifyCalcDist (oi_floats I) env (mul_expr m) = Ret (e, ds) \<and> expr_int e = Ret n \<and> 0 \<le> getInt n \<and>
    mul_int m = getInt n \<and> mul_int m' = getInt n"
proof -
  obtain e ds0 where e: "SimplifyCalcDist (oi_floats I) env (mul_expr m) = Ret (e, ds0)"
    using assms by (auto simp: Multiple_CalcForOutput_def bind_out_Ret_iff)
  then obtain num where num: "expr_int e = Ret num" using assms by (cases "isIntNum e"; cases "expr_int e") (auto simp: Multiple_CalcForOutput_def)
  then show ?thesis using assms e getInt_nonneg [of num]
    by (cases "isIntNum e"; cases "getSign num < 0"; cases "mul_int m = getInt num") (auto simp: Multiple_CalcForOutput_def)
qed

lemma Fill_spec:
  assumes "Fill_Output I env i mul v sk out = Ret (mul', True, out')" "fill_len v (mul_int mul) = Ret len"
  shows "\<exists>items. appended out out' items \<and> tail_spec I env i (bo_big out) fixed len (FillBytecode mul v sk) items"
proof -
  obtain m1 okm ds where m: "Multiple_CalcForOutput I env mul = Ret (m1, okm, ds)"
    using assms(1) by (auto simp: Fill_Output_def bind_out_Ret_iff)
  then have okm using assms(1) by (cases okm) (auto simp: Fill_Output_def)
  then obtain e ds1 n where n: "SimplifyCalcDist (oi_floats I) env (mul_expr mul) = Ret (e, ds1)" "expr_int e = Ret n" "0 \<le> getInt n"
      "mul_int mul = getInt n" "mul_int m1 = getInt n"
    using CalcForOutput_count [of I env mul m1 ds] m by auto
  show ?thesis
  proof (cases sk)
    case True
    then show ?thesis using assms m \<open>okm\<close> n fill_len_value [of v "getInt n" len] by (auto simp: Fill_Output_def)
  next
    case False
    define num where "num = ConfigureOutput v (NumericOutput_init \<lparr>m_bigendian = bo_big out, contents = replicate (v_size v div 8) 0\<rparr>)"
    obtain okc num' ds' where c: "oi_convert I v \<lparr>loc_bc = Some i, loc_off = 0\<rparr> num = Ret (okc, num', ds')"
      using assms(1) m \<open>okm\<close> False by (auto simp: Fill_Output_def bind_out_Ret_iff num_def [symmetric])
    then have okc using assms(1) m \<open>okm\<close> False by (cases okc) (auto simp: Fill_Output_def num_def [symmetric])
    then have "converts I \<lparr>loc_bc = Some i, loc_off = 0\<rparr> (bo_big out) v (replicate (v_size v div 8) 0) (contents (m_bytes num'))"
      using c by (auto simp: converts_def num_def)
    moreover have "out' = (OutputBytes (contents (m_bytes num')) ^^ nat (getInt n)) (out_diag (ds @ ds' @ EmitWarnings num') out)"
      using assms(1) m \<open>okm\<close> False c \<open>okc\<close> n by (auto simp: Fill_Output_def num_def [symmetric])
    ultimately show ?thesis using False n
        appended_repeat [where out = "out_diag (ds @ ds' @ EmitWarnings num') out" and bs = "contents (m_bytes num')" and n = "nat (getInt n)"] by auto
  qed
qed

lemma Jmp_spec:
  assumes "Jmp_Output I i fixed j out = Ret (j', True, out')" "wf_contents (X86JmpContents j)"
    "claims_len tail (X86JmpContents j) len"
  shows "\<exists>items. bo_items out' = bo_items out @ items \<and> \<not> bo_big out' \<and> tail_spec I env i big fixed len (X86JmpContents j) items"
proof -
  define short where "short \<longleftrightarrow> j_op_sel j = X86_JMP_SHORT"
  have near: "j_op_sel j = X86_JMP_NEAR \<longleftrightarrow> \<not> short" using assms(2) by (cases "j_op_sel j") (auto simp: short_def)
  have bytes: "contents (Opcode_ToBytes (Common_ToBytes \<lparr>m_bigendian = False, contents = []\<rparr> None (j_common j))
      (if short then j_shortop j else j_nearop j)) = jmp_code j" "(if short then 1 else nat (jmp_near_disp j)) = jmp_disp j"
    by (simp_all add: Opcode_ToBytes_def Write_array_def jmp_code_def jmp_disp_def near Let_def)
  have "len = int (length (jmp_code j)) + int (jmp_disp j)"
    using assms(2,3) by (auto simp: jmp_code_def jmp_disp_def Let_def opcode_ok_def Common_ToBytes_len jmp_short_len_def jmp_near_len_def jmp_near_disp_def split: if_splits)
  then have len: "- int (length (jmp_code j) + jmp_disp j) = - len" by simp
  obtain t where t: "AddAbs_int (set_s (- len)) (j_target j) = Ret t"
    using assms(1) unfolding Jmp_Output_def Let_def short_def [symmetric] bytes len by (auto simp: bind_out_Ret_iff)
  define t1 where "t1 = setNextInsn 0 (setInsnStart (length (jmp_code j)) (Value_setSize (8 * jmp_disp j) t))"
  have "OutputValue I t1 \<lparr>loc_bc = Some i, loc_off = fixed + int (length (jmp_code j))\<rparr>
      (ConfigureOutput t1 (NumericOutput_init \<lparr>m_bigendian = False, contents = replicate (jmp_disp j) 0\<rparr>)) ((OutputBytes (jmp_code j) out)\<lparr>bo_big := False\<rparr>) = Ret (True, out')"
    using assms(1) t unfolding Jmp_Output_def Let_def short_def [symmetric] bytes len by (auto simp: bind_out_Ret_iff t1_def mult.commute)
  then obtain num' ds where c: "oi_convert I t1 \<lparr>loc_bc = Some i, loc_off = fixed + int (length (jmp_code j))\<rparr>
      (ConfigureOutput t1 (NumericOutput_init \<lparr>m_bigendian = False, contents = replicate (jmp_disp j) 0\<rparr>)) = Ret (True, num', ds)"
    and o: "out' = out_diag (EmitWarnings num') (OutputBytes (contents (m_bytes num')) (out_diag ds ((OutputBytes (jmp_code j) out)\<lparr>bo_big := False\<rparr>)))"
    by (auto simp: OutputValue_def bind_out_Ret_iff split: if_splits)
  have "converts I \<lparr>loc_bc = Some i, loc_off = fixed + int (length (jmp_code j))\<rparr> False t1 (replicate (jmp_disp j) 0) (contents (m_bytes num'))"
    using c by (auto simp: converts_def)
  then have "tail_spec I env i big fixed len (X86JmpContents j) [Out_bytes (jmp_code j), Out_bytes (contents (m_bytes num'))]"
    using t by (auto simp: t1_def)
  then show ?thesis using o by (intro exI conjI) (auto simp: OutputBytes_def out_diag_def)
qed

lemma Contents_Output_spec:
  assumes "Contents_Output I env i fixed tail c out = Ret (c', True, out')" "wf_contents c" "claims_len tail c len"
    "settled I env c" "0 \<le> tail" "tail \<le> ULONG_MAX"
  shows "\<exists>items. bo_items out' = bo_items out @ items \<and> tail_spec I env i (bo_big out) fixed len c items \<and>
     bo_big out' = (bo_big out \<and> (\<forall>j. c \<noteq> X86JmpContents j))"
proof (cases c)
  case (AlignBytecode b f ms cf)
  then show ?thesis using assms Align_spec [of I tail b f ms cf out out' len env i "bo_big out" fixed]
    by (auto simp: bind_out_Ret_iff appended_def simp del: wf_contents.simps claims_len.simps tail_spec.simps)
next
  case (OrgBytecode s f)
  then show ?thesis using assms Org_spec [of I tail s f out out' len env i "bo_big out" fixed]
    by (auto simp: bind_out_Ret_iff appended_def simp del: wf_contents.simps claims_len.simps tail_spec.simps)
next
  case (GapBytecode sz)
  then show ?thesis using assms by (auto simp: OutputGap_def)
next
  case (LEB128Bytecode v)
  then show ?thesis using assms LEB128_spec [of I env v out out' i "bo_big out" fixed]
    by (auto simp: bind_out_Ret_iff appended_def simp del: settled.simps tail_spec.simps)
next
  case (FillBytecode mul v sk)
  then show ?thesis using assms Fill_spec [of I env i mul v sk out _ out' len fixed]
    by (auto simp: bind_out_Ret_iff appended_def simp del: tail_spec.simps)
next
  case (X86JmpContents j)
  then show ?thesis using assms Jmp_spec [of I i fixed j out _ out' tail len env "bo_big out"]
    by (auto simp: bind_out_Ret_iff simp del: wf_contents.simps claims_len.simps tail_spec.simps)
qed

text \<open>
  A bytecode is output as its fixed part and its tail.  The byte order of the scratch buffer is the output's until a jump has set it
  to little-endian.
\<close>

definition bytecode_spec :: "'f output_iface \<Rightarrow> Env \<Rightarrow> nat \<Rightarrow> bool \<Rightarrow> 'f Bytecode \<Rightarrow> out_item list \<Rightarrow> bool" where
  "bytecode_spec I env i big bc seg \<longleftrightarrow>
     (\<exists>bs items. seg = Out_bytes bs # items \<and> fixed_spec I i big (bc_fixups bc) (bc_fixed bc) bs \<and>
        (case bc_contents bc of None \<Rightarrow> items = [] | Some c \<Rightarrow> tail_spec I env i big (getFixedLen bc) (bc_len bc) c items))"

lemma Bytecode_Output_spec:
  assumes "Bytecode_Output I env i bc out = Ret (bc', True, out')" "fixups_ok (bc_fixups bc)"
    "bc_claim (getTailOffset bc) (bc_contents bc) (bc_len bc)" "bc_settled I env bc" "convert_ok I"
  shows "\<exists>seg. bo_items out' = bo_items out @ seg \<and> bytecode_spec I env i (bo_big out) bc seg \<and> bo_big out' = (bo_big out \<and> \<not> is_jmp bc)"
proof -
  obtain fixed ds where fx: "apply_fixups I i (bo_big out) (bc_fixups bc) (bc_fixed bc) = Ret (Some fixed, ds)"
    using assms(1) by (auto simp: Bytecode_Output_def bind_out_Ret_iff split: option.splits)
  note fixed = apply_fixups_spec [OF fx assms(2,5)]
  define out1 where "out1 = OutputBytes fixed (out_diag ds out)"
  have out1: "bo_items out1 = bo_items out @ [Out_bytes fixed]" "bo_big out1 = bo_big out"
    by (simp_all add: out1_def OutputBytes_def out_diag_def)
  have tail: "0 \<le> getTailOffset bc" "getTailOffset bc \<le> ULONG_MAX"
    using take_bit_int_less_exp [of 64 "bc_offset bc + getFixedLen bc"] by (simp_all add: getTailOffset_def limits)
  show ?thesis
  proof (cases "bc_contents bc")
    case None
    then have "out' = out1" using assms(1) fx by (auto simp: Bytecode_Output_def Let_def out1_def split: if_splits)
    then show ?thesis using None fixed out1 by (auto simp: bytecode_spec_def is_jmp_def)
  next
    case (Some c)
    then obtain c' where o: "Contents_Output I env i (getFixedLen bc) (getTailOffset bc) c out1 = Ret (c', True, out')"
      using assms(1) fx by (auto simp: Bytecode_Output_def Let_def out1_def bind_out_Ret_iff split: if_splits)
    have c: "wf_contents c" "claims_len (getTailOffset bc) c (bc_len bc)" "settled I env c" using Some assms(3,4) by (auto simp: bc_settled_def)
    have "is_jmp bc \<longleftrightarrow> (\<exists>j. c = X86JmpContents j)" using Some by (cases c) (simp_all add: is_jmp_def)
    then show ?thesis using Contents_Output_spec [OF o c tail] Some fixed out1
      by (auto simp: bytecode_spec_def simp del: tail_spec.simps)
  qed
qed

definition order_at :: "bool \<Rightarrow> 'f Bytecode list \<Rightarrow> nat \<Rightarrow> bool" where
  "order_at big bcs k \<longleftrightarrow> big \<and> (\<forall>bc\<in>set (take k bcs). \<not> is_jmp bc)"

lemma output_all_spec:
  assumes "output_all I env i bcs out = Ret (True, out')" "laid_out off bcs" "\<forall>bc\<in>set bcs. bc_settled I env bc \<and> fixups_ok (bc_fixups bc)" "convert_ok I"
  shows "\<exists>segs. bo_items out' = bo_items out @ concat segs \<and> length segs = length bcs \<and>
     (\<forall>k < length bcs. bytecode_spec I env (i + k) (order_at (bo_big out) bcs k) (bcs ! k) (segs ! k) \<and>
        sum_list (List.map item_size (segs ! k)) = getFixedLen (bcs ! k) + bc_len (bcs ! k) \<and>
        off + sum_list (List.map item_size (concat (take k segs))) = bc_offset (bcs ! k))"
  using assms
proof (induction bcs arbitrary: i out off)
  case (Cons bc bcs)
  obtain bc' out1 where o: "Bytecode_Output I env i bc out = Ret (bc', True, out1)" "output_all I env (Suc i) bcs out1 = Ret (True, out')"
    using Cons(2) by (auto simp: bind_out_Ret_iff)
  have l: "bc_offset bc = off" "0 \<le> off" "bc_claim (off + getFixedLen bc) (bc_contents bc) (bc_len bc)" "laid_out (off + getFixedLen bc + bc_len bc) bcs"
    using Cons(3) by auto
  have "0 \<le> bc_len bc" using l(3) by (cases "bc_contents bc") auto
  moreover have "off + getFixedLen bc + bc_len bc \<le> ULONG_MAX" using l(4) laid_out_max by blast
  ultimately have "getTailOffset bc = off + getFixedLen bc" using l(1,2) by (auto simp: getTailOffset_def getFixedLen_def intro!: to_u64_id)
  then have claim: "bc_claim (getTailOffset bc) (bc_contents bc) (bc_len bc)" using l(3) by simp
  obtain seg where seg: "bo_items out1 = bo_items out @ seg" "bytecode_spec I env i (bo_big out) bc seg" "bo_big out1 = (bo_big out \<and> \<not> is_jmp bc)"
    using Bytecode_Output_spec [OF o(1) _ claim] Cons(4,5) by auto
  have size: "sum_list (List.map item_size seg) = getFixedLen bc + bc_len bc"
    using Bytecode_Output_emits [OF o(1) claim] Cons(4,5) seg(1) by (auto simp: emits_def)
  obtain segs where s: "bo_items out' = bo_items out1 @ concat segs" "length segs = length bcs"
    "\<forall>k < length bcs. bytecode_spec I env (Suc i + k) (order_at (bo_big out1) bcs k) (bcs ! k) (segs ! k) \<and>
        sum_list (List.map item_size (segs ! k)) = getFixedLen (bcs ! k) + bc_len (bcs ! k) \<and>
        off + getFixedLen bc + bc_len bc + sum_list (List.map item_size (concat (take k segs))) = bc_offset (bcs ! k)"
    using Cons(1) [OF o(2) l(4)] Cons(4,5) by auto
  have "order_at (bo_big out) (bc # bcs) (Suc k) = order_at (bo_big out1) bcs k" for k using seg(3) by (auto simp: order_at_def)
  then show ?case using s seg(1,2) size l(1)
    by (intro exI [of _ "seg # segs"]) (auto simp: less_Suc_eq_0_disj order_at_def [of _ _ 0])
qed simp

section \<open>Conversion of absolute values\<close>

text \<open>
  The conversion an object format makes of a value without relocations is \<open>OutputBasic\<close>, which fails when an integer is left to be
  relocated.  It keeps the length of the buffer, as \<open>convert_ok\<close> asks.
\<close>

definition basic_iface :: "'f float_ops \<Rightarrow> Env \<Rightarrow> ('f \<Rightarrow> NumericOutput \<Rightarrow> NumericOutput outcome) \<Rightarrow> 'f output_iface" where
  "basic_iface F env output_float =
     \<lparr>oi_bits = True, oi_convert = \<lambda>v loc num. bind_out (OutputBasic F env output_float v num) (\<lambda>(num', r, ds). Ret (r = None, num', ds)),
      oi_floats = F\<rparr>"

lemma output_loop_length: "length (fst (output_loop sze shift sz v bs)) = length bs"
  by (induction sze shift sz v bs rule: output_loop.induct) (auto simp: Let_def split: prod.splits)

lemma OutputInteger_length:
  assumes "OutputInteger out n = Ret out'"
  shows "length (contents (m_bytes out')) = length (contents (m_bytes out))"
proof (cases "isInt n")
  case True
  obtain bs sh where r: "output_loop (m_size out) (m_shift out) (int (m_size out)) (drop_bit (m_rshift out) (getInt n)) (contents (m_bytes out)) = (bs, sh)"
    by fastforce
  then have "length bs = length (contents (m_bytes out))" by (metis output_loop_length fst_conv)
  then show ?thesis using assms True r by (auto simp: OutputInteger_def Let_def bind_out_Ret_iff split: if_splits)
next
  case False
  then show ?thesis using assms by (auto simp: OutputInteger_def OutputInteger_bv_def Let_def bind_out_Ret_iff split: if_splits)
qed

lemma OutputBasic_length:
  assumes "\<And>f out out'. output_float f out = Ret out' \<Longrightarrow> length (contents (m_bytes out')) = length (contents (m_bytes out))"
    and "OutputBasic F env output_float v num = Ret (num', r, ds)"
  shows "length (contents (m_bytes num')) = length (contents (m_bytes num))"
proof (cases "v_abs v")
  case None
  then show ?thesis using assms(2) OutputInteger_length by (auto simp: OutputBasic_def Let_def bind_out_Ret_iff split: if_splits)
next
  case (Some e)
  consider "isIntNum e" | "isFloat e" "\<not> isIntNum e" | "\<not> isIntNum e" "\<not> isFloat e" by blast
  then show ?thesis
  proof cases
    case 1
    then show ?thesis using assms(2) Some OutputInteger_length by (auto simp: OutputBasic_def Let_def bind_out_Ret_iff split: if_splits)
  next
    case 2
    then show ?thesis using assms Some by (cases "t_data (hd e)") (auto simp: OutputBasic_def Let_def bind_out_Ret_iff split: if_splits)
  next
    case 3
    then obtain r0 ds0 where "Evaluate F env [] True False e = Ret (r0, ds0)"
      using assms(2) Some by (auto simp: OutputBasic_def Let_def bind_out_Ret_iff)
    then show ?thesis using assms Some 3 OutputInteger_length
      by (cases r0; cases "t_data (the r0)") (auto simp: OutputBasic_def Let_def bind_out_Ret_iff split: if_splits)
  qed
qed

lemma basic_convert_ok:
  assumes "\<And>f out out'. output_float f out = Ret out' \<Longrightarrow> length (contents (m_bytes out')) = length (contents (m_bytes out))"
  shows "convert_ok (basic_iface F env output_float)"
  using OutputBasic_length [OF assms] by (auto simp: convert_ok_def basic_iface_def bind_out_Ret_iff)

section \<open>Properties\<close>

text \<open>
  C8. The output of a laid-out section is the concatenation of one segment for each bytecode.  The segment of a bytecode holds its
  bytes: the fixed part, in which every fixup's field has the bytes its value is converted to and all other bytes are
  unchanged, and then what its contents stand for.  It has the bytecode's length, and what
  precedes it has as many bytes as the bytecode's offset, so every byte is written at the address the layout gave it.  The fixups of a bytecode
  do not overlap and the conversion keeps the length of its buffer.
\<close>

theorem output_at_offset:
  assumes "output_all I env i bcs out = Ret (True, out')" "laid_out 0 bcs"
    "\<forall>bc\<in>set bcs. bc_settled I env bc \<and> fixups_ok (bc_fixups bc)" "convert_ok I"
  shows "\<exists>segs. bo_items out' = bo_items out @ concat segs \<and> length segs = length bcs \<and>
     (\<forall>k < length bcs. bytecode_spec I env (i + k) (order_at (bo_big out) bcs k) (bcs ! k) (segs ! k) \<and>
        sum_list (List.map item_size (segs ! k)) = getFixedLen (bcs ! k) + bc_len (bcs ! k) \<and>
        sum_list (List.map item_size (concat (take k segs))) = bc_offset (bcs ! k))"
  using output_all_spec [OF assms] by simp

text \<open>A section of three bytes with a fixup in the middle, an alignment to 8, one byte and a gap of four.\<close>

definition sample_fixup :: "unit Fixup" where
  "sample_fixup = \<lparr>fx_off = 1, fx_value = Value_of_expr 8 [mk_term (T_INT (SV 5)) 0]\<rparr>"

definition fixup_bcs :: "unit Bytecode list" where
  "fixup_bcs = [(sample_bcs 5 8 ! 0)\<lparr>bc_fixups := [sample_fixup]\<rparr>, sample_bcs 5 8 ! 1]"

abbreviation plain_iface :: "unit output_iface" where
  "plain_iface \<equiv> basic_iface \<lparr>fo_arith = \<lambda>oper a b. ((), 0), fo_neg = id, fo_promote = \<lambda>w. id, fo_nonzero = \<lambda>f. True\<rparr>
     \<lparr>env_label = \<lambda>s. None, env_offset = \<lambda>bc. 0, env_container = \<lambda>bc. 0\<rparr> (\<lambda>f. Ret)"

theorem output_at_offset_witness:
  "\<exists>segs. [Out_bytes [1, 5, 3], Out_bytes [0, 0, 0, 0, 0], Out_bytes [9], Out_gap 4] = concat segs \<and> length segs = 2 \<and>
     (\<forall>k < 2. sum_list (List.map item_size (concat (take k segs))) = bc_offset (fixup_bcs ! k)) \<and>
     (\<exists>bs items. segs ! 0 = Out_bytes bs # items \<and> fixed_spec plain_iface 0 False [sample_fixup] [1, 2, 3] bs)"
proof -
  let ?env = "\<lparr>env_label = \<lambda>s. None, env_offset = \<lambda>bc. 0, env_container = \<lambda>bc. 0\<rparr>"
  have o: "output_all plain_iface ?env 0 fixup_bcs \<lparr>bo_items = [], bo_num = 0, bo_big = False, bo_diags = []\<rparr> =
     Ret (True, \<lparr>bo_items = [Out_bytes [1, 5, 3], Out_bytes [0, 0, 0, 0, 0], Out_bytes [9], Out_gap 4],
        bo_num = 13, bo_big = False, bo_diags = []\<rparr>)"
    by code_simp
  have l: "laid_out 0 fixup_bcs" using sample_laid_out by (simp add: fixup_bcs_def sample_bcs_def getFixedLen_def Bytecode_new_def)
  have s: "\<forall>bc\<in>set fixup_bcs. bc_settled plain_iface ?env bc \<and> fixups_ok (bc_fixups bc)"
    by (simp add: fixup_bcs_def sample_bcs_def bc_settled_def Bytecode_new_def fixups_ok_def)
  have c: "convert_ok plain_iface" by (rule basic_convert_ok) simp
  have n: "length fixup_bcs = 2" "bc_fixups (fixup_bcs ! 0) = [sample_fixup]" "bc_fixed (fixup_bcs ! 0) = [1, 2, 3]"
    by (simp_all add: fixup_bcs_def sample_bcs_def Bytecode_new_def)
  obtain segs where g: "[Out_bytes [1, 5, 3], Out_bytes [0, 0, 0, 0, 0], Out_bytes [9], Out_gap 4] = concat segs" "length segs = 2"
    "\<forall>k < 2. bytecode_spec plain_iface ?env (0 + k) (order_at False fixup_bcs k) (fixup_bcs ! k) (segs ! k) \<and>
        sum_list (List.map item_size (concat (take k segs))) = bc_offset (fixup_bcs ! k)"
    using output_at_offset [OF o l s c] unfolding n by auto
  then have "bytecode_spec plain_iface ?env 0 False (fixup_bcs ! 0) (segs ! 0)" by (auto simp: order_at_def dest: spec [of _ 0])
  then show ?thesis using g n(2,3) by (intro exI [of _ segs]) (auto simp: bytecode_spec_def)
qed

end
