(* ===== verification/Spec2Isabelle.thy ===== *)
theory Spec2Isabelle
  imports IntNum_Text Leb128 NumericOutput Evaluate Optimizer_Labels Value_Scan_Correct Output_Correct
begin

text \<open>
  The core of the assembler: the libraries under \<^verbatim>\<open>src/lib/yasmx\<close> that turn parsed statements
  into the bytes of a section, and the x86 code they call for prefixes, opcodes and jumps.

  \<^bold>\<open>The program.\<close>  A parser appends bytecodes to the container of a section.  A bytecode is a
  part of fixed bytes followed by contents of one kind: an alignment, an origin, a gap, a LEB128
  number, repeated data or a jump.  Numbers are \<^verbatim>\<open>IntNum\<close>s, operands are expressions (vectors of
  terms in reverse polish order) or \<^verbatim>\<open>Value\<close>s, which are expressions with a relative part.
  \<^verbatim>\<open>BytecodeContainer::Optimize\<close> computes the lengths, watches the distances the lengths depend on
  with spans and expands the bytecodes that need a longer form.  Output then writes each bytecode
  through a \<^verbatim>\<open>BytecodeOutput\<close> that an object format supplies.

  \<^bold>\<open>Conventions.\<close>  Code that can fail returns an \<open>outcome\<close>: \<open>Ret\<close>, \<open>Fail\<close> with a diagnostic, or
  \<open>Undefined\<close> where the code fails an assertion or has undefined behaviour.  Diagnostics that do
  not end a function are returned in a list, in the order of their reports.  Source locations label
  diagnostics only and are left out.  A \<^verbatim>\<open>long\<close> has 64 bits; where a value may wrap, \<open>to_u64\<close> and
  \<open>to_s64\<close> are written out.  Pointers to bytecodes, symbols and registers are numbers: the position
  of a bytecode in its container, the number of a symbol.  A vector that the code changes in place is
  passed along.

  \<^bold>\<open>Theories and sources.\<close>
  \<^item> \<open>Prelude\<close>: outcomes, machine integers, digit sums and the collections \<open>limits\<close> and
    \<open>outcome_simps\<close>.
  \<^item> \<open>Operator\<close>: \<^verbatim>\<open>Op.h\<close>, \<^verbatim>\<open>Op.cpp\<close>.
  \<^item> \<open>IntNum\<close>, \<open>IntNum_Calc\<close>, \<open>IntNum_Text\<close>: \<^verbatim>\<open>IntNum.cpp\<close> and what it uses of \<^verbatim>\<open>llvm::APInt\<close>.  The
    reference semantics is \<open>calc_spec\<close>, the operators as documented; the locale \<open>int_arith\<close> is the contract the expression code
    relies on.
  \<^item> \<open>Bytes\<close>, \<open>Leb128\<close>, \<open>NumericOutput\<close>: \<^verbatim>\<open>Bytes_util.cpp\<close>, \<^verbatim>\<open>InputBuffer.cpp\<close>, \<^verbatim>\<open>Bytes_leb128.cpp\<close>,
    \<^verbatim>\<open>NumericOutput.cpp\<close>.  The locale \<open>byte_codec\<close> is the contract of a writer and its reader.
  \<^item> \<open>Expr\<close>, \<open>Expr_Tree\<close>: building, substitution, extraction and queries of \<^verbatim>\<open>Expr.cpp\<close>, and the trees
    whose post-order listings the vectors are.
  \<^item> \<open>Evaluate\<close>: \<^verbatim>\<open>Location.cpp\<close> and \<^verbatim>\<open>Evaluate\<close> of \<^verbatim>\<open>Location_util.cpp\<close>; \<open>tree_val\<close> is the value of a
    tree.
  \<^item> \<open>Simplify\<close>, \<open>Simplify_Level\<close>, \<open>Simplify_Correct\<close>: \<^verbatim>\<open>TransformNeg\<close>, \<^verbatim>\<open>LevelOp\<close> and \<^verbatim>\<open>Simplify\<close> of
    \<^verbatim>\<open>Expr.cpp\<close>, the template of \<^verbatim>\<open>Expr.h\<close>, and \<^verbatim>\<open>SimplifyCalcDist\<close> and \<^verbatim>\<open>SubstDist\<close> of
    \<^verbatim>\<open>Location_util.cpp\<close>.
  \<^item> \<open>Equ\<close>: \<^verbatim>\<open>ExpandEqu\<close> of \<^verbatim>\<open>Expr_util.cpp\<close>; the relation \<open>expands\<close> is the expansion of a tree.
  \<^item> \<open>Value\<close>, \<open>Value_Scan\<close>, \<open>Value_Scan_Correct\<close>: \<^verbatim>\<open>Value.cpp\<close>; the last two are \<^verbatim>\<open>FinalizeScan\<close> and
    \<^verbatim>\<open>Finalize\<close>.
  \<^item> \<open>X86Common\<close>: \<^verbatim>\<open>X86Common.cpp\<close>, \<^verbatim>\<open>X86Opcode.cpp\<close>.
  \<^item> \<open>Contents\<close>, \<open>Contents_Correct\<close>: \<^verbatim>\<open>AlignBytecode.cpp\<close>, \<^verbatim>\<open>OrgBytecode.cpp\<close>, \<^verbatim>\<open>Leb128Bytecode.cpp\<close>, the
    fill half of \<^verbatim>\<open>MultipleBytecode.cpp\<close>, \<^verbatim>\<open>X86Jmp.cpp\<close> and \<^verbatim>\<open>BytecodeOutput.h\<close>.  The locale
    \<open>bytecode_contents\<close> is what a bytecode relies on of its contents.
  \<^item> \<open>Bytecode\<close>, \<open>Bytecode_Correct\<close>, \<open>Output_Correct\<close>: \<^verbatim>\<open>Bytecode.cpp\<close>, \<^verbatim>\<open>BytecodeContainer.cpp\<close> and the output
    loop of \<^verbatim>\<open>BinObject.cpp\<close>.  \<open>bytecode_spec\<close> are the bytes a bytecode stands for.
  \<^item> \<open>IntervalTree\<close>, \<open>IntervalTree_Correct\<close>: \<^verbatim>\<open>Support/IntervalTree.h\<close> with its parent pointers as a
    path; the locale \<open>interval_store\<close> is what the optimizer relies on.
  \<^item> \<open>Optimizer\<close> and \<open>Optimizer_Frame\<close>, \<open>_Inv\<close>, \<open>_Init\<close>, \<open>_Steps\<close>, \<open>_Correct\<close>, \<open>_Jumps\<close>, \<open>_Labels\<close>:
    \<^verbatim>\<open>Optimizer.cpp\<close> and \<^verbatim>\<open>BytecodeContainer::Optimize\<close>.

  \<^bold>\<open>What is shown.\<close>  Optimizer: when \<open>Optimize\<close> ends without a message the section is laid out, every
  span that is still watched has the value its expression has at the final offsets, and a jump
  that stayed short reaches its label; it ends for every section whose repetition counts are
  numbers.  The proof keeps, through each step of the main loop, that the stored value of every term is
  the distance of its locations in the section as expanded so far (\<open>Optimizer_Inv\<close>), that the
  spans not on a queue are within their thresholds, and that every short jump is watched
  (\<open>Optimizer_Jumps\<close>).  Containers: appending keeps the container's invariant, \<open>UpdateOffsets\<close>
  lays the bytecodes out, and the output of a laid-out section puts the bytes of every bytecode, with its
  fixups converted in place, at its offset.  Contents: they output as many bytes as they claim, and the thresholds they ask for are the exact
  ones.  Expressions: the vector operations are the operations on trees; \<open>Evaluate\<close> and \<open>Simplify\<close>
  compute the value of the tree, the latter for the trees whose negations \<^verbatim>\<open>TransformNeg\<close> pushes down
  correctly (\<open>tame\<close>), with counterexamples for others; \<open>ExpandEqu\<close> expands the equates of a tree and
  finds exactly the circular ones.  Values: \<open>FinalizeScan\<close> splits a sum of leaves and negated symbols without
  changing its value and leaves only what needs no relocation.  Numbers: \<open>Calc\<close>, comparison, sizes and bit
  fields agree with integer arithmetic in every representation; texts, bytes and LEB128 numbers read
  back, in the ranges the theorems name.  Prefixes: the processor uses the operand and address sizes that
  were asked for.  The interval tree keeps its order, its maxima and its colours and enumerates exactly the
  intervals that meet a query.

  \<^bold>\<open>Termination.\<close>  The recursions are structural or have a measure; the walk of
  \<^verbatim>\<open>TransformNegImpl\<close> consumes the terms to its left.  \<open>FinalizeScan\<close> has fuel: each of its loops and
  of its nested calls goes down from the position of an operator, so the number of terms is enough, and
  \<open>FinalizeScan_correct\<close> shows a result for it.  The loop of \<open>ExpandEqu\<close> is a \<^verbatim>\<open>partial_function\<close>;
  \<open>ExpandEqu_ends\<close> shows that it ends.  The main loop of the optimizer, which need not
  end, is a \<^verbatim>\<open>partial_function\<close>, and \<open>Step1b\<close> returns nothing where the code's loop does
  not advance; \<open>Optimize_terminates\<close> shows that both end.

  \<^bold>\<open>Parameters.\<close>  Floating-point arithmetic is \<^verbatim>\<open>llvm::APFloat\<close> (\<open>float_ops\<close>).  The labels of symbols and the
  offsets and containers of bytecodes are an environment (\<open>Env\<close>), the values of equates a map.  The object format's
  conversion of a value to bytes is \<open>oi_convert\<close>, with the hypothesis \<open>convert_ok\<close> that it keeps
  the length of the buffer.

  \<^bold>\<open>Not modelled.\<close>  The \<^verbatim>\<open>Finalize\<close> of the contents, which runs before the
  optimizer; \<^verbatim>\<open>MultipleBytecode\<close> with its inner container; the selection of x86 instructions, whose tables are
  generated, and effective addresses; parsers, preprocessors, object and debug formats, which work on
  source managers, identifier tables and file layouts; the XML dumps; the vendored llvm,
  pugixml, boost and gmock sources, except for the integer operations \<^verbatim>\<open>IntNum\<close> uses.
\<close>

end
